(* ===== verification/Prelude.thy ===== *)
theory Prelude
  imports Main "HOL-Library.Word" "HOL-Library.AList" "HOL-Library.Sublist"
begin

text \<open>
  Shared vocabulary of the VectorLedger development: machine integers and their
  little-endian byte encodings, results with an error side, hash maps as association
  lists, and the list lemmas the component theories rely on.

  Conventions.
  \<^item> A Rust \<^verbatim>\<open>Result<T, E>\<close> is a sum: \<open>Inl\<close> carries the error, \<open>Inr\<close> the value.
  \<^item> An operation on \<^verbatim>\<open>&mut self\<close> that can fail returns the new state beside the result,
    because the Rust code may already have changed a field when it returns an error.
  \<^item> A machine integer is a word of its width.  The positions of the generic hash chain are
    natural numbers with the wrap-around written out in \<open>fetch_add\<close>.
  \<^item> A \<^verbatim>\<open>HashMap\<close> is an association list read with \<open>map_of\<close> and written with
    \<open>AList.update\<close>, so iteration and sums over it compute.
\<close>

named_theorems codec_simps \<open>lengths and inverses of the byte encodings\<close>

subsection \<open>Types\<close>

type_synonym byte = "8 word"
type_synonym bytes = "byte list"
type_synonym u16 = "16 word"
type_synonym u32 = "32 word"

text \<open>A \<^verbatim>\<open>[u8; 32]\<close> digest is a 256-bit word; a UUID is a 128-bit word.\<close>

type_synonym hash = "256 word"
type_synonym uuid = "128 word"

text \<open>UTC instants are nanoseconds since the Unix epoch.\<close>

type_synonym timestamp = int

subsection \<open>Unsigned counters and casts\<close>

definition u64_max :: nat where
  "u64_max = 2 ^ 64 - 1"

definition fetch_add :: "nat \<Rightarrow> nat" where
  "fetch_add n = (n + 1) mod 2 ^ 64"

lemma fetch_add_small [simp]: "n < u64_max \<Longrightarrow> fetch_add n = n + 1"
  by (simp add: fetch_add_def u64_max_def)

text \<open>\<^verbatim>\<open>x as i64\<close> for a \<^verbatim>\<open>u64\<close>.\<close>

definition as_i64 :: "nat \<Rightarrow> int" where
  "as_i64 n = (if n < 2 ^ 63 then int n else int n - 2 ^ 64)"

lemma as_i64_small [simp]: "n < 2 ^ 63 \<Longrightarrow> as_i64 n = int n"
  by (simp add: as_i64_def)

definition i64_min :: int where "i64_min = - (2 ^ 63)"
definition i64_max :: int where "i64_max = 2 ^ 63 - 1"

definition in_i64 :: "int \<Rightarrow> bool" where
  "in_i64 x \<longleftrightarrow> i64_min \<le> x \<and> x \<le> i64_max"

subsection \<open>Little-endian encodings\<close>

fun le_bytes :: "nat \<Rightarrow> nat \<Rightarrow> bytes" where
  "le_bytes 0 x = []"
| "le_bytes (Suc n) x = of_nat (x mod 256) # le_bytes n (x div 256)"

fun of_le :: "bytes \<Rightarrow> nat" where
  "of_le [] = 0"
| "of_le (b # bs) = unat b + 256 * of_le bs"

lemma length_le_bytes [simp, codec_simps]: "length (le_bytes n x) = n"
  by (induction n arbitrary: x) auto

lemma unat_of_nat_byte [simp]: "unat (of_nat (x mod 256) :: byte) = x mod 256"
  by (simp add: unat_of_nat)

lemma of_le_le_bytes [codec_simps]: "of_le (le_bytes n x) = x mod 256 ^ n"
proof (induction n arbitrary: x)
  case 0
  then show ?case by simp
next
  case (Suc n)
  have "of_le (le_bytes (Suc n) x) = x mod 256 + 256 * (x div 256 mod 256 ^ n)"
    by (simp add: Suc.IH)
  also have "\<dots> = x mod (256 * 256 ^ n)"
    by (simp add: mod_mult2_eq)
  finally show ?case by simp
qed

lemma of_le_le_bytes_small [codec_simps]: "x < 256 ^ n \<Longrightarrow> of_le (le_bytes n x) = x"
  by (simp add: of_le_le_bytes)

lemma le_bytes_inject:
  "x < 256 ^ n \<Longrightarrow> y < 256 ^ n \<Longrightarrow> le_bytes n x = le_bytes n y \<longleftrightarrow> x = y"
  by (metis of_le_le_bytes_small)

text \<open>An \<^verbatim>\<open>i64\<close> is written in two's complement.\<close>

definition i64_bytes :: "int \<Rightarrow> bytes" where
  "i64_bytes x = le_bytes 8 (nat (x mod 2 ^ 64))"

lemma length_i64_bytes [simp, codec_simps]: "length (i64_bytes x) = 8"
  by (simp add: i64_bytes_def)

lemma i64_bytes_inject:
  assumes "in_i64 x" "in_i64 y" "i64_bytes x = i64_bytes y"
  shows "x = y"
proof -
  have lt: "nat (z mod 2 ^ 64) < 256 ^ 8" for z :: int
  proof -
    have "z mod 2 ^ 64 < (2 ^ 64 :: int)" by simp
    then show ?thesis by (simp add: nat_less_iff)
  qed
  have "nat (x mod 2 ^ 64) = nat (y mod 2 ^ 64)"
    using assms(3) lt by (simp add: i64_bytes_def le_bytes_inject)
  then have m: "x mod 2 ^ 64 = y mod 2 ^ 64"
    by (metis nat_0_le pos_mod_sign zero_less_numeral zero_less_power)
  then have d: "(2 ^ 64 :: int) dvd x - y"
    by (simp add: mod_eq_dvd_iff)
  have b: "\<bar>x - y\<bar> < 2 ^ 64"
    using assms(1,2) by (simp add: in_i64_def i64_min_def i64_max_def abs_less_iff)
  show ?thesis
  proof (rule ccontr)
    assume "x \<noteq> y"
    then have "x - y \<noteq> 0" by simp
    from dvd_imp_le_int [OF this d] b show False by simp
  qed
qed

definition hash_raw :: "hash \<Rightarrow> bytes" where
  "hash_raw h = le_bytes 32 (unat h)"

lemma length_hash_raw [simp, codec_simps]: "length (hash_raw h) = 32"
  by (simp add: hash_raw_def)

lemma hash_raw_inject [simp]: "hash_raw a = hash_raw b \<longleftrightarrow> a = b"
proof -
  have "unat x < 256 ^ 32" for x :: hash
    using unsigned_less [of x] by simp
  then show ?thesis
    by (metis hash_raw_def le_bytes_inject word_unat_eq_iff)
qed

definition uuid_raw :: "uuid \<Rightarrow> bytes" where
  "uuid_raw u = rev (le_bytes 16 (unat u))"

lemma length_uuid_raw [simp, codec_simps]: "length (uuid_raw u) = 16"
  by (simp add: uuid_raw_def)

lemma uuid_raw_inject [simp]: "uuid_raw a = uuid_raw b \<longleftrightarrow> a = b"
proof -
  have "unat x < 256 ^ 16" for x :: uuid
    using unsigned_less [of x] by simp
  then show ?thesis
    by (metis uuid_raw_def le_bytes_inject rev_is_rev_conv word_unat_eq_iff)
qed

text \<open>A Rust string is its UTF-8 bytes; a HOL character is one byte.\<close>

definition str_bytes :: "string \<Rightarrow> bytes" where
  "str_bytes s = map (\<lambda>c. of_nat (of_char c)) s"

lemma length_str_bytes [simp, codec_simps]: "length (str_bytes s) = length s"
  by (simp add: str_bytes_def)

lemma char_byte_inject: "(of_nat (of_char a) :: byte) = of_nat (of_char b) \<longleftrightarrow> a = b"
proof -
  have "unat (of_nat (of_char c) :: byte) = of_char c" for c :: char
    using nat_of_char_less_256 [of c] by (simp add: unat_of_nat)
  then show ?thesis
    by (metis of_char_eq_iff)
qed

lemma str_bytes_inject [simp]: "str_bytes a = str_bytes b \<longleftrightarrow> a = b"
  unfolding str_bytes_def
  by (rule inj_map_eq_map) (simp add: inj_def char_byte_inject)

text \<open>ASCII case conversion; bytes outside \<open>a..z\<close> (\<open>A..Z\<close>) are kept.\<close>

definition to_uppercase :: "string \<Rightarrow> string" where
  "to_uppercase s = map (\<lambda>c. if 97 \<le> (of_char c :: nat) \<and> (of_char c :: nat) \<le> 122
     then char_of (of_char c - 32 :: nat) else c) s"

definition to_lowercase :: "string \<Rightarrow> string" where
  "to_lowercase s = map (\<lambda>c. if 65 \<le> (of_char c :: nat) \<and> (of_char c :: nat) \<le> 90
     then char_of (of_char c + 32 :: nat) else c) s"

subsection \<open>Hexadecimal and decimal text\<close>

fun hex_digit :: "nat \<Rightarrow> char" where
  "hex_digit n = char_of (if n < 10 then 48 + n else 87 + n)"

definition hex_encode :: "bytes \<Rightarrow> string" where
  "hex_encode bs = concat (map (\<lambda>b. [hex_digit (unat b div 16), hex_digit (unat b mod 16)]) bs)"

definition hex_value :: "char \<Rightarrow> nat option" where
  "hex_value c = (let n = of_char c in
     if 48 \<le> n \<and> n \<le> 57 then Some (n - 48) else if 97 \<le> n \<and> n \<le> 102 then Some (n - 87)
     else if 65 \<le> n \<and> n \<le> 70 then Some (n - 55) else None)"

text \<open>\<^verbatim>\<open>hex::decode\<close> rejects an odd length and characters that are no hexadecimal digits.\<close>

fun hex_decode :: "string \<Rightarrow> bytes option" where
  "hex_decode [] = Some []"
| "hex_decode [c] = None"
| "hex_decode (c # d # cs) = (case (hex_value c, hex_value d, hex_decode cs) of
     (Some x, Some y, Some bs) \<Rightarrow> Some (of_nat (16 * x + y) # bs) | _ \<Rightarrow> None)"

lemma hex_value_digit: "n < 16 \<Longrightarrow> hex_value (hex_digit n) = Some n"
  by (simp add: hex_value_def Let_def)

lemma hex_decode_encode [simp]: "hex_decode (hex_encode bs) = Some bs"
proof (induction bs)
  case (Cons b bs)
  have "unat b < 2 ^ LENGTH(8)" by (rule unsigned_less)
  then have "unat b div 16 < 16" by simp
  with Cons show ?case by (simp add: hex_encode_def hex_value_digit del: hex_digit.simps)
qed (simp add: hex_encode_def)

lemma length_hex_encode [simp]: "length (hex_encode bs) = 2 * length bs"
  by (induction bs) (simp_all add: hex_encode_def)

lemma hex_encode_inject [simp]: "hex_encode a = hex_encode b \<longleftrightarrow> a = b"
  by (metis hex_decode_encode option.inject)

fun dec_string :: "nat \<Rightarrow> string" where
  "dec_string n = (if n < 10 then [char_of (48 + n)] else dec_string (n div 10) @ [char_of (48 + n mod 10)])"

declare dec_string.simps [simp del]

subsection \<open>Hash maps as association lists\<close>

text \<open>\<^verbatim>\<open>*m.entry(k).or_insert(0) += d\<close> and \<^verbatim>\<open>m.get(k).copied().unwrap_or(0)\<close>.\<close>

definition add_at :: "'k \<Rightarrow> int \<Rightarrow> ('k \<times> int) list \<Rightarrow> ('k \<times> int) list" where
  "add_at k d m = AList.update k ((case map_of m k of None \<Rightarrow> 0 | Some v \<Rightarrow> v) + d) m"

definition get0 :: "('k \<times> int) list \<Rightarrow> 'k \<Rightarrow> int" where
  "get0 m k = (case map_of m k of None \<Rightarrow> 0 | Some v \<Rightarrow> v)"

lemma get0_Nil [simp]: "get0 [] k = 0"
  by (simp add: get0_def)

lemma get0_add_at [simp]:
  "get0 (add_at k d m) k' = get0 m k' + (if k' = k then d else 0)"
  by (simp add: get0_def add_at_def update_conv')

lemma distinct_add_at [simp]: "distinct (map fst m) \<Longrightarrow> distinct (map fst (add_at k d m))"
  by (simp add: add_at_def distinct_update)

lemma keys_add_at [simp]: "fst ` set (add_at k d m) = insert k (fst ` set m)"
  by (simp add: add_at_def dom_update [unfolded image_comp])

lemma map_of_update_iff [simp]:
  "map_of (AList.update k v m) k' = (if k' = k then Some v else map_of m k')"
  by (simp add: update_conv')

text \<open>A sum over a map after one key has changed.\<close>

lemma sum_list_update_key:
  assumes "distinct (map fst m)" and "map_of m k = Some v"
  shows "(\<Sum>(k', x) \<leftarrow> AList.update k w m. f k' x) =
         (\<Sum>(k', x) \<leftarrow> m. f k' x) - f k v + (f k w :: int)"
  using assms
proof (induction m)
  case (Cons p m)
  obtain k' x where p: "p = (k', x)" by force
  show ?case
  proof (cases "k' = k")
    case True
    with Cons.prems p show ?thesis by simp
  next
    case False
    with Cons p show ?thesis by simp
  qed
qed simp

subsection \<open>Fallible steps on a state\<close>

text \<open>Rust's \<^verbatim>\<open>?\<close>: go on with the value, or return the error with the state reached so far.\<close>

fun and_then :: "'s \<times> ('e + 'a) \<Rightarrow> ('s \<Rightarrow> 'a \<Rightarrow> 's \<times> ('e + 'b)) \<Rightarrow> 's \<times> ('e + 'b)" where
  "and_then (s, Inl e) f = (s, Inl e)"
| "and_then (s, Inr a) f = f s a"

lemma and_then_Inr_iff:
  "and_then r f = (s', Inr b) \<longleftrightarrow> (\<exists>s a. r = (s, Inr a) \<and> f s a = (s', Inr b))"
  by (cases r; cases "snd r") auto

lemma and_then_Inl_iff:
  "and_then r f = (s', Inl e) \<longleftrightarrow>
     r = (s', Inl e) \<or> (\<exists>s a. r = (s, Inr a) \<and> f s a = (s', Inl e))"
  by (cases r; cases "snd r") auto

text \<open>The error of a callee, converted by \<^verbatim>\<open>From\<close>.\<close>

definition map_err :: "('e \<Rightarrow> 'f) \<Rightarrow> 'e + 'a \<Rightarrow> 'f + 'a" where
  "map_err g r = (case r of Inl e \<Rightarrow> Inl (g e) | Inr a \<Rightarrow> Inr a)"

lemma map_err_simps [simp]: "map_err g (Inl e) = Inl (g e)" "map_err g (Inr a) = Inr a"
  by (simp_all add: map_err_def)

lemma map_err_iff [simp]:
  "map_err g r = Inr a \<longleftrightarrow> r = Inr a" "map_err g r = Inl x \<longleftrightarrow> (\<exists>e. r = Inl e \<and> x = g e)"
  by (cases r; auto)+

subsection \<open>Concatenations of fixed-width pieces\<close>

lemma append_eq_same_length [simp]:
  "length a = length c \<Longrightarrow> a @ b = c @ d \<longleftrightarrow> a = c \<and> b = d"
  by simp

text \<open>A prefix of a concatenation ends inside exactly one of its pieces.\<close>

lemma prefix_concat_split:
  assumes "prefix p (concat xs)"
  shows "\<exists>k r. k \<le> length xs \<and> p = concat (take k xs) @ r \<and>
           (if k < length xs then strict_prefix r (xs ! k) else r = [])"
  using assms
proof (induction xs arbitrary: p)
  case Nil
  then show ?case by simp
next
  case (Cons x xs)
  show ?case
  proof (cases "strict_prefix p x")
    case True
    then show ?thesis
      by (intro exI [of _ 0] exI [of _ p]) simp
  next
    case False
    with Cons.prems obtain q where q: "p = x @ q" "prefix q (concat xs)"
      by (auto simp: prefix_append strict_prefix_def)
    from Cons.IH [OF q(2)] obtain k r where kr: "k \<le> length xs" "q = concat (take k xs) @ r"
      "if k < length xs then strict_prefix r (xs ! k) else r = []" by blast
    with q show ?thesis
      by (intro exI [of _ "Suc k"] exI [of _ r]) auto
  qed
qed

end
