(* ===== verification/Hash_Chain.thy ===== *)
theory Hash_Chain
  imports Prelude
begin

text \<open>
  The contract that every hash chain of the program shares.  The generic chain of
  \<^verbatim>\<open>vledger-crypto\<close>, the journal of \<^verbatim>\<open>vledger-ledger\<close> and the audit log of
  \<^verbatim>\<open>vledger-audit\<close> all verify their records in the same way: each record is checked on
  its own and its stored predecessor hash is compared with the chain hash of the record
  before it.  What makes the chain tamper evident is stated here once, as a locale; the
  three components interpret it on their own records.
\<close>

subsection \<open>The verification walk\<close>

fun chain_ok :: "('e \<Rightarrow> bool) \<Rightarrow> ('e \<Rightarrow> 'h) \<Rightarrow> ('e \<Rightarrow> 'h) \<Rightarrow> 'h \<Rightarrow> 'e list \<Rightarrow> bool" where
  "chain_ok ok prv tip p [] = True"
| "chain_ok ok prv tip p (e # es) = (ok e \<and> prv e = p \<and> chain_ok ok prv tip (tip e) es)"

definition chain_end :: "('e \<Rightarrow> 'h) \<Rightarrow> 'h \<Rightarrow> 'e list \<Rightarrow> 'h" where
  "chain_end tip p es = (if es = [] then p else tip (last es))"

lemma chain_end_Cons [simp]: "chain_end tip p (e # es) = chain_end tip (tip e) es"
  by (simp add: chain_end_def)

lemma chain_end_snoc [simp]: "chain_end tip p (es @ [e]) = tip e"
  by (simp add: chain_end_def)

lemma chain_end_Nil [simp]: "chain_end tip p [] = p"
  by (simp add: chain_end_def)

lemma chain_ok_append [simp]:
  "chain_ok ok prv tip p (es @ fs) \<longleftrightarrow>
     chain_ok ok prv tip p es \<and> chain_ok ok prv tip (chain_end tip p es) fs"
  by (induction es arbitrary: p) auto

lemma chain_ok_all: "chain_ok ok prv tip p es \<Longrightarrow> e \<in> set es \<Longrightarrow> ok e"
  by (induction es arbitrary: p) auto

text \<open>Every suffix of a verified chain is verified from its own starting point.\<close>

lemma chain_ok_drop:
  "chain_ok ok prv tip p es \<Longrightarrow> k < length es \<Longrightarrow>
     chain_ok ok prv tip (prv (es ! k)) (drop k es)"
proof (induction es arbitrary: p k)
  case (Cons e es)
  then show ?case by (cases k) auto
qed simp

subsection \<open>The contract\<close>

text \<open>
  \<open>msgs e\<close> are the byte strings hashed while record \<open>e\<close> is checked.  The first law says
  that a checked record is determined by its chain hash as long as the hash function
  does not collide on the messages of the two records compared; the second that the
  chain hash is the digest of one of them.
\<close>

locale hash_chain =
  fixes H :: "bytes \<Rightarrow> 'h"
    and ok :: "'e \<Rightarrow> bool"
    and prv :: "'e \<Rightarrow> 'h"
    and tip :: "'e \<Rightarrow> 'h"
    and msgs :: "'e \<Rightarrow> bytes set"
    and same :: "'e \<Rightarrow> 'e \<Rightarrow> bool"
  assumes binding: "ok e \<Longrightarrow> ok f \<Longrightarrow> tip e = tip f \<Longrightarrow>
      inj_on H (msgs e \<union> msgs f) \<Longrightarrow> same e f \<and> prv e = prv f"
    and tip_digest: "ok e \<Longrightarrow> tip e \<in> H ` msgs e"
begin

text \<open>Two verified chains that end in the same hash agree record by record.\<close>

lemma chains_agree:
  assumes "chain_ok ok prv tip g es" and "chain_ok ok prv tip g fs"
    and "chain_end tip g es = chain_end tip g fs"
    and "inj_on H (\<Union>(msgs ` (set es \<union> set fs)))"
    and "g \<notin> H ` \<Union>(msgs ` (set es \<union> set fs))"
  shows "list_all2 same es fs"
  using assms
proof (induction es arbitrary: fs rule: rev_induct)
  case Nil
  show ?case
  proof (cases fs rule: rev_cases)
    case (snoc fs' f)
    with Nil have "ok f" and "tip f = g" by auto
    then have "g \<in> H ` msgs f" using tip_digest by metis
    with Nil snoc show ?thesis by auto
  qed simp
next
  case (snoc e es)
  show ?case
  proof (cases fs rule: rev_cases)
    case Nil
    with snoc.prems have "ok e" and "tip e = g" by auto
    then have "g \<in> H ` msgs e" using tip_digest by metis
    with snoc.prems show ?thesis by auto
  next
    case (snoc fs' f)
    note fs = this
    from snoc.prems fs have oks: "ok e" "ok f" "tip e = tip f"
      and pe: "prv e = chain_end tip g es" and pf: "prv f = chain_end tip g fs'"
      by auto
    have "inj_on H (msgs e \<union> msgs f)"
      by (rule inj_on_subset [OF snoc.prems(4)]) (auto simp: fs)
    with binding oks have b: "same e f" "prv e = prv f" by auto
    have "list_all2 same es fs'"
    proof (rule snoc.IH)
      show "chain_ok ok prv tip g es" "chain_ok ok prv tip g fs'"
        using snoc.prems fs by auto
      show "chain_end tip g es = chain_end tip g fs'"
        using b pe pf by simp
      show "inj_on H (\<Union>(msgs ` (set es \<union> set fs')))"
        by (rule inj_on_subset [OF snoc.prems(4)]) (auto simp: fs)
      show "g \<notin> H ` \<Union>(msgs ` (set es \<union> set fs'))"
        using snoc.prems(5) fs by auto
    qed
    with b fs show ?thesis by (simp add: list_all2_appendI)
  qed
qed

corollary chains_same_length:
  assumes "chain_ok ok prv tip g es" and "chain_ok ok prv tip g fs"
    and "chain_end tip g es = chain_end tip g fs"
    and "inj_on H (\<Union>(msgs ` (set es \<union> set fs)))"
    and "g \<notin> H ` \<Union>(msgs ` (set es \<union> set fs))"
  shows "length es = length fs"
  using chains_agree [OF assms] by (rule list_all2_lengthD)

end

end
