(* ===== verification/Crypto.thy ===== *)
theory Crypto
  imports Hash_Chain
begin

text \<open>
  \<^verbatim>\<open>crates/vledger-crypto\<close>: domain-separated hashing, the generic hash chain
  (\<^verbatim>\<open>hash.rs\<close>) and the binary Merkle tree with its membership proofs (\<^verbatim>\<open>merkle.rs\<close>).

  BLAKE3 is an external function: every definition takes it as its argument \<open>b3\<close>.  An
  incremental \<^verbatim>\<open>Hasher\<close> that is updated piece by piece digests the concatenation of the
  pieces.  No theorem assumes that \<open>b3\<close> is injective; the tamper-evidence theorems ask
  that it does not collide on the finitely many messages that are hashed in the two
  runs they compare.
\<close>

subsection \<open>Hashing\<close>

definition ZERO_HASH :: hash where
  "ZERO_HASH = 0"

definition hash_node :: "(bytes \<Rightarrow> hash) \<Rightarrow> hash \<Rightarrow> hash \<Rightarrow> hash" where
  "hash_node b3 left right = b3 ([0x01] @ hash_raw left @ hash_raw right)"

definition hash_leaf :: "(bytes \<Rightarrow> hash) \<Rightarrow> bytes \<Rightarrow> hash" where
  "hash_leaf b3 data = b3 ([0x00] @ data)"

subsection \<open>The generic hash chain\<close>

record chain_entry =
  ce_sequence :: nat
  ce_prev_hash :: hash
  ce_content_hash :: hash
  ce_chain_hash :: hash

text \<open>The message of \<^verbatim>\<open>compute_chain_hash\<close>, shared with the ledger's journal.\<close>

definition chain_msg :: "nat \<Rightarrow> hash \<Rightarrow> hash \<Rightarrow> bytes" where
  "chain_msg seq prev content = le_bytes 8 seq @ hash_raw prev @ hash_raw content"

definition compute_chain_hash :: "(bytes \<Rightarrow> hash) \<Rightarrow> nat \<Rightarrow> hash \<Rightarrow> hash \<Rightarrow> hash" where
  "compute_chain_hash b3 seq prev content = b3 (chain_msg seq prev content)"

lemma chain_msg_inject:
  assumes "s < 2 ^ 64" "t < 2 ^ 64"
  shows "chain_msg s p c = chain_msg t q d \<longleftrightarrow> s = t \<and> p = q \<and> c = d"
  using assms by (simp add: chain_msg_def le_bytes_inject)

definition chain_entry_new :: "(bytes \<Rightarrow> hash) \<Rightarrow> nat \<Rightarrow> hash \<Rightarrow> bytes \<Rightarrow> chain_entry" where
  "chain_entry_new b3 seq prev content =
     (let ch = b3 content in
      \<lparr> ce_sequence = seq, ce_prev_hash = prev, ce_content_hash = ch,
        ce_chain_hash = compute_chain_hash b3 seq prev ch \<rparr>)"

definition chain_entry_verify :: "(bytes \<Rightarrow> hash) \<Rightarrow> chain_entry \<Rightarrow> bool" where
  "chain_entry_verify b3 e \<longleftrightarrow>
     compute_chain_hash b3 (ce_sequence e) (ce_prev_hash e) (ce_content_hash e) = ce_chain_hash e"

text \<open>The two hashes of \<^verbatim>\<open>HashChainBroken\<close> are printed in hex by the code; here they are
  kept as hashes.\<close>

datatype crypto_error =
    EncryptionFailed string
  | DecryptionFailed
  | SignatureInvalid
  | InvalidKey string
  | HashChainBroken (broken_sequence: nat) (broken_expected: hash) (broken_actual: hash)
  | MerkleProofInvalid
  | PasswordHashFailed string
  | KdfFailed string
  | RngFailed

fun verify_chain_from :: "(bytes \<Rightarrow> hash) \<Rightarrow> hash \<Rightarrow> chain_entry list \<Rightarrow> crypto_error + unit" where
  "verify_chain_from b3 prev [] = Inr ()"
| "verify_chain_from b3 prev (e # es) =
     (if \<not> chain_entry_verify b3 e
      then Inl (HashChainBroken (ce_sequence e) prev (ce_chain_hash e))
      else if ce_prev_hash e \<noteq> prev
      then Inl (HashChainBroken (ce_sequence e) prev (ce_prev_hash e))
      else verify_chain_from b3 (ce_chain_hash e) es)"

definition verify_chain :: "(bytes \<Rightarrow> hash) \<Rightarrow> chain_entry list \<Rightarrow> crypto_error + unit" where
  "verify_chain b3 es = verify_chain_from b3 ZERO_HASH es"

lemma verify_chain_from_ok:
  "verify_chain_from b3 p es = Inr () \<longleftrightarrow>
     chain_ok (chain_entry_verify b3) ce_prev_hash ce_chain_hash p es"
  by (induction es arbitrary: p) auto

text \<open>Entries carry \<^verbatim>\<open>u64\<close> sequence numbers.\<close>

definition chain_entry_wf :: "chain_entry \<Rightarrow> bool" where
  "chain_entry_wf e \<longleftrightarrow> ce_sequence e < 2 ^ 64"

abbreviation chain_entry_ok :: "(bytes \<Rightarrow> hash) \<Rightarrow> chain_entry \<Rightarrow> bool" where
  "chain_entry_ok b3 e \<equiv> chain_entry_wf e \<and> chain_entry_verify b3 e"

definition chain_entry_msgs :: "chain_entry \<Rightarrow> bytes set" where
  "chain_entry_msgs e = {chain_msg (ce_sequence e) (ce_prev_hash e) (ce_content_hash e)}"

interpretation crypto_chain: hash_chain b3 "chain_entry_ok b3" ce_prev_hash ce_chain_hash
  chain_entry_msgs "(=)" for b3
proof unfold_locales
  fix e f
  assume e: "chain_entry_ok b3 e" and f: "chain_entry_ok b3 f"
    and tip: "ce_chain_hash e = ce_chain_hash f"
    and inj: "inj_on b3 (chain_entry_msgs e \<union> chain_entry_msgs f)"
  have "chain_msg (ce_sequence e) (ce_prev_hash e) (ce_content_hash e) =
        chain_msg (ce_sequence f) (ce_prev_hash f) (ce_content_hash f)"
    using e f tip
    by (intro inj_onD [OF inj])
      (simp_all add: chain_entry_msgs_def chain_entry_verify_def compute_chain_hash_def)
  with e f tip show "e = f \<and> ce_prev_hash e = ce_prev_hash f"
    by (cases e, cases f) (simp add: chain_entry_wf_def chain_msg_inject)
next
  fix e
  assume "chain_entry_ok b3 e"
  then show "ce_chain_hash e \<in> b3 ` chain_entry_msgs e"
    by (simp add: chain_entry_verify_def compute_chain_hash_def chain_entry_msgs_def)
qed

lemma chain_ok_wf:
  "chain_ok P prv tip p es \<Longrightarrow> (\<And>e. e \<in> set es \<Longrightarrow> Q e) \<Longrightarrow>
     chain_ok (\<lambda>e. Q e \<and> P e) prv tip p es"
  by (induction es arbitrary: p) auto

text \<open>A chain assembled with \<^verbatim>\<open>ChainEntry::new\<close>, one record after the other.\<close>

fun build_chain :: "(bytes \<Rightarrow> hash) \<Rightarrow> nat \<Rightarrow> hash \<Rightarrow> bytes list \<Rightarrow> chain_entry list" where
  "build_chain b3 seq prev [] = []"
| "build_chain b3 seq prev (c # cs) =
     (let e = chain_entry_new b3 seq prev c
      in e # build_chain b3 (fetch_add seq) (ce_chain_hash e) cs)"

lemma chain_entry_new_verify: "chain_entry_verify b3 (chain_entry_new b3 s p c)"
  by (simp add: chain_entry_verify_def chain_entry_new_def Let_def)

lemma chain_entry_new_prev [simp]: "ce_prev_hash (chain_entry_new b3 s p c) = p"
  by (simp add: chain_entry_new_def Let_def)

lemma build_chain_ok: "verify_chain_from b3 p (build_chain b3 s p cs) = Inr ()"
  by (induction cs arbitrary: s p) (auto simp: Let_def chain_entry_new_verify)

subsection \<open>Merkle trees\<close>

text \<open>\<^verbatim>\<open>next_layer\<close> pairs neighbours; an unpaired last node is paired with itself.\<close>

fun next_layer :: "(bytes \<Rightarrow> hash) \<Rightarrow> hash list \<Rightarrow> hash list" where
  "next_layer b3 [] = []"
| "next_layer b3 [x] = [hash_node b3 x x]"
| "next_layer b3 (x # y # xs) = hash_node b3 x y # next_layer b3 xs"

lemma length_next_layer [simp]: "length (next_layer b3 xs) = (length xs + 1) div 2"
  by (induction b3 xs rule: next_layer.induct) auto

function climb :: "(bytes \<Rightarrow> hash) \<Rightarrow> hash list \<Rightarrow> hash list" where
  "climb b3 layer = (if length layer > 1 then climb b3 (next_layer b3 layer) else layer)"
  by pat_completeness auto
termination
  by (relation "measure (\<lambda>(b3, layer). length layer)") auto

declare climb.simps [simp del]

lemma length_climb: "xs \<noteq> [] \<Longrightarrow> length (climb b3 xs) = 1"
proof (induction b3 xs rule: climb.induct)
  case (1 b3 xs)
  show ?case
  proof (cases "length xs > 1")
    case True
    then have "length (next_layer b3 xs) > 0" by simp
    then have "next_layer b3 xs \<noteq> []" by (metis length_greater_0_conv)
    with True 1 show ?thesis by (simp add: climb.simps [of b3 xs])
  next
    case False
    with "1.prems" have "length xs = 1"
      by (cases xs) auto
    then show ?thesis by (simp add: climb.simps [of b3 xs])
  qed
qed

definition merkle_root :: "(bytes \<Rightarrow> hash) \<Rightarrow> bytes list \<Rightarrow> hash" where
  "merkle_root b3 items =
     (if items = [] then ZERO_HASH
      else (case climb b3 (map (hash_leaf b3) items) of [] \<Rightarrow> ZERO_HASH | root # _ \<Rightarrow> root))"

record proof_step =
  sibling :: hash
  sibling_is_left :: bool

record merkle_proof_t =
  mp_leaf_index :: nat
  mp_leaf_hash :: hash
  mp_path :: "proof_step list"
  mp_root :: hash

definition proof_up :: "(bytes \<Rightarrow> hash) \<Rightarrow> hash \<Rightarrow> proof_step \<Rightarrow> hash" where
  "proof_up b3 cur s = (if sibling_is_left s then hash_node b3 (sibling s) cur
                        else hash_node b3 cur (sibling s))"

definition proof_fold :: "(bytes \<Rightarrow> hash) \<Rightarrow> hash \<Rightarrow> proof_step list \<Rightarrow> hash" where
  "proof_fold b3 = foldl (proof_up b3)"

lemma proof_fold_simps [simp]:
  "proof_fold b3 c [] = c"
  "proof_fold b3 c (s # ss) = proof_fold b3 (proof_up b3 c s) ss"
  by (simp_all add: proof_fold_def)

definition merkle_proof_verify :: "(bytes \<Rightarrow> hash) \<Rightarrow> merkle_proof_t \<Rightarrow> crypto_error + unit" where
  "merkle_proof_verify b3 p =
     (if proof_fold b3 (mp_leaf_hash p) (mp_path p) = mp_root p then Inr ()
      else Inl MerkleProofInvalid)"

definition sibling_index :: "nat \<Rightarrow> nat \<Rightarrow> nat" where
  "sibling_index len i = (if even i then min (i + 1) (len - 1) else i - 1)"

definition proof_step_at :: "hash list \<Rightarrow> nat \<Rightarrow> proof_step" where
  "proof_step_at layer i =
     (let s = sibling_index (length layer) i
      in \<lparr> sibling = layer ! s, sibling_is_left = s < i \<rparr>)"

function proof_path :: "(bytes \<Rightarrow> hash) \<Rightarrow> hash list \<Rightarrow> nat \<Rightarrow> proof_step list" where
  "proof_path b3 layer i =
     (if length layer > 1
      then proof_step_at layer i # proof_path b3 (next_layer b3 layer) (i div 2)
      else [])"
  by pat_completeness auto
termination
  by (relation "measure (\<lambda>(b3, layer, i). length layer)") auto

declare proof_path.simps [simp del]

definition merkle_proof :: "(bytes \<Rightarrow> hash) \<Rightarrow> bytes list \<Rightarrow> nat \<Rightarrow> merkle_proof_t option" where
  "merkle_proof b3 items i =
     (if items = [] \<or> i \<ge> length items then None
      else let layer = map (hash_leaf b3) items
           in Some \<lparr> mp_leaf_index = i, mp_leaf_hash = layer ! i,
                     mp_path = proof_path b3 layer i, mp_root = merkle_root b3 items \<rparr>)"

text \<open>One step of a proof moves from a node to its parent.\<close>

lemma next_layer_nth:
  assumes "i < length xs"
  shows "next_layer b3 xs ! (i div 2) =
     (if odd i then hash_node b3 (xs ! (i - 1)) (xs ! i)
      else hash_node b3 (xs ! i) (xs ! min (i + 1) (length xs - 1)))"
  using assms
proof (induction b3 xs arbitrary: i rule: next_layer.induct)
  case (3 b3 x y xs)
  consider "i = 0" | "i = 1" | j where "i = Suc (Suc j)"
    by (metis One_nat_def not0_implies_Suc)
  then show ?case
  proof cases
    case (3 j)
    with "3.prems" "3.IH" [of j] show ?thesis
      by (auto simp: min_def nth_Cons' elim: oddE)
  qed auto
qed auto

lemma proof_step_at_fold:
  assumes "i < length xs" "length xs > 1"
  shows "proof_up b3 (xs ! i) (proof_step_at xs i) = next_layer b3 xs ! (i div 2)"
  using assms
  by (auto simp: proof_up_def proof_step_at_def sibling_index_def Let_def next_layer_nth
      elim: oddE)

lemma proof_path_fold:
  "i < length xs \<Longrightarrow> proof_fold b3 (xs ! i) (proof_path b3 xs i) = hd (climb b3 xs)"
proof (induction b3 xs i rule: proof_path.induct)
  case (1 b3 xs i)
  show ?case
  proof (cases "length xs > 1")
    case True
    have "i div 2 < length (next_layer b3 xs)"
      using "1.prems" by simp
    with "1.IH" [OF True] True "1.prems" show ?thesis
      by (simp add: proof_path.simps [of b3 xs i] climb.simps [of b3 xs]
          proof_step_at_fold)
  next
    case False
    with "1.prems" obtain x where "xs = [x]" and "i = 0"
      by (cases xs) auto
    then show ?thesis
      by (simp add: proof_path.simps [of b3 "[x]" 0] climb.simps [of b3 "[x]"])
  qed
qed

lemma merkle_root_hd:
  "items \<noteq> [] \<Longrightarrow> merkle_root b3 items = hd (climb b3 (map (hash_leaf b3) items))"
  using length_climb [of "map (hash_leaf b3) items" b3]
  by (auto simp: merkle_root_def split: list.splits)

text \<open>The node messages hashed while a proof is folded.\<close>

definition step_msg :: "hash \<Rightarrow> proof_step \<Rightarrow> bytes" where
  "step_msg c s = (if sibling_is_left s then [0x01] @ hash_raw (sibling s) @ hash_raw c
                   else [0x01] @ hash_raw c @ hash_raw (sibling s))"

lemma proof_up_msg: "proof_up b3 c s = b3 (step_msg c s)"
  by (simp add: proof_up_def step_msg_def hash_node_def)

lemma step_msg_inject:
  "sibling_is_left s = sibling_is_left t \<Longrightarrow>
     step_msg c s = step_msg d t \<longleftrightarrow> c = d \<and> sibling s = sibling t"
  by (auto simp: step_msg_def)

fun proof_msgs :: "(bytes \<Rightarrow> hash) \<Rightarrow> hash \<Rightarrow> proof_step list \<Rightarrow> bytes set" where
  "proof_msgs b3 c [] = {}"
| "proof_msgs b3 c (s # ss) = insert (step_msg c s)
       (proof_msgs b3 (proof_up b3 c s) ss)"

lemma proof_fold_binding:
  assumes "proof_fold b3 c ss = proof_fold b3 d ts"
    and "map sibling_is_left ss = map sibling_is_left ts"
    and "inj_on b3 (proof_msgs b3 c ss \<union> proof_msgs b3 d ts)"
  shows "c = d \<and> map sibling ss = map sibling ts"
  using assms
proof (induction ss arbitrary: ts c d)
  case Nil
  then show ?case by simp
next
  case (Cons s ss)
  then obtain t ts' where ts: "ts = t # ts'" and dir: "sibling_is_left s = sibling_is_left t"
    and dirs: "map sibling_is_left ss = map sibling_is_left ts'" by auto
  have "proof_fold b3 (proof_up b3 c s) ss = proof_fold b3 (proof_up b3 d t) ts'"
    using Cons.prems(1) ts by simp
  moreover have "inj_on b3 (proof_msgs b3 (proof_up b3 c s) ss \<union>
      proof_msgs b3 (proof_up b3 d t) ts')"
    by (rule inj_on_subset [OF Cons.prems(3)]) (auto simp: ts)
  ultimately have IH: "proof_up b3 c s = proof_up b3 d t"
    "map sibling ss = map sibling ts'"
    using Cons.IH [OF _ dirs] by auto
  from IH(1) have "step_msg c s = step_msg d t"
    unfolding proof_up_msg by (rule inj_onD [OF Cons.prems(3)]) (auto simp: ts)
  with dir have "c = d" "sibling s = sibling t" by (simp_all add: step_msg_inject)
  with IH(2) ts show ?case by simp
qed

text \<open>A repeated last node is what \<open>next_layer\<close> would have supplied itself.\<close>

lemma next_layer_dup:
  "even (length xs) \<Longrightarrow> next_layer b3 (xs @ [x, x]) = next_layer b3 (xs @ [x])"
  by (induction b3 xs rule: next_layer.induct) auto

lemma merkle_proof_SomeD:
  assumes "merkle_proof b3 items i = Some p"
  shows "i < length items" and "mp_leaf_hash p = hash_leaf b3 (items ! i)"
    and "proof_fold b3 (mp_leaf_hash p) (mp_path p) = merkle_root b3 items"
    and "mp_root p = merkle_root b3 items"
proof -
  from assms have i: "i < length items" and ne: "items \<noteq> []"
    and p: "p = \<lparr> mp_leaf_index = i, mp_leaf_hash = map (hash_leaf b3) items ! i,
        mp_path = proof_path b3 (map (hash_leaf b3) items) i, mp_root = merkle_root b3 items \<rparr>"
    by (auto simp: merkle_proof_def Let_def split: if_splits)
  show "i < length items" by (rule i)
  show "mp_leaf_hash p = hash_leaf b3 (items ! i)" "mp_root p = merkle_root b3 items"
    using i by (simp_all add: p)
  show "proof_fold b3 (mp_leaf_hash p) (mp_path p) = merkle_root b3 items"
    using proof_path_fold [of i "map (hash_leaf b3) items" b3] i ne
    by (simp add: p merkle_root_hd del: nth_map)
qed

subsection \<open>Properties\<close>

text \<open>
  C36: \<^verbatim>\<open>merkle_proof\<close> returns a proof exactly for the positions in range.  The proof is about
  that position and the hash of that very item, it is anchored in the root of the tree, and
  \<^verbatim>\<open>MerkleProof::verify\<close> accepts it; out of range, and for the empty list, there is none.
\<close>

theorem merkle_proof_complete:
  "case merkle_proof b3 items i of
     None \<Rightarrow> length items \<le> i
   | Some p \<Rightarrow> i < length items \<and> mp_leaf_index p = i \<and> mp_leaf_hash p = hash_leaf b3 (items ! i) \<and>
       mp_root p = merkle_root b3 items \<and> merkle_proof_verify b3 p = Inr ()"
proof (cases "merkle_proof b3 items i")
  case None
  then show ?thesis by (auto simp: merkle_proof_def Let_def split: if_splits)
next
  case (Some p)
  then have "i < length items" "mp_leaf_index p = i" by (auto simp: merkle_proof_def Let_def split: if_splits)
  with Some merkle_proof_SomeD [OF Some] show ?thesis by (simp add: merkle_proof_verify_def)
qed

text \<open>
  C37: a proof binds the data.  If a client holds a proof that verifies against the root of
  the stored items and turns at each level the way the proof of position \<open>i\<close> does, then
  the data it proves is item \<open>i\<close>, unless BLAKE3 collides on one of the messages hashed
  by the two proofs.
\<close>

theorem merkle_proof_binds:
  assumes "merkle_proof b3 items i = Some p"
    and "merkle_proof_verify b3 q = Inr ()" and "mp_root q = merkle_root b3 items"
    and "mp_leaf_hash q = hash_leaf b3 data"
    and "map sibling_is_left (mp_path q) = map sibling_is_left (mp_path p)"
    and inj: "inj_on b3 (proof_msgs b3 (mp_leaf_hash p) (mp_path p) \<union>
        proof_msgs b3 (mp_leaf_hash q) (mp_path q) \<union> {[0x00] @ items ! i, [0x00] @ data})"
  shows "data = items ! i"
proof -
  note p = merkle_proof_SomeD [OF assms(1)]
  have "proof_fold b3 (mp_leaf_hash q) (mp_path q) = merkle_root b3 items"
    using assms(2,3) by (auto simp: merkle_proof_verify_def split: if_splits)
  with p(3) have fold: "proof_fold b3 (mp_leaf_hash q) (mp_path q) =
      proof_fold b3 (mp_leaf_hash p) (mp_path p)" by simp
  have "inj_on b3 (proof_msgs b3 (mp_leaf_hash q) (mp_path q) \<union>
      proof_msgs b3 (mp_leaf_hash p) (mp_path p))"
    by (rule inj_on_subset [OF inj]) blast
  from proof_fold_binding [OF fold assms(5) this]
  have "mp_leaf_hash q = mp_leaf_hash p" by simp
  with p(2) assms(4) have "b3 ([0x00] @ data) = b3 ([0x00] @ items ! i)"
    by (simp add: hash_leaf_def)
  then have "[0x00] @ data = [0x00] @ items ! i"
    by (rule inj_onD [OF inj]) auto
  then show ?thesis by simp
qed

theorem merkle_proof_binds_witness:
  "\<exists>p. merkle_proof (\<lambda>bs. of_nat (length bs)) [[7], [9]] 1 = Some p \<and>
     merkle_proof_verify (\<lambda>bs. of_nat (length bs)) p = Inr () \<and>
     [9 :: byte] = [[7], [9]] ! 1"
proof -
  let ?b = "\<lambda>bs. of_nat (length bs) :: hash"
  have p: "merkle_proof ?b [[7], [9]] 1 = Some \<lparr> mp_leaf_index = 1, mp_leaf_hash = 2,
      mp_path = [\<lparr> sibling = 2, sibling_is_left = True \<rparr>], mp_root = 65 \<rparr>" (is "_ = Some ?p")
    by (simp add: merkle_proof_def merkle_root_def hash_leaf_def proof_path.simps climb.simps
        proof_step_at_def sibling_index_def hash_node_def Let_def)
  have v: "merkle_proof_verify ?b ?p = Inr ()"
    by (simp add: merkle_proof_verify_def proof_up_def hash_node_def)
  have root: "mp_root ?p = merkle_root ?b [[7], [9]]"
    by (rule merkle_proof_SomeD(4) [OF p])
  have leaf: "mp_leaf_hash ?p = hash_leaf ?b [9]" by (simp add: hash_leaf_def)
  have "inj_on ?b (proof_msgs ?b (mp_leaf_hash ?p) (mp_path ?p) \<union>
      proof_msgs ?b (mp_leaf_hash ?p) (mp_path ?p) \<union> {[0x00] @ [[7], [9]] ! 1, [0x00] @ [9]})"
    by (simp add: step_msg_def)
  from merkle_proof_binds [OF p v root leaf refl this]
  have "[9 :: byte] = [[7], [9]] ! 1" .
  with p v show ?thesis by (intro exI [of _ ?p] conjI)
qed

text \<open>
  C38: the root does not commit to the number of items.  When the number of items is odd and
  at least three, appending a copy of the last item leaves the root unchanged, for every hash
  function: domain separation between leaves and nodes does not rule this second preimage out.
\<close>

theorem merkle_root_duplicate_last:
  assumes "even (length items)" and "items \<noteq> []"
  shows "merkle_root b3 (items @ [x, x]) = merkle_root b3 (items @ [x])"
proof -
  let ?l = "map (hash_leaf b3)"
  have "climb b3 (?l (items @ [x, x])) = climb b3 (next_layer b3 (?l (items @ [x, x])))"
    using climb.simps [of b3 "?l (items @ [x, x])"] by simp
  also have "next_layer b3 (?l (items @ [x, x])) = next_layer b3 (?l (items @ [x]))"
    using next_layer_dup [of "?l items" b3 "hash_leaf b3 x"] assms by simp
  also have "climb b3 (next_layer b3 (?l (items @ [x]))) = climb b3 (?l (items @ [x]))"
    using climb.simps [of b3 "?l (items @ [x])"] assms(2) by simp
  finally show ?thesis by (simp add: merkle_root_hd)
qed

theorem merkle_root_duplicate_last_witness:
  "\<forall>b3. merkle_root b3 ([[1], [2]] @ [[3], [3]]) = merkle_root b3 ([[1], [2]] @ [[3]])"
  using merkle_root_duplicate_last [of "[[1], [2]]" _ "[3]"] by simp

text \<open>
  C35: two chains of \<^verbatim>\<open>u64\<close> records that \<^verbatim>\<open>verify_chain\<close> accepts and that end in the same
  chain hash are equal record by record, unless BLAKE3 collides on a message of one of them or hits the zero hash.
\<close>

theorem verify_chain_tamper_evident:
  assumes "verify_chain b3 es = Inr ()" and "verify_chain b3 fs = Inr ()"
    and wf: "\<forall>e \<in> set es \<union> set fs. chain_entry_wf e"
    and tip: "chain_end ce_chain_hash ZERO_HASH es = chain_end ce_chain_hash ZERO_HASH fs"
    and inj: "inj_on b3 (\<Union>(chain_entry_msgs ` (set es \<union> set fs)))"
    and zero: "ZERO_HASH \<notin> b3 ` \<Union>(chain_entry_msgs ` (set es \<union> set fs))"
  shows "es = fs"
proof -
  have "chain_ok (chain_entry_ok b3) ce_prev_hash ce_chain_hash ZERO_HASH es"
    "chain_ok (chain_entry_ok b3) ce_prev_hash ce_chain_hash ZERO_HASH fs"
    using assms(1-3) by (auto simp: verify_chain_def verify_chain_from_ok intro!: chain_ok_wf)
  from crypto_chain.chains_agree [OF this tip inj zero]
  show ?thesis by (simp add: list.rel_eq)
qed

theorem verify_chain_tamper_evident_witness:
  "\<exists>es fs. length es = 2 \<and> verify_chain (\<lambda>bs. of_nat (1 + of_le (take 8 bs))) es = Inr () \<and>
     verify_chain (\<lambda>bs. of_nat (1 + of_le (take 8 bs))) fs = Inr () \<and> es = fs"
proof -
  let ?b = "\<lambda>bs. of_nat (1 + of_le (take 8 bs)) :: hash"
  let ?es = "build_chain ?b 1 ZERO_HASH [[5], [6]]"
  have es: "?es = [\<lparr> ce_sequence = 1, ce_prev_hash = 0, ce_content_hash = 6, ce_chain_hash = 2 \<rparr>,
      \<lparr> ce_sequence = 2, ce_prev_hash = 2, ce_content_hash = 7, ce_chain_hash = 3 \<rparr>]"
    by (simp add: chain_entry_new_def Let_def compute_chain_hash_def chain_msg_def ZERO_HASH_def
        of_le_le_bytes_small fetch_add_def)
  have ok: "verify_chain ?b ?es = Inr ()"
    unfolding verify_chain_def by (rule build_chain_ok)
  have wf: "\<forall>e \<in> set ?es \<union> set ?es. chain_entry_wf e"
    unfolding es by (simp add: chain_entry_wf_def)
  have msgs: "\<Union>(chain_entry_msgs ` (set ?es \<union> set ?es)) = {chain_msg 1 0 6, chain_msg 2 2 7}"
    unfolding es by (auto simp: chain_entry_msgs_def)
  have inj: "inj_on ?b (\<Union>(chain_entry_msgs ` (set ?es \<union> set ?es)))"
    unfolding msgs by (simp add: chain_msg_def of_le_le_bytes_small)
  have zero: "ZERO_HASH \<notin> ?b ` \<Union>(chain_entry_msgs ` (set ?es \<union> set ?es))"
    unfolding msgs by (simp add: chain_msg_def of_le_le_bytes_small ZERO_HASH_def)
  have "?es = ?es"
    by (rule verify_chain_tamper_evident [OF ok ok wf refl inj zero])
  moreover have "length ?es = 2" unfolding es by simp
  ultimately show ?thesis
    using ok by (intro exI [of _ ?es] conjI) (assumption | rule refl)+
qed

end
