(* ===== verification/Wal_Record.thy ===== *)
theory Wal_Record
  imports Crypto
begin

text \<open>
  \<^verbatim>\<open>crates/vledger-wal\<close>, the record format (\<^verbatim>\<open>record.rs\<close>, \<^verbatim>\<open>error.rs\<close>,
  \<^verbatim>\<open>encrypt.rs\<close>): record types, headers and payloads, the bytes a record has on disk, and
  the AES-GCM envelope.

  The functions the crate takes from elsewhere (CRC-32, bincode, AES-GCM, HKDF, BLAKE3,
  Ed25519) are the fields of \<open>ext\<close>, an argument of every definition below that uses one.
  What the code relies on is \<open>ext_ok\<close>: bincode decodes what it encoded, its fixed-width
  little-endian layout puts the first field first and makes the header 34 bytes long,
  AES-GCM decrypts what it encrypted, and a signature verifies under its own public key.
\<close>

subsection \<open>Record types and payloads\<close>

type_synonym u64 = "64 word"

datatype record_type = Begin | Data | Commit | Rollback | Checkpoint | Schema | SegmentHeader

fun record_type_byte :: "record_type \<Rightarrow> byte" where
  "record_type_byte Begin = 0x01"
| "record_type_byte Data = 0x02"
| "record_type_byte Commit = 0x03"
| "record_type_byte Rollback = 0x04"
| "record_type_byte Checkpoint = 0x05"
| "record_type_byte Schema = 0x06"
| "record_type_byte SegmentHeader = 0x07"

datatype wal_error =
    WalIo
  | ChecksumMismatch u32 u32
  | BadMagic
  | UnsupportedVersion byte
  | TruncatedRecord (trunc_offset: nat) (trunc_needed: nat) (trunc_available: nat)
  | UnknownRecordType byte
  | WalSerialization string
  | SegmentFull nat
  | SegmentSealed
  | RecoveryFailed string
  | TransactionNotFound u64
  | WalEncryption
  | WalDecryption
  | WalSignatureInvalid u64

definition record_type_of :: "byte \<Rightarrow> wal_error + record_type" where
  "record_type_of v =
     (if v = 0x01 then Inr Begin
      else if v = 0x02 then Inr Data
      else if v = 0x03 then Inr Commit
      else if v = 0x04 then Inr Rollback
      else if v = 0x05 then Inr Checkpoint
      else if v = 0x06 then Inr Schema
      else if v = 0x07 then Inr SegmentHeader
      else Inl (UnknownRecordType v))"

lemma record_type_of_byte [simp, codec_simps]: "record_type_of (record_type_byte t) = Inr t"
  by (cases t) (simp_all add: record_type_of_def)

record record_header =
  rh_magic :: u32
  rh_version :: byte
  rh_record_type :: byte
  rh_tx_id :: u64
  rh_sequence :: u64
  rh_timestamp_ns :: u64
  rh_payload_len :: u32

record wal_record =
  wr_header :: record_header
  wr_payload :: bytes
  wr_crc32 :: u32

datatype mutation_kind = Insert | Update | Delete

record data_payload =
  dp_table_id :: u32
  dp_page_id :: u64
  dp_slot_id :: u16
  dp_mutation :: mutation_kind
  dp_row_data :: bytes
  dp_row_hash :: hash
  dp_prev_hash :: "hash option"

record commit_payload =
  cp_record_count :: u32
  cp_tx_hash :: hash
  cp_signature :: bytes
  cp_signer_pubkey :: bytes

record checkpoint_payload =
  ck_last_committed_sequence :: u64
  ck_page_merkle_root :: hash
  ck_root_signature :: bytes
  ck_signer_pubkey :: bytes

definition WAL_MAGIC :: u32 where "WAL_MAGIC = 0x56474442"
definition WAL_VERSION :: byte where "WAL_VERSION = 1"
definition ENCRYPTED_MAGIC :: u32 where "ENCRYPTED_MAGIC = 0x45574C52"
definition DEFAULT_SEGMENT_SIZE :: nat where "DEFAULT_SEGMENT_SIZE = 64 * 1024 * 1024"
definition MAX_RECORD_PAYLOAD :: nat where "MAX_RECORD_PAYLOAD = 64 * 1024 * 1024"
definition HEADER_SIZE :: nat where "HEADER_SIZE = 34"
definition ENC_HEADER_SIZE :: nat where "ENC_HEADER_SIZE = 4 + 12 + 4"

lemma magic_differ [simp]: "WAL_MAGIC \<noteq> ENCRYPTED_MAGIC" "ENCRYPTED_MAGIC \<noteq> WAL_MAGIC"
  by (simp_all add: WAL_MAGIC_def ENCRYPTED_MAGIC_def)

text \<open>\<^verbatim>\<open>u32::to_le_bytes\<close> and \<^verbatim>\<open>u32::from_le_bytes\<close>.\<close>

definition u32_le :: "u32 \<Rightarrow> bytes" where
  "u32_le x = le_bytes 4 (unat x)"

definition u32_of_le :: "bytes \<Rightarrow> u32" where
  "u32_of_le bs = of_nat (of_le bs)"

lemma unat_u32: "n < 2 ^ 32 \<Longrightarrow> unat (of_nat n :: u32) = n"
  by (simp add: unat_of_nat take_bit_nat_eq_self)

lemma length_u32_le [simp, codec_simps]: "length (u32_le x) = 4"
  by (simp add: u32_le_def)

lemma u32_of_le_u32_le [simp, codec_simps]: "u32_of_le (u32_le x) = x"
proof -
  have "unat x < 256 ^ 4"
    using unsigned_less [of x] by simp
  then show ?thesis
    by (simp add: u32_of_le_def u32_le_def of_le_le_bytes_small)
qed

subsection \<open>External functions\<close>

record ext =
  blake3 :: "bytes \<Rightarrow> hash"
  crc32 :: "bytes \<Rightarrow> u32"
  enc_header :: "record_header \<Rightarrow> bytes"
  dec_header :: "bytes \<Rightarrow> string + record_header"
  enc_begin :: "string option \<Rightarrow> bytes"
  enc_data :: "data_payload \<Rightarrow> bytes"
  dec_data :: "bytes \<Rightarrow> string + data_payload"
  enc_commit :: "commit_payload \<Rightarrow> bytes"
  dec_commit :: "bytes \<Rightarrow> string + commit_payload"
  enc_checkpoint :: "checkpoint_payload \<Rightarrow> bytes"
  hkdf :: "bytes \<Rightarrow> nat \<Rightarrow> bytes"
  aes_encrypt :: "bytes \<Rightarrow> bytes \<Rightarrow> bytes \<Rightarrow> bytes \<Rightarrow> bytes"
  aes_decrypt :: "bytes \<Rightarrow> bytes \<Rightarrow> bytes \<Rightarrow> bytes \<Rightarrow> bytes option"
  ed_sign :: "bytes \<Rightarrow> bytes \<Rightarrow> bytes"
  ed_public :: "bytes \<Rightarrow> bytes"
  ed_valid_key :: "bytes \<Rightarrow> bool"
  ed_verify :: "bytes \<Rightarrow> bytes \<Rightarrow> bytes \<Rightarrow> bool"

text \<open>
  \<open>aes_encrypt key nonce aad msg\<close> and \<open>ed_verify pubkey msg sig\<close>; \<open>hkdf master i\<close> expands
  with the context string of segment \<open>i\<close>.
\<close>

definition bincode_ok :: "ext \<Rightarrow> bool" where
  "bincode_ok X \<longleftrightarrow>
     (\<forall>h. length (enc_header X h) = HEADER_SIZE) \<and>
     (\<forall>h. take 4 (enc_header X h) = u32_le (rh_magic h)) \<and>
     (\<forall>h. dec_header X (enc_header X h) = Inr h) \<and>
     (\<forall>d. take 4 (enc_data X d) = u32_le (dp_table_id d)) \<and>
     (\<forall>d. dec_data X (enc_data X d) = Inr d) \<and>
     (\<forall>c. dec_commit X (enc_commit X c) = Inr c)"

definition aes_ok :: "ext \<Rightarrow> bool" where
  "aes_ok X \<longleftrightarrow>
     (\<forall>k n a m. aes_decrypt X k n a (aes_encrypt X k n a m) = Some m) \<and>
     (\<forall>k n a m. length (aes_encrypt X k n a m) = length m + 16)"

definition ed_ok :: "ext \<Rightarrow> bool" where
  "ed_ok X \<longleftrightarrow>
     (\<forall>k m. ed_verify X (ed_public X k) m (ed_sign X k m)) \<and>
     (\<forall>k. ed_valid_key X (ed_public X k)) \<and>
     (\<forall>k. length (ed_public X k) = 32) \<and> (\<forall>k m. length (ed_sign X k m) = 64)"

definition ext_ok :: "ext \<Rightarrow> bool" where
  "ext_ok X \<longleftrightarrow> bincode_ok X \<and> aes_ok X \<and> ed_ok X"

lemma ext_okD [codec_simps]:
  assumes "ext_ok X"
  shows "length (enc_header X h) = HEADER_SIZE"
    and "take 4 (enc_header X h) = u32_le (rh_magic h)"
    and "dec_header X (enc_header X h) = Inr h"
    and "take 4 (enc_data X d) = u32_le (dp_table_id d)"
    and "dec_data X (enc_data X d) = Inr d"
    and "dec_commit X (enc_commit X c) = Inr c"
    and "aes_decrypt X k n a (aes_encrypt X k n a m) = Some m"
    and "length (aes_encrypt X k n a m) = length m + 16"
    and "ed_verify X (ed_public X k) m (ed_sign X k m)"
    and "ed_valid_key X (ed_public X k)"
    and "length (ed_public X k) = 32" and "length (ed_sign X k m) = 64"
  using assms by (simp_all add: ext_ok_def bincode_ok_def aes_ok_def ed_ok_def)

end
