(* ===== verification/Wal_Sample.thy ===== *)
theory Wal_Sample
  imports Wal_Record
begin

text \<open>
  A concrete choice of the external functions that satisfies \<open>ext_ok\<close>: fixed-width
  little-endian fields for the bincode codecs, the identity with a 16-byte tag for
  AES-GCM, and constant keys and signatures.  It shows that the hypotheses on the external
  functions can hold together, and the witnesses evaluate on it.
\<close>

definition u64_le :: "u64 \<Rightarrow> bytes" where "u64_le x = le_bytes 8 (unat x)"
definition u64_of_le :: "bytes \<Rightarrow> u64" where "u64_of_le bs = of_nat (of_le bs)"
definition u16_le :: "u16 \<Rightarrow> bytes" where "u16_le x = le_bytes 2 (unat x)"
definition u16_of_le :: "bytes \<Rightarrow> u16" where "u16_of_le bs = of_nat (of_le bs)"
definition hash_of_raw :: "bytes \<Rightarrow> hash" where "hash_of_raw bs = of_nat (of_le bs)"

lemma sample_codec [simp]:
  "length (u64_le x) = 8" "length (u16_le y) = 2"
  "u64_of_le (u64_le x) = x" "u16_of_le (u16_le y) = y" "hash_of_raw (hash_raw h) = h"
proof -
  have "unat x < 256 ^ 8" "unat y < 256 ^ 2" "unat h < 256 ^ 32"
    using unsigned_less [of x] unsigned_less [of y] unsigned_less [of h] by simp_all
  then show "u64_of_le (u64_le x) = x" "u16_of_le (u16_le y) = y" "hash_of_raw (hash_raw h) = h"
    by (simp_all add: u64_of_le_def u64_le_def u16_of_le_def u16_le_def hash_of_raw_def
        hash_raw_def of_le_le_bytes_small)
qed (simp_all add: u64_le_def u16_le_def)

definition s_enc_header :: "record_header \<Rightarrow> bytes" where
  "s_enc_header h = u32_le (rh_magic h) @ [rh_version h] @ [rh_record_type h] @
     u64_le (rh_tx_id h) @ u64_le (rh_sequence h) @ u64_le (rh_timestamp_ns h) @
     u32_le (rh_payload_len h)"

definition s_dec_header :: "bytes \<Rightarrow> string + record_header" where
  "s_dec_header bs = (if length bs < 34 then Inl ''unexpected end'' else Inr
     \<lparr> rh_magic = u32_of_le (take 4 bs), rh_version = bs ! 4, rh_record_type = bs ! 5,
       rh_tx_id = u64_of_le (take 8 (drop 6 bs)), rh_sequence = u64_of_le (take 8 (drop 14 bs)),
       rh_timestamp_ns = u64_of_le (take 8 (drop 22 bs)),
       rh_payload_len = u32_of_le (take 4 (drop 30 bs)) \<rparr>)"

lemma s_header [simp]: "length (s_enc_header h) = 34" "take 4 (s_enc_header h) = u32_le (rh_magic h)"
  "s_dec_header (s_enc_header h) = Inr h"
proof -
  show len: "length (s_enc_header h) = 34" by (simp add: s_enc_header_def)
  show "take 4 (s_enc_header h) = u32_le (rh_magic h)" by (simp add: s_enc_header_def)
  show "s_dec_header (s_enc_header h) = Inr h"
    by (simp add: s_dec_header_def len) (simp add: s_enc_header_def nth_append)
qed

fun kind_byte :: "mutation_kind \<Rightarrow> byte" where
  "kind_byte Insert = 0"
| "kind_byte Update = 1"
| "kind_byte Delete = 2"

definition kind_of :: "byte \<Rightarrow> mutation_kind" where
  "kind_of b = (if b = 0 then Insert else if b = 1 then Update else Delete)"

lemma kind_of_byte [simp]: "kind_of (kind_byte k) = k"
  by (cases k) (simp_all add: kind_of_def)

fun opt_hash_bytes :: "hash option \<Rightarrow> bytes" where
  "opt_hash_bytes None = 0 # replicate 32 0"
| "opt_hash_bytes (Some h) = 1 # hash_raw h"

lemma length_opt_hash_bytes [simp]: "length (opt_hash_bytes h) = 33"
  by (cases h) simp_all

definition opt_hash_of :: "bytes \<Rightarrow> hash option" where
  "opt_hash_of bs = (if hd bs = 0 then None else Some (hash_of_raw (tl bs)))"

lemma opt_hash_of_bytes [simp]: "opt_hash_of (opt_hash_bytes h) = h"
  by (cases h) (simp_all add: opt_hash_of_def)

definition s_enc_data :: "data_payload \<Rightarrow> bytes" where
  "s_enc_data d = u32_le (dp_table_id d) @ u64_le (dp_page_id d) @ u16_le (dp_slot_id d) @
     [kind_byte (dp_mutation d)] @ hash_raw (dp_row_hash d) @ opt_hash_bytes (dp_prev_hash d) @
     dp_row_data d"

definition s_dec_data :: "bytes \<Rightarrow> string + data_payload" where
  "s_dec_data bs = (if length bs < 80 then Inl ''unexpected end'' else Inr
     \<lparr> dp_table_id = u32_of_le (take 4 bs), dp_page_id = u64_of_le (take 8 (drop 4 bs)),
       dp_slot_id = u16_of_le (take 2 (drop 12 bs)), dp_mutation = kind_of (bs ! 14),
       dp_row_data = drop 80 bs, dp_row_hash = hash_of_raw (take 32 (drop 15 bs)),
       dp_prev_hash = opt_hash_of (take 33 (drop 47 bs)) \<rparr>)"

lemma s_data [simp]: "take 4 (s_enc_data d) = u32_le (dp_table_id d)"
  "s_dec_data (s_enc_data d) = Inr d"
proof -
  have len: "length (s_enc_data d) \<ge> 80" by (simp add: s_enc_data_def)
  show "take 4 (s_enc_data d) = u32_le (dp_table_id d)" by (simp add: s_enc_data_def)
  show "s_dec_data (s_enc_data d) = Inr d"
    using len by (simp add: s_dec_data_def not_less) (simp add: s_enc_data_def nth_append)
qed

definition s_enc_commit :: "commit_payload \<Rightarrow> bytes" where
  "s_enc_commit c = u32_le (cp_record_count c) @ hash_raw (cp_tx_hash c) @
     replicate (length (cp_signature c)) 1 @ [0] @ cp_signature c @ cp_signer_pubkey c"

definition s_dec_commit :: "bytes \<Rightarrow> string + commit_payload" where
  "s_dec_commit bs = (if length bs < 37 then Inl ''unexpected end'' else
     let rest = drop 36 bs; n = length (takeWhile (\<lambda>b. b = 1) rest) in Inr
     \<lparr> cp_record_count = u32_of_le (take 4 bs), cp_tx_hash = hash_of_raw (take 32 (drop 4 bs)),
       cp_signature = take n (drop (n + 1) rest), cp_signer_pubkey = drop (2 * n + 1) rest \<rparr>)"

lemma takeWhile_ones: "takeWhile (\<lambda>b. b = 1) (replicate n (1 :: byte) @ 0 # xs) = replicate n 1"
  by (induction n) auto

lemma s_commit [simp]: "s_dec_commit (s_enc_commit c) = Inr c"
proof -
  let ?n = "length (cp_signature c)"
  let ?rest = "replicate ?n 1 @ 0 # cp_signature c @ cp_signer_pubkey c"
  have rest: "drop 36 (s_enc_commit c) = ?rest" and len: "length (s_enc_commit c) \<ge> 37"
    by (simp_all add: s_enc_commit_def)
  have n: "length (takeWhile (\<lambda>b. b = 1) ?rest) = ?n"
    by (simp add: takeWhile_ones)
  have sig: "take ?n (drop (?n + 1) ?rest) = cp_signature c"
    by simp
  have pk: "drop (2 * ?n + 1) ?rest = cp_signer_pubkey c"
    by simp
  have hd: "u32_of_le (take 4 (s_enc_commit c)) = cp_record_count c"
    "hash_of_raw (take 32 (drop 4 (s_enc_commit c))) = cp_tx_hash c"
    by (simp_all add: s_enc_commit_def)
  show ?thesis
    using len unfolding s_dec_commit_def Let_def rest n sig pk hd by simp
qed

definition sample_ext :: ext where
  "sample_ext = \<lparr> blake3 = (\<lambda>bs. of_nat (1 + of_le bs)), crc32 = (\<lambda>bs. of_nat (length bs)),
     enc_header = s_enc_header, dec_header = s_dec_header,
     enc_begin = (\<lambda>d. case d of None \<Rightarrow> [0] | Some s \<Rightarrow> 1 # str_bytes s),
     enc_data = s_enc_data, dec_data = s_dec_data,
     enc_commit = s_enc_commit, dec_commit = s_dec_commit,
     enc_checkpoint = (\<lambda>c. u64_le (ck_last_committed_sequence c)),
     hkdf = (\<lambda>k i. k), aes_encrypt = (\<lambda>k n a m. m @ replicate 16 0),
     aes_decrypt = (\<lambda>k n a c. Some (take (length c - 16) c)),
     ed_sign = (\<lambda>k m. replicate 64 1), ed_public = (\<lambda>k. replicate 32 1),
     ed_valid_key = (\<lambda>k. True), ed_verify = (\<lambda>k m s. True) \<rparr>"

lemma sample_ext_ok: "ext_ok sample_ext"
  by (simp add: ext_ok_def bincode_ok_def aes_ok_def ed_ok_def sample_ext_def HEADER_SIZE_def)

end
