(* ===== verification/Wal_Disk.thy ===== *)
theory Wal_Disk
  imports Wal_Sample
begin

text \<open>
  The disk under the write-ahead log and \<^verbatim>\<open>segment.rs\<close>.

  A directory of segment files is an association list from segment index to file.  A file
  has its bytes and the number of leading bytes that the last successful \<^verbatim>\<open>sync_all\<close> made
  durable.  The environment decides which I/O calls fail: \<open>os_faults\<close> is the list of
  outcomes of the calls to come (all calls after the list succeed), and a failing
  \<^verbatim>\<open>write_all\<close> leaves any proper prefix of its buffer in the file.  The clock and the random
  generator are read at increasing ticks.

  The index of a segment, its file name and its position in the directory are the same
  number here; \<^verbatim>\<open>segment_filename\<close> pads it to 20 digits and \<^verbatim>\<open>parse_segment_index\<close>
  reads it back.
\<close>

subsection \<open>Files and I/O\<close>

record wal_file =
  f_data :: bytes
  f_synced :: nat

datatype io_outcome = IoOk | IoErr nat

record os =
  os_files :: "(nat \<times> wal_file) list"
  os_faults :: "io_outcome list"
  os_clock :: "nat \<Rightarrow> u64"
  os_rng :: "nat \<Rightarrow> bytes"
  os_tick :: nat

definition io_call :: "os \<Rightarrow> os \<times> io_outcome" where
  "io_call d = (case os_faults d of
       [] \<Rightarrow> (d, IoOk)
     | f # fs \<Rightarrow> (d\<lparr>os_faults := fs\<rparr>, f))"

definition on_file :: "nat \<Rightarrow> (wal_file \<Rightarrow> wal_file) \<Rightarrow> os \<Rightarrow> os" where
  "on_file i g d = d\<lparr>os_files := AList.map_entry i g (os_files d)\<rparr>"

definition file_append :: "bytes \<Rightarrow> wal_file \<Rightarrow> wal_file" where
  "file_append bs f = f\<lparr>f_data := f_data f @ bs\<rparr>"

definition write_all :: "nat \<Rightarrow> bytes \<Rightarrow> os \<Rightarrow> os \<times> (wal_error + unit)" where
  "write_all i bs d =
     (if bs = [] then (d, Inr ())
      else case io_call d of
        (d1, IoOk) \<Rightarrow> (on_file i (file_append bs) d1, Inr ())
      | (d1, IoErr k) \<Rightarrow>
          (on_file i (file_append (take (min k (length bs - 1)) bs)) d1, Inl WalIo))"

definition sync_all :: "nat \<Rightarrow> os \<Rightarrow> os \<times> (wal_error + unit)" where
  "sync_all i d = (case io_call d of
       (d1, IoOk) \<Rightarrow> (on_file i (\<lambda>f. f\<lparr>f_synced := length (f_data f)\<rparr>) d1, Inr ())
     | (d1, IoErr _) \<Rightarrow> (d1, Inl WalIo))"

definition now_ns :: "os \<Rightarrow> os \<times> u64" where
  "now_ns d = (d\<lparr>os_tick := os_tick d + 1\<rparr>, os_clock d (os_tick d))"

definition gen_nonce :: "os \<Rightarrow> os \<times> bytes" where
  "gen_nonce d = (d\<lparr>os_tick := os_tick d + 1\<rparr>, take 12 (os_rng d (os_tick d) @ replicate 12 0))"

lemma length_gen_nonce [simp]: "length (snd (gen_nonce d)) = 12"
  by (simp add: gen_nonce_def)

text \<open>A crash keeps, of every file, at least what was synced and at most what was written.\<close>

definition crash_file :: "wal_file \<Rightarrow> wal_file \<Rightarrow> bool" where
  "crash_file f g \<longleftrightarrow> (\<exists>n. f_synced f \<le> n \<and> f_data g = take n (f_data f))"

definition crash :: "os \<Rightarrow> os \<Rightarrow> bool" where
  "crash d e \<longleftrightarrow> list_all2 (\<lambda>(i, f) (j, g). i = j \<and> crash_file f g) (os_files d) (os_files e)"

subsection \<open>Segments\<close>

record segment =
  seg_index :: nat
  seg_sealed :: bool
  seg_write_offset :: nat
  seg_max_size :: nat

definition segment_create :: "nat \<Rightarrow> nat \<Rightarrow> os \<Rightarrow> os \<times> (wal_error + segment)" where
  "segment_create i max_size d = (case io_call d of
       (d1, IoOk) \<Rightarrow>
         if map_of (os_files d1) i \<noteq> None then (d1, Inl WalIo)
         else (d1\<lparr>os_files := os_files d1 @ [(i, \<lparr> f_data = [], f_synced = 0 \<rparr>)]\<rparr>,
               Inr \<lparr> seg_index = i, seg_sealed = False, seg_write_offset = 0,
                     seg_max_size = max_size \<rparr>)
     | (d1, IoErr _) \<Rightarrow> (d1, Inl WalIo))"

definition segment_open :: "nat \<Rightarrow> nat \<Rightarrow> bool \<Rightarrow> os \<Rightarrow> os \<times> (wal_error + segment)" where
  "segment_open i max_size is_sealed d = (case io_call d of
       (d1, IoOk) \<Rightarrow> (case map_of (os_files d1) i of
           None \<Rightarrow> (d1, Inl WalIo)
         | Some f \<Rightarrow> (d1, Inr \<lparr> seg_index = i, seg_sealed = is_sealed,
               seg_write_offset = length (f_data f), seg_max_size = max_size \<rparr>))
     | (d1, IoErr _) \<Rightarrow> (d1, Inl WalIo))"

definition has_space :: "segment \<Rightarrow> nat \<Rightarrow> bool" where
  "has_space s needed \<longleftrightarrow> \<not> seg_sealed s \<and> seg_write_offset s + needed \<le> seg_max_size s"

definition segment_seal :: "segment \<Rightarrow> os \<Rightarrow> os \<times> (wal_error + segment)" where
  "segment_seal s d = and_then (sync_all (seg_index s) d)
     (\<lambda>d1 _. (d1, Inr (s\<lparr>seg_sealed := True\<rparr>)))"

definition list_segments :: "os \<Rightarrow> nat list" where
  "list_segments d = sort (map fst (os_files d))"

subsection \<open>The encryption envelope\<close>

definition derive_segment_key :: "ext \<Rightarrow> bytes \<Rightarrow> nat \<Rightarrow> bytes" where
  "derive_segment_key X master i = hkdf X master i"

definition encrypt_record :: "ext \<Rightarrow> bytes \<Rightarrow> bytes \<Rightarrow> nat \<Rightarrow> bytes \<Rightarrow> bytes" where
  "encrypt_record X key record_bytes i nonce =
     (let ciphertext = aes_encrypt X key nonce (le_bytes 8 i) record_bytes
      in u32_le ENCRYPTED_MAGIC @ nonce @ u32_le (of_nat (length ciphertext)) @ ciphertext)"

definition decrypt_record :: "ext \<Rightarrow> bytes \<Rightarrow> bytes \<Rightarrow> nat \<Rightarrow> wal_error + bytes" where
  "decrypt_record X key blob i =
     (if length blob < ENC_HEADER_SIZE then Inl WalEncryption
      else if u32_of_le (take 4 blob) \<noteq> ENCRYPTED_MAGIC then Inl WalEncryption
      else let nonce = take 12 (drop 4 blob);
               ct_len = unat (u32_of_le (take 4 (drop 16 blob)))
           in if length blob < ENC_HEADER_SIZE + ct_len then Inl WalEncryption
              else case aes_decrypt X key nonce (le_bytes 8 i)
                          (take ct_len (drop ENC_HEADER_SIZE blob)) of
                     None \<Rightarrow> Inl WalDecryption
                   | Some p \<Rightarrow> Inr p)"

definition is_encrypted :: "bytes \<Rightarrow> bool" where
  "is_encrypted bs \<longleftrightarrow> length bs \<ge> 4 \<and> u32_of_le (take 4 bs) = ENCRYPTED_MAGIC"

lemma decrypt_encrypt_record [codec_simps]:
  assumes X: "ext_ok X" and n: "length nonce = 12" and len: "length pt + 16 < 2 ^ 32"
  shows "decrypt_record X key (encrypt_record X key pt i nonce) i = Inr pt"
proof -
  let ?ct = "aes_encrypt X key nonce (le_bytes 8 i) pt"
  have "length ?ct < 2 ^ 32"
    using X len by (simp add: ext_okD)
  then have "unat (of_nat (length ?ct) :: u32) = length ?ct"
    by (rule unat_u32)
  with X n show ?thesis
    by (simp add: decrypt_record_def encrypt_record_def Let_def ENC_HEADER_SIZE_def ext_okD)
qed

end
