(* ===== verification/Wal_Reader.thy ===== *)
theory Wal_Reader
  imports Wal_Disk
begin

text \<open>
  \<^verbatim>\<open>reader.rs\<close>: \<^verbatim>\<open>SegmentReader::next_record\<close> on the bytes of one segment file, the
  iterator over all segments, and the scan for the last sequence number.

  The lemmas are about frames, the byte strings the writer puts on disk for one record
  (plain, or in the encryption envelope).  A reader positioned at a frame returns exactly
  that record; a reader positioned at a proper prefix of a frame stops without returning
  a record.
\<close>

subsection \<open>One segment\<close>

record segment_reader =
  sr_rest :: bytes
  sr_offset :: nat
  sr_last_sequence :: u64
  sr_done :: bool
  sr_index :: nat
  sr_key :: "bytes option"

definition segment_reader_open :: "bytes \<Rightarrow> nat \<Rightarrow> bytes option \<Rightarrow> segment_reader" where
  "segment_reader_open data i key =
     \<lparr> sr_rest = data, sr_offset = 0, sr_last_sequence = 0, sr_done = False, sr_index = i,
       sr_key = key \<rparr>"

text \<open>\<^verbatim>\<open>read_exact_vec\<close>: a short read consumes what is left.\<close>

definition read_exact_vec ::
  "nat \<Rightarrow> segment_reader \<Rightarrow> segment_reader \<times> (wal_error + bytes)" where
  "read_exact_vec n sr =
     (if length (sr_rest sr) < n then (sr\<lparr>sr_rest := []\<rparr>, Inl (TruncatedRecord 0 n 0))
      else (sr\<lparr>sr_rest := drop n (sr_rest sr)\<rparr>, Inr (take n (sr_rest sr))))"

type_synonym read_item = "wal_error + wal_record"

definition stop :: "segment_reader \<Rightarrow> read_item option \<Rightarrow> segment_reader \<times> read_item option" where
  "stop sr r = (sr\<lparr>sr_done := True\<rparr>, r)"

definition decode_header :: "ext \<Rightarrow> bytes \<Rightarrow> wal_error + record_header" where
  "decode_header X bs = map_err WalSerialization (dec_header X bs)"

definition parse_plaintext_record ::
  "ext \<Rightarrow> segment_reader \<Rightarrow> bytes \<Rightarrow> segment_reader \<times> read_item option" where
  "parse_plaintext_record X sr pt =
     (if length pt < HEADER_SIZE + 4
      then stop sr (Some (Inl (TruncatedRecord (sr_offset sr) (HEADER_SIZE + 4) (length pt))))
      else let header_bytes = take HEADER_SIZE pt;
               crc_start = length pt - 4;
               payload = drop HEADER_SIZE (take crc_start pt);
               stored_crc = u32_of_le (drop crc_start pt)
           in case decode_header X header_bytes of
                Inl e \<Rightarrow> stop sr (Some (Inl e))
              | Inr h \<Rightarrow>
                  if rh_magic h \<noteq> WAL_MAGIC then stop sr None
                  else if rh_version h \<noteq> WAL_VERSION
                  then stop sr (Some (Inl (UnsupportedVersion (rh_version h))))
                  else let computed = crc32 X (header_bytes @ payload)
                       in if computed \<noteq> stored_crc
                          then stop sr (Some (Inl (ChecksumMismatch stored_crc computed)))
                          else (sr\<lparr>sr_last_sequence := rh_sequence h\<rparr>,
                                Some (Inr \<lparr> wr_header = h, wr_payload = payload,
                                            wr_crc32 = stored_crc \<rparr>)))"

definition read_encrypted ::
  "ext \<Rightarrow> segment_reader \<Rightarrow> bytes \<Rightarrow> segment_reader \<times> read_item option" where
  "read_encrypted X sr magic_bytes =
     (case read_exact_vec (12 + 4) sr of
        (sr1, Inl e) \<Rightarrow> stop sr1 (Some (Inl e))
      | (sr1, Inr rest_header) \<Rightarrow>
          let ct_len = unat (u32_of_le (take 4 (drop 12 rest_header)))
          in if ct_len > MAX_RECORD_PAYLOAD
             then stop sr1 (Some (Inl (TruncatedRecord (sr_offset sr1) ct_len 0)))
             else case read_exact_vec ct_len sr1 of
                 (sr2, Inl e) \<Rightarrow> stop sr2 (Some (Inl e))
               | (sr2, Inr ciphertext) \<Rightarrow>
                   let blob = magic_bytes @ rest_header @ ciphertext
                   in case sr_key sr2 of
                        None \<Rightarrow> stop sr2 (Some (Inl WalDecryption))
                      | Some master \<Rightarrow>
                          (case decrypt_record X (derive_segment_key X master (sr_index sr2))
                                  blob (sr_index sr2) of
                             Inl e \<Rightarrow> stop sr2 (Some (Inl e))
                           | Inr pt \<Rightarrow> parse_plaintext_record X
                               (sr2\<lparr>sr_offset := sr_offset sr2 + length blob\<rparr>) pt))"

definition read_plain ::
  "ext \<Rightarrow> segment_reader \<Rightarrow> bytes \<Rightarrow> segment_reader \<times> read_item option" where
  "read_plain X sr magic_bytes =
     (case read_exact_vec (HEADER_SIZE - 4) sr of
        (sr1, Inl e) \<Rightarrow> stop sr1 (Some (Inl e))
      | (sr1, Inr remaining_header) \<Rightarrow>
          let header_bytes = magic_bytes @ remaining_header
          in case decode_header X header_bytes of
               Inl e \<Rightarrow> stop sr1 (Some (Inl e))
             | Inr h \<Rightarrow>
                 if rh_version h \<noteq> WAL_VERSION
                 then stop sr1 (Some (Inl (UnsupportedVersion (rh_version h))))
                 else let payload_len = unat (rh_payload_len h)
                 in if payload_len > MAX_RECORD_PAYLOAD
                 then stop sr1 (Some (Inl (TruncatedRecord (sr_offset sr1) payload_len 0)))
                 else case read_exact_vec payload_len sr1 of
                     (sr2, Inl e) \<Rightarrow> stop sr2 (Some (Inl e))
                   | (sr2, Inr payload) \<Rightarrow>
                       (case read_exact_vec 4 sr2 of
                          (sr3, Inl e) \<Rightarrow> stop sr3 (Some (Inl e))
                        | (sr3, Inr crc_bytes) \<Rightarrow>
                            let stored_crc = u32_of_le crc_bytes;
                                computed = crc32 X (header_bytes @ payload)
                            in if computed \<noteq> stored_crc
                               then stop sr3 (Some (Inl (ChecksumMismatch stored_crc computed)))
                               else (sr3\<lparr>sr_offset := sr_offset sr3 + (HEADER_SIZE + length payload + 4),
                                         sr_last_sequence := rh_sequence h\<rparr>,
                                     Some (Inr \<lparr> wr_header = h, wr_payload = payload,
                                                 wr_crc32 = stored_crc \<rparr>))))"

definition next_record :: "ext \<Rightarrow> segment_reader \<Rightarrow> segment_reader \<times> read_item option" where
  "next_record X sr =
     (if sr_done sr then (sr, None)
      else case read_exact_vec 4 sr of
          (sr1, Inl e) \<Rightarrow> stop sr1 None
        | (sr1, Inr magic_bytes) \<Rightarrow>
            if u32_of_le magic_bytes = ENCRYPTED_MAGIC then read_encrypted X sr1 magic_bytes
            else if u32_of_le magic_bytes \<noteq> WAL_MAGIC then stop sr1 None
            else read_plain X sr1 magic_bytes)"

text \<open>Every call that returns an item either ends the scan or consumes input.\<close>

definition sr_measure :: "segment_reader \<Rightarrow> nat" where
  "sr_measure sr = (if sr_done sr then 0 else Suc (length (sr_rest sr)))"

lemma parse_plaintext_record_rest:
  "parse_plaintext_record X sr pt = (sr', r) \<Longrightarrow> sr_done sr' \<or> sr_rest sr' = sr_rest sr"
  by (auto simp: parse_plaintext_record_def stop_def Let_def split: if_splits sum.splits)

lemma read_exact_vec_rest:
  "read_exact_vec n sr = (sr', r) \<Longrightarrow>
     length (sr_rest sr') \<le> length (sr_rest sr) \<and> sr_done sr' = sr_done sr"
  by (auto simp: read_exact_vec_def split: if_splits)

lemma read_encrypted_rest:
  "read_encrypted X sr m = (sr', r) \<Longrightarrow> sr_done sr' \<or> length (sr_rest sr') \<le> length (sr_rest sr)"
  by (auto simp: read_encrypted_def stop_def Let_def split: if_splits sum.splits prod.splits option.splits
      dest!: parse_plaintext_record_rest read_exact_vec_rest)

lemma read_plain_rest:
  "read_plain X sr m = (sr', r) \<Longrightarrow> sr_done sr' \<or> length (sr_rest sr') \<le> length (sr_rest sr)"
  by (auto simp: read_plain_def stop_def Let_def split: if_splits sum.splits prod.splits
      dest!: read_exact_vec_rest)

lemma next_record_measure:
  assumes "next_record X sr = (sr', Some r)"
  shows "sr_measure sr' < sr_measure sr"
proof -
  have nd: "\<not> sr_done sr"
    using assms by (auto simp: next_record_def)
  obtain sr1 m where r4: "read_exact_vec 4 sr = (sr1, Inr m)"
    using assms nd by (auto simp: next_record_def stop_def split: prod.splits sum.splits)
  then have lt: "length (sr_rest sr1) < length (sr_rest sr)"
    by (auto simp: read_exact_vec_def split: if_splits)
  have "read_encrypted X sr1 m = (sr', Some r) \<or> read_plain X sr1 m = (sr', Some r)"
    using assms nd r4 by (auto simp: next_record_def stop_def split: if_splits)
  then have "sr_done sr' \<or> length (sr_rest sr') \<le> length (sr_rest sr1)"
    using read_encrypted_rest read_plain_rest by blast
  with lt nd show ?thesis
    by (auto simp: sr_measure_def)
qed

function segment_items :: "ext \<Rightarrow> segment_reader \<Rightarrow> read_item list" where
  "segment_items X sr = (case next_record X sr of
       (sr', None) \<Rightarrow> []
     | (sr', Some r) \<Rightarrow> r # segment_items X sr')"
  by pat_completeness auto
termination
  by (relation "measure (\<lambda>(X, sr). sr_measure sr)") (auto dest: next_record_measure [OF sym])

declare segment_items.simps [simp del]

text \<open>The errors the scans treat as the end of the valid log.\<close>

fun torn_error :: "wal_error \<Rightarrow> bool" where
  "torn_error (ChecksumMismatch _ _) = True"
| "torn_error (TruncatedRecord _ _ _) = True"
| "torn_error BadMagic = True"
| "torn_error WalDecryption = True"
| "torn_error _ = False"

subsection \<open>All segments\<close>

definition read_segment :: "ext \<Rightarrow> bytes option \<Rightarrow> nat \<times> wal_file \<Rightarrow> read_item list" where
  "read_segment X key p = segment_items X (segment_reader_open (f_data (snd p)) (fst p) key)"

text \<open>\<^verbatim>\<open>WalReader\<close> opens the segments in ascending order; a segment whose reader has ended is
  followed by the next one.\<close>

definition wal_items :: "ext \<Rightarrow> os \<Rightarrow> bytes option \<Rightarrow> nat \<Rightarrow> read_item list" where
  "wal_items X d key start =
     concat (map (read_segment X key)
       (filter (\<lambda>p. fst p \<ge> start) (sort_key fst (os_files d))))"

fun scan_sequence :: "u64 \<Rightarrow> read_item list \<Rightarrow> wal_error + u64" where
  "scan_sequence s [] = Inr s"
| "scan_sequence s (Inr r # xs) =
     scan_sequence (if rh_sequence (wr_header r) > s then rh_sequence (wr_header r) else s) xs"
| "scan_sequence s (Inl e # xs) = (if torn_error e then Inr s else Inl e)"

definition scan_last_sequence :: "ext \<Rightarrow> os \<Rightarrow> bytes option \<Rightarrow> wal_error + u64" where
  "scan_last_sequence X d key = scan_sequence 0 (wal_items X d key 0)"

definition scan_last_sequence_in_segment ::
  "ext \<Rightarrow> os \<Rightarrow> nat \<Rightarrow> bytes option \<Rightarrow> wal_error + u64" where
  "scan_last_sequence_in_segment X d i key = (case map_of (os_files d) i of
       None \<Rightarrow> Inl WalIo
     | Some f \<Rightarrow> scan_sequence 0 (segment_items X (segment_reader_open (f_data f) i key)))"

subsection \<open>Frames\<close>

definition record_bytes :: "ext \<Rightarrow> wal_record \<Rightarrow> bytes" where
  "record_bytes X r = enc_header X (wr_header r) @ wr_payload r @ u32_le (wr_crc32 r)"

definition record_wf :: "ext \<Rightarrow> wal_record \<Rightarrow> bool" where
  "record_wf X r \<longleftrightarrow> rh_magic (wr_header r) = WAL_MAGIC \<and> rh_version (wr_header r) = WAL_VERSION \<and>
     rh_payload_len (wr_header r) = of_nat (length (wr_payload r)) \<and>
     length (wr_payload r) \<le> MAX_RECORD_PAYLOAD \<and>
     wr_crc32 r = crc32 X (enc_header X (wr_header r) @ wr_payload r)"

definition plain_frame :: "ext \<Rightarrow> bytes \<Rightarrow> wal_record \<Rightarrow> bool" where
  "plain_frame X c r \<longleftrightarrow> record_wf X r \<and> c = record_bytes X r"

definition sealed_frame :: "ext \<Rightarrow> bytes \<Rightarrow> nat \<Rightarrow> bytes \<Rightarrow> wal_record \<Rightarrow> bool" where
  "sealed_frame X master i c r \<longleftrightarrow> record_wf X r \<and>
     length (record_bytes X r) + 16 \<le> MAX_RECORD_PAYLOAD \<and>
     (\<exists>nonce. length nonce = 12 \<and>
        c = encrypt_record X (derive_segment_key X master i) (record_bytes X r) i nonce)"

definition frame :: "ext \<Rightarrow> bytes option \<Rightarrow> nat \<Rightarrow> bytes \<Rightarrow> wal_record \<Rightarrow> bool" where
  "frame X key i c r \<longleftrightarrow> plain_frame X c r \<or>
     (\<exists>master. key = Some master \<and> sealed_frame X master i c r)"

lemma max_payload_u32: "n \<le> MAX_RECORD_PAYLOAD \<Longrightarrow> unat (of_nat n :: u32) = n"
  by (rule unat_u32) (simp add: MAX_RECORD_PAYLOAD_def)

lemma length_record_bytes [codec_simps]:
  "ext_ok X \<Longrightarrow> length (record_bytes X r) = HEADER_SIZE + length (wr_payload r) + 4"
  by (simp add: record_bytes_def ext_okD)

lemma header_split:
  assumes "ext_ok X" "rh_magic h = WAL_MAGIC"
  shows "\<exists>t. enc_header X h = u32_le WAL_MAGIC @ t \<and> length t = HEADER_SIZE - 4"
proof (intro exI conjI)
  show "enc_header X h = u32_le WAL_MAGIC @ drop 4 (enc_header X h)"
    using append_take_drop_id [of 4 "enc_header X h"] assms by (simp add: ext_okD)
  show "length (drop 4 (enc_header X h)) = HEADER_SIZE - 4"
    using assms by (simp add: ext_okD)
qed

lemma next_record_plain:
  assumes X: "ext_ok X" and f: "plain_frame X c r" and nd: "\<not> sr_done sr"
    and rest: "sr_rest sr = c @ rest"
  shows "\<exists>off. next_record X sr = (sr\<lparr>sr_rest := rest, sr_offset := off,
            sr_last_sequence := rh_sequence (wr_header r)\<rparr>, Some (Inr r))"
proof -
  from f have wf: "record_wf X r" and c: "c = record_bytes X r"
    by (auto simp: plain_frame_def)
  let ?h = "wr_header r"
  obtain t where t: "enc_header X ?h = u32_le WAL_MAGIC @ t" and lt: "length t = HEADER_SIZE - 4"
    using header_split [OF X] wf by (auto simp: record_wf_def)
  have dec: "decode_header X (u32_le WAL_MAGIC @ t) = Inr ?h"
    using X t by (metis decode_header_def ext_okD(3) map_err_simps(2))
  have bs: "sr_rest sr = u32_le WAL_MAGIC @ t @ wr_payload r @ u32_le (wr_crc32 r) @ rest"
    by (simp add: rest c record_bytes_def t)
  have pl: "unat (rh_payload_len ?h) = length (wr_payload r)"
    "\<not> MAX_RECORD_PAYLOAD < length (wr_payload r)"
    using wf by (simp_all add: record_wf_def max_payload_u32)
  have crc: "crc32 X (u32_le WAL_MAGIC @ t @ wr_payload r) = wr_crc32 r"
    using wf t by (simp add: record_wf_def)
  have "next_record X sr = read_plain X (sr\<lparr>sr_rest := drop 4 (sr_rest sr)\<rparr>) (u32_le WAL_MAGIC)"
    using nd by (simp add: next_record_def read_exact_vec_def bs)
  also have "\<dots> = (sr\<lparr>sr_rest := rest,
      sr_offset := sr_offset sr + (HEADER_SIZE + length (wr_payload r) + 4),
      sr_last_sequence := rh_sequence ?h\<rparr>, Some (Inr r))"
    using wf lt pl dec crc
    by (simp add: read_plain_def read_exact_vec_def bs record_wf_def)
  finally show ?thesis by blast
qed

lemma parse_plaintext_record_ok:
  assumes X: "ext_ok X" and wf: "record_wf X r"
  shows "parse_plaintext_record X sr (record_bytes X r) =
     (sr\<lparr>sr_last_sequence := rh_sequence (wr_header r)\<rparr>, Some (Inr r))"
proof -
  have len: "length (record_bytes X r) = HEADER_SIZE + length (wr_payload r) + 4"
    by (rule length_record_bytes [OF X])
  have hb: "take HEADER_SIZE (record_bytes X r) = enc_header X (wr_header r)"
    using X by (simp add: record_bytes_def ext_okD)
  have pl: "drop HEADER_SIZE (take (HEADER_SIZE + length (wr_payload r)) (record_bytes X r)) =
      wr_payload r"
    using X by (simp add: record_bytes_def ext_okD)
  have crc: "drop (HEADER_SIZE + length (wr_payload r)) (record_bytes X r) = u32_le (wr_crc32 r)"
    using X by (simp add: record_bytes_def ext_okD)
  have "crc32 X (enc_header X (wr_header r) @ wr_payload r) = wr_crc32 r"
    "rh_magic (wr_header r) = WAL_MAGIC" "rh_version (wr_header r) = WAL_VERSION"
    using wf by (simp_all add: record_wf_def)
  then show ?thesis
    using X by (simp add: parse_plaintext_record_def len hb pl crc decode_header_def ext_okD Let_def)
qed

lemma next_record_sealed:
  assumes X: "ext_ok X" and f: "sealed_frame X master i c r" and nd: "\<not> sr_done sr"
    and rest: "sr_rest sr = c @ rest" and key: "sr_key sr = Some master" and i: "sr_index sr = i"
  shows "\<exists>off. next_record X sr = (sr\<lparr>sr_rest := rest, sr_offset := off,
            sr_last_sequence := rh_sequence (wr_header r)\<rparr>, Some (Inr r))"
proof -
  let ?k = "derive_segment_key X master i"
  from f obtain nonce where wf: "record_wf X r" and n: "length nonce = 12"
    and max: "length (record_bytes X r) + 16 \<le> MAX_RECORD_PAYLOAD"
    and c: "c = encrypt_record X ?k (record_bytes X r) i nonce"
    by (auto simp: sealed_frame_def)
  define ct where "ct = aes_encrypt X ?k nonce (le_bytes 8 i) (record_bytes X r)"
  have lct: "length ct \<le> MAX_RECORD_PAYLOAD"
    using X max by (simp add: ct_def ext_okD)
  then have uct: "unat (of_nat (length ct) :: u32) = length ct" "\<not> MAX_RECORD_PAYLOAD < length ct"
    by (simp_all only: max_payload_u32 not_less)
  let ?rh = "nonce @ u32_le (of_nat (length ct))"
  have c': "c = u32_le ENCRYPTED_MAGIC @ ?rh @ ct"
    by (simp add: c encrypt_record_def Let_def ct_def)
  have dec: "decrypt_record X ?k (u32_le ENCRYPTED_MAGIC @ ?rh @ ct) i = Inr (record_bytes X r)"
    unfolding c' [symmetric] c
    by (rule decrypt_encrypt_record [OF X n]) (use max in \<open>simp add: MAX_RECORD_PAYLOAD_def\<close>)
  have "next_record X sr =
      read_encrypted X (sr\<lparr>sr_rest := drop 4 (sr_rest sr)\<rparr>) (u32_le ENCRYPTED_MAGIC)"
    using nd by (simp add: next_record_def read_exact_vec_def rest c')
  also have "\<dots> = parse_plaintext_record X (sr\<lparr>sr_rest := rest,
      sr_offset := sr_offset sr + length c\<rparr>) (record_bytes X r)"
    using n uct dec key i
    by (simp add: read_encrypted_def read_exact_vec_def rest c' Let_def)
  finally show ?thesis
    by (auto simp: parse_plaintext_record_ok [OF X wf])
qed

lemma next_record_frame:
  assumes "ext_ok X" "frame X (sr_key sr) (sr_index sr) c r" "\<not> sr_done sr" "sr_rest sr = c @ rest"
  shows "\<exists>off. next_record X sr = (sr\<lparr>sr_rest := rest, sr_offset := off,
            sr_last_sequence := rh_sequence (wr_header r)\<rparr>, Some (Inr r))"
  using assms next_record_plain next_record_sealed unfolding frame_def by blast

subsection \<open>Torn frames\<close>

text \<open>A scan that ends without a record: nothing, or a truncated record.\<close>

definition torn_stop :: "segment_reader \<times> read_item option \<Rightarrow> bool" where
  "torn_stop p \<longleftrightarrow> sr_done (fst p) \<and>
     (snd p = None \<or> (\<exists>a b c. snd p = Some (Inl (TruncatedRecord a b c))))"

lemma torn_stop_stop [simp]: "torn_stop (stop sr None)"
  "torn_stop (stop sr (Some (Inl (TruncatedRecord a b c))))"
  by (simp_all add: torn_stop_def stop_def)

lemma read_exact_vec_short [simp]:
  "length (sr_rest sr) < n \<Longrightarrow>
     read_exact_vec n sr = (sr\<lparr>sr_rest := []\<rparr>, Inl (TruncatedRecord 0 n 0))"
  by (simp add: read_exact_vec_def)

lemma strict_prefix_cases:
  assumes "strict_prefix p (a @ b)"
  shows "strict_prefix p a \<or> (\<exists>q. p = a @ q \<and> strict_prefix q b)"
  using assms by (auto simp: strict_prefix_def prefix_append)

lemma strict_prefix_length: "strict_prefix p c \<Longrightarrow> length p < length c"
  by (simp add: prefix_length_less)

lemma next_record_torn_plain:
  assumes X: "ext_ok X" and f: "plain_frame X c r" and nd: "\<not> sr_done sr"
    and p: "strict_prefix (sr_rest sr) c"
  shows "torn_stop (next_record X sr)"
proof -
  from f have wf: "record_wf X r" and c: "c = record_bytes X r"
    by (auto simp: plain_frame_def)
  let ?h = "wr_header r"
  obtain t where t: "enc_header X ?h = u32_le WAL_MAGIC @ t" and lt: "length t = HEADER_SIZE - 4"
    using header_split [OF X] wf by (auto simp: record_wf_def)
  have dec: "decode_header X (u32_le WAL_MAGIC @ t) = Inr ?h"
    using X t by (metis decode_header_def ext_okD(3) map_err_simps(2))
  have pl: "unat (rh_payload_len ?h) = length (wr_payload r)"
    "\<not> MAX_RECORD_PAYLOAD < length (wr_payload r)" "rh_version ?h = WAL_VERSION"
    using wf by (simp_all add: record_wf_def max_payload_u32)
  have c': "c = u32_le WAL_MAGIC @ t @ wr_payload r @ u32_le (wr_crc32 r)"
    by (simp add: c record_bytes_def t)
  consider "strict_prefix (sr_rest sr) (u32_le WAL_MAGIC)"
    | q where "sr_rest sr = u32_le WAL_MAGIC @ q" "strict_prefix q t"
    | q where "sr_rest sr = u32_le WAL_MAGIC @ t @ q" "strict_prefix q (wr_payload r)"
    | q where "sr_rest sr = u32_le WAL_MAGIC @ t @ wr_payload r @ q" "strict_prefix q (u32_le (wr_crc32 r))"
    using p unfolding c' by (metis strict_prefix_cases)
  then show ?thesis
  proof cases
    case 1
    with nd show ?thesis
      by (auto simp: next_record_def dest!: strict_prefix_length)
  next
    case (2 q)
    then have "length q < HEADER_SIZE - 4"
      using lt by (auto dest!: strict_prefix_length)
    with 2 nd show ?thesis
      by (simp add: next_record_def read_plain_def read_exact_vec_def)
  next
    case (3 q)
    then have "length q < length (wr_payload r)"
      by (auto dest!: strict_prefix_length)
    with 3 nd pl dec lt show ?thesis
      by (simp add: next_record_def read_plain_def read_exact_vec_def)
  next
    case (4 q)
    then have "length q < 4"
      by (auto dest!: strict_prefix_length)
    with 4 nd pl dec lt show ?thesis
      by (simp add: next_record_def read_plain_def read_exact_vec_def)
  qed
qed

lemma next_record_torn_sealed:
  assumes X: "ext_ok X" and f: "sealed_frame X master i c r" and nd: "\<not> sr_done sr"
    and p: "strict_prefix (sr_rest sr) c"
  shows "torn_stop (next_record X sr)"
proof -
  let ?k = "derive_segment_key X master i"
  from f obtain nonce where n: "length nonce = 12"
    and max: "length (record_bytes X r) + 16 \<le> MAX_RECORD_PAYLOAD"
    and c: "c = encrypt_record X ?k (record_bytes X r) i nonce"
    by (auto simp: sealed_frame_def)
  define ct where "ct = aes_encrypt X ?k nonce (le_bytes 8 i) (record_bytes X r)"
  have lct: "length ct \<le> MAX_RECORD_PAYLOAD"
    using X max by (simp add: ct_def ext_okD)
  then have uct: "unat (of_nat (length ct) :: u32) = length ct" "\<not> MAX_RECORD_PAYLOAD < length ct"
    by (simp_all only: max_payload_u32 not_less)
  let ?rh = "nonce @ u32_le (of_nat (length ct))"
  have c': "c = u32_le ENCRYPTED_MAGIC @ ?rh @ ct"
    by (simp add: c encrypt_record_def Let_def ct_def)
  consider "strict_prefix (sr_rest sr) (u32_le ENCRYPTED_MAGIC)"
    | q where "sr_rest sr = u32_le ENCRYPTED_MAGIC @ q" "strict_prefix q ?rh"
    | q where "sr_rest sr = u32_le ENCRYPTED_MAGIC @ ?rh @ q" "strict_prefix q ct"
    using p unfolding c' by (metis strict_prefix_cases)
  then show ?thesis
  proof cases
    case 1
    with nd show ?thesis
      by (auto simp: next_record_def dest!: strict_prefix_length)
  next
    case (2 q)
    then have "length q < 16"
      using n by (auto dest!: strict_prefix_length)
    with 2 nd show ?thesis
      by (simp add: next_record_def read_encrypted_def read_exact_vec_def)
  next
    case (3 q)
    then have "length q < length ct"
      by (auto dest!: strict_prefix_length)
    with 3 nd uct n show ?thesis
      by (simp add: next_record_def read_encrypted_def read_exact_vec_def Let_def)
  qed
qed

lemma next_record_torn:
  assumes "ext_ok X" "frame X key i c r" "\<not> sr_done sr" "strict_prefix (sr_rest sr) c"
  shows "torn_stop (next_record X sr)"
  using assms next_record_torn_plain next_record_torn_sealed unfolding frame_def by blast

definition torn_tail :: "read_item list \<Rightarrow> bool" where
  "torn_tail t \<longleftrightarrow> t = [] \<or> (\<exists>a b c. t = [Inl (TruncatedRecord a b c)])"

lemma torn_tail_Nil [simp]: "torn_tail []"
  by (simp add: torn_tail_def)

lemma segment_items_done [simp]: "sr_done sr \<Longrightarrow> segment_items X sr = []"
  by (subst segment_items.simps) (simp add: next_record_def)

lemma segment_items_next:
  "next_record X sr = (sr', x) \<Longrightarrow>
     segment_items X sr = (case x of None \<Rightarrow> [] | Some r \<Rightarrow> r # segment_items X sr')"
  by (subst segment_items.simps) simp

lemma segment_items_torn:
  assumes "torn_stop (next_record X sr)"
  shows "torn_tail (segment_items X sr)"
proof -
  obtain sr' x where x: "next_record X sr = (sr', x)" by force
  with assms have fin: "segment_items X sr' = []" and
    c: "x = None \<or> (\<exists>a b c. x = Some (Inl (TruncatedRecord a b c)))"
    by (auto simp: torn_stop_def)
  with fin c show ?thesis
    by (auto simp: torn_tail_def segment_items_next [OF x])
qed

lemma segment_items_frames:
  assumes "ext_ok X" "list_all2 (frame X key i) cs rs" "\<not> sr_done sr"
    and "sr_rest sr = concat cs @ p" "sr_key sr = key" "sr_index sr = i"
    and "p = [] \<or> (\<exists>c r. frame X key i c r \<and> strict_prefix p c)"
  shows "\<exists>t. segment_items X sr = map Inr rs @ t \<and> torn_tail t \<and> (p = [] \<longrightarrow> t = [])"
  using assms(2-)
proof (induction cs rs arbitrary: sr rule: list_all2_induct)
  case Nil
  show ?case
  proof (cases "p = []")
    case True
    with Nil have "next_record X sr = stop (sr\<lparr>sr_rest := []\<rparr>) None"
      by (simp add: next_record_def)
    then show ?thesis
      by (simp add: segment_items_next stop_def)
  next
    case False
    with Nil obtain c r where "frame X key i c r" "strict_prefix (sr_rest sr) c"
      by auto
    then have "torn_tail (segment_items X sr)"
      using next_record_torn [OF assms(1)] Nil.prems(1) segment_items_torn by blast
    with False show ?thesis by simp
  qed
next
  case (Cons c cs r rs)
  from Cons.prems have rest: "sr_rest sr = c @ concat cs @ p" by simp
  from Cons have "frame X (sr_key sr) (sr_index sr) c r" by simp
  from next_record_frame [OF assms(1) this Cons.prems(1) rest] obtain off where
    "next_record X sr = (sr\<lparr>sr_rest := concat cs @ p, sr_offset := off,
        sr_last_sequence := rh_sequence (wr_header r)\<rparr>, Some (Inr r))" (is "_ = (?sr', _)")
    by blast
  with Cons.IH [of ?sr'] Cons.prems show ?case
    by (simp add: segment_items_next)
qed

subsection \<open>The log on disk\<close>

text \<open>A file holds the records \<open>rs\<close> when its bytes are frames of these records.\<close>

definition file_holds :: "ext \<Rightarrow> bytes option \<Rightarrow> nat \<times> wal_file \<Rightarrow> wal_record list \<Rightarrow> bool" where
  "file_holds X key p rs \<longleftrightarrow>
     (\<exists>cs. list_all2 (frame X key (fst p)) cs rs \<and> f_data (snd p) = concat cs)"

definition files_hold ::
  "ext \<Rightarrow> bytes option \<Rightarrow> (nat \<times> wal_file) list \<Rightarrow> wal_record list \<Rightarrow> bool" where
  "files_hold X key fs rs \<longleftrightarrow> sorted_wrt (<) (map fst fs) \<and>
     (\<exists>rss. list_all2 (file_holds X key) fs rss \<and> rs = concat rss)"

lemma segment_reader_open_simps [simp]:
  "sr_rest (segment_reader_open data i key) = data"
  "sr_key (segment_reader_open data i key) = key"
  "sr_index (segment_reader_open data i key) = i"
  "\<not> sr_done (segment_reader_open data i key)"
  by (simp_all add: segment_reader_open_def)

lemma read_segment_holds:
  assumes X: "ext_ok X" and h: "file_holds X key p rs"
  shows "read_segment X key p = map Inr rs"
proof -
  from h obtain cs where "list_all2 (frame X key (fst p)) cs rs" "f_data (snd p) = concat cs"
    by (auto simp: file_holds_def)
  with segment_items_frames [OF X, of key "fst p" cs rs
      "segment_reader_open (f_data (snd p)) (fst p) key" "[]"]
  show ?thesis by (simp add: read_segment_def)
qed

lemma read_segments_hold:
  "list_all2 (file_holds X key) fs rss \<Longrightarrow> ext_ok X \<Longrightarrow>
     concat (map (read_segment X key) fs) = map Inr (concat rss)"
  by (induction fs rss rule: list_all2_induct) (simp_all add: read_segment_holds)

lemma sorted_files: "sorted_wrt (<) (map fst fs) \<Longrightarrow> sort_key fst fs = fs" for fs :: "(nat \<times> 'a) list"
  by (intro sort_key_id_if_sorted) (auto intro: strict_sorted_imp_sorted)

lemma wal_items_hold:
  assumes "ext_ok X" "files_hold X key (os_files d) rs"
  shows "wal_items X d key 0 = map Inr rs"
  using assms by (auto simp: wal_items_def files_hold_def sorted_files read_segments_hold)

text \<open>What a crash leaves of one file.\<close>

lemma crash_file_holds:
  assumes X: "ext_ok X" and h: "file_holds X key (i, f) rs" and c: "crash_file f g"
  shows "\<exists>k t. read_segment X key (i, g) = map Inr (take k rs) @ t \<and> torn_tail t \<and>
     (length (f_data f) \<le> f_synced f \<longrightarrow> k = length rs \<and> t = [])"
proof -
  from h obtain cs where cs: "list_all2 (frame X key i) cs rs" "f_data f = concat cs"
    by (auto simp: file_holds_def)
  from c obtain n where n: "f_synced f \<le> n" "f_data g = take n (concat cs)"
    by (auto simp: crash_file_def cs)
  show ?thesis
  proof (cases "length (f_data f) \<le> f_synced f")
    case True
    with n cs have "f_data g = concat cs" by simp
    with cs(1) have "file_holds X key (i, g) rs" by (auto simp: file_holds_def)
    with X show ?thesis
      by (intro exI [of _ "length rs"] exI [of _ "[]"]) (simp add: read_segment_holds)
  next
    case False
    have "prefix (f_data g) (concat cs)"
      by (simp add: n(2) take_is_prefix)
    from prefix_concat_split [OF this] obtain k r where k: "k \<le> length cs"
      "f_data g = concat (take k cs) @ r"
      "if k < length cs then strict_prefix r (cs ! k) else r = []" by blast
    let ?sr = "segment_reader_open (f_data g) i key"
    have "list_all2 (frame X key i) (take k cs) (take k rs)"
      using cs(1) by (rule list_all2_takeI)
    moreover have "r = [] \<or> (\<exists>c q. frame X key i c q \<and> strict_prefix r c)"
      using k cs(1) by (auto split: if_splits dest: list_all2_nthD)
    ultimately obtain t where "segment_items X ?sr = map Inr (take k rs) @ t" "torn_tail t"
      using segment_items_frames [OF X, of key i "take k cs" "take k rs" ?sr r] k(2)
      by auto
    with False show ?thesis
      by (auto simp: read_segment_def)
  qed
qed

end
