(* ===== verification/Wal_Writer.thy ===== *)
theory Wal_Writer
  imports Wal_Reader
begin

text \<open>
  \<^verbatim>\<open>writer.rs\<close>: \<^verbatim>\<open>WalWriter\<close> with its sequence counter, segment rolling, the plain and
  the encrypted write path, the three sync modes and the two checkpoints.

  The invariant \<open>wal_inv X w rs m\<close> says that the segment files hold exactly the records
  \<open>rs\<close> and that the first \<open>m\<close> of them are durable.  The group-commit flusher runs
  \<open>wal_sync\<close> on a timer.  The file handle of the active segment is always present in the
  code, so it is not an option here, and HKDF and AES-GCM encryption do not fail on the
  sizes used.
\<close>

subsection \<open>State\<close>

datatype wal_sync_mode = PerRecord | GroupCommit | NoSync

record wal_writer =
  ww_os :: os
  ww_active_segment :: segment
  ww_sequence :: u64
  ww_segment_max_size :: nat
  ww_next_segment_index :: nat
  ww_sync_mode :: wal_sync_mode
  ww_dirty :: "bool option"
  ww_encryption_key :: "bytes option"

definition lift_os :: "wal_writer \<Rightarrow> os \<times> (wal_error + 'a) \<Rightarrow> wal_writer \<times> (wal_error + 'a)" where
  "lift_os w p = (w\<lparr>ww_os := fst p\<rparr>, snd p)"

definition open_with_options ::
  "ext \<Rightarrow> os \<Rightarrow> nat \<Rightarrow> wal_sync_mode \<Rightarrow> bytes option \<Rightarrow> os \<times> (wal_error + wal_writer)" where
  "open_with_options X d max_size mode key =
     (let existing = list_segments d in
      and_then
        (if existing = [] then
           and_then (segment_create 0 max_size d) (\<lambda>d1 seg. (d1, Inr (seg, 1, 0)))
         else
           let last_idx = last existing in
           and_then (segment_open last_idx max_size False d) (\<lambda>d1 seg.
             (d1, Inr (seg, last_idx + 1,
               case scan_last_sequence_in_segment X d1 last_idx key of
                 Inl _ \<Rightarrow> 0 | Inr s \<Rightarrow> s))))
        (\<lambda>d1 (seg, next_index, last_sequence).
           (d1, Inr \<lparr> ww_os = d1, ww_active_segment = seg, ww_sequence = last_sequence,
              ww_segment_max_size = max_size, ww_next_segment_index = next_index,
              ww_sync_mode = mode,
              ww_dirty = (if mode = GroupCommit then Some False else None),
              ww_encryption_key = key \<rparr>)))"

subsection \<open>Appending\<close>

definition roll_segment :: "wal_writer \<Rightarrow> wal_writer \<times> (wal_error + unit)" where
  "roll_segment w =
     and_then (lift_os w (segment_seal (ww_active_segment w) (ww_os w))) (\<lambda>w1 sealed_seg.
       let w2 = w1\<lparr>ww_active_segment := sealed_seg\<rparr> in
       and_then (lift_os w2 (segment_create (ww_next_segment_index w2) (ww_segment_max_size w2)
                               (ww_os w2))) (\<lambda>w3 new_seg.
         (w3\<lparr>ww_active_segment := new_seg,
             ww_next_segment_index := ww_next_segment_index w3 + 1\<rparr>, Inr ())))"

definition write_active :: "bytes \<Rightarrow> wal_writer \<Rightarrow> wal_writer \<times> (wal_error + unit)" where
  "write_active bs w = lift_os w (write_all (seg_index (ww_active_segment w)) bs (ww_os w))"

definition advance :: "nat \<Rightarrow> wal_writer \<Rightarrow> wal_writer" where
  "advance n w = w\<lparr>ww_active_segment := (ww_active_segment w)
     \<lparr>seg_write_offset := seg_write_offset (ww_active_segment w) + n\<rparr>\<rparr>"

definition write_plaintext ::
  "bytes \<Rightarrow> bytes \<Rightarrow> u32 \<Rightarrow> wal_writer \<Rightarrow> wal_writer \<times> (wal_error + unit)" where
  "write_plaintext header_bytes payload crc w =
     (let record_size = length header_bytes + length payload + 4 in
      and_then (if has_space (ww_active_segment w) record_size then (w, Inr ())
                else roll_segment w) (\<lambda>w1 _.
      and_then (write_active header_bytes w1) (\<lambda>w2 _.
      and_then (write_active payload w2) (\<lambda>w3 _.
      and_then (write_active (u32_le crc) w3) (\<lambda>w4 _.
        (advance record_size w4, Inr ()))))))"

definition seal_blob ::
  "ext \<Rightarrow> bytes \<Rightarrow> bytes \<Rightarrow> wal_writer \<Rightarrow> wal_writer \<times> bytes" where
  "seal_blob X master plaintext w =
     (let (d, nonce) = gen_nonce (ww_os w); i = seg_index (ww_active_segment w)
      in (w\<lparr>ww_os := d\<rparr>, encrypt_record X (derive_segment_key X master i) plaintext i nonce))"

definition write_encrypted ::
  "ext \<Rightarrow> bytes \<Rightarrow> bytes \<Rightarrow> bytes \<Rightarrow> u32 \<Rightarrow> wal_writer \<Rightarrow> wal_writer \<times> (wal_error + unit)" where
  "write_encrypted X master header_bytes payload crc w =
     (let plaintext = header_bytes @ payload @ u32_le crc;
          (w1, blob) = seal_blob X master plaintext w
      in if \<not> has_space (ww_active_segment w1) (length blob) then
           and_then (roll_segment w1) (\<lambda>w2 _.
             let (w3, blob2) = seal_blob X master plaintext w2
             in and_then (write_active blob2 w3) (\<lambda>w4 _. (advance (length blob2) w4, Inr ())))
         else
           and_then (write_active blob w1) (\<lambda>w2 _. (advance (length blob) w2, Inr ())))"

definition sync_active :: "wal_writer \<Rightarrow> wal_writer \<times> (wal_error + unit)" where
  "sync_active w = lift_os w (sync_all (seg_index (ww_active_segment w)) (ww_os w))"

definition sync_after_write :: "wal_writer \<Rightarrow> wal_writer \<times> (wal_error + unit)" where
  "sync_after_write w = (case ww_sync_mode w of
       PerRecord \<Rightarrow> sync_active w
     | GroupCommit \<Rightarrow> (w\<lparr>ww_dirty := map_option (\<lambda>_. True) (ww_dirty w)\<rparr>, Inr ())
     | NoSync \<Rightarrow> (w, Inr ()))"

definition new_header :: "wal_writer \<Rightarrow> u64 \<Rightarrow> record_type \<Rightarrow> bytes \<Rightarrow> record_header" where
  "new_header w tx_id rt payload =
     \<lparr> rh_magic = WAL_MAGIC, rh_version = WAL_VERSION, rh_record_type = record_type_byte rt,
       rh_tx_id = tx_id, rh_sequence = ww_sequence w + 1,
       rh_timestamp_ns = snd (now_ns (ww_os w)), rh_payload_len = of_nat (length payload) \<rparr>"

text \<open>The record that \<^verbatim>\<open>append\<close> builds and, when all goes well, returns.\<close>

definition new_record :: "ext \<Rightarrow> wal_writer \<Rightarrow> u64 \<Rightarrow> record_type \<Rightarrow> bytes \<Rightarrow> wal_record" where
  "new_record X w tx_id rt payload =
     (let h = new_header w tx_id rt payload
      in \<lparr> wr_header = h, wr_payload = payload, wr_crc32 = crc32 X (enc_header X h @ payload) \<rparr>)"

definition wal_append ::
  "ext \<Rightarrow> wal_writer \<Rightarrow> u64 \<Rightarrow> record_type \<Rightarrow> bytes \<Rightarrow> wal_writer \<times> (wal_error + wal_record)" where
  "wal_append X w tx_id rt payload =
     (let r = new_record X w tx_id rt payload;
          w1 = w\<lparr>ww_sequence := ww_sequence w + 1, ww_os := fst (now_ns (ww_os w))\<rparr>;
          header_bytes = enc_header X (wr_header r)
      in and_then
           (case ww_encryption_key w1 of
              Some master \<Rightarrow> write_encrypted X master header_bytes payload (wr_crc32 r) w1
            | None \<Rightarrow> write_plaintext header_bytes payload (wr_crc32 r) w1) (\<lambda>w2 _.
         and_then (sync_after_write w2) (\<lambda>w3 _. (w3, Inr r))))"

subsection \<open>Sync and checkpoints\<close>

definition wal_sync :: "wal_writer \<Rightarrow> wal_writer \<times> (wal_error + unit)" where
  "wal_sync w = (case ww_dirty w of
       Some dirty \<Rightarrow>
         if dirty then and_then (sync_active w) (\<lambda>w1 _. (w1\<lparr>ww_dirty := Some False\<rparr>, Inr ()))
         else (w, Inr ())
     | None \<Rightarrow> sync_active w)"

definition wal_checkpoint :: "wal_writer \<Rightarrow> wal_writer \<times> (wal_error + u64)" where
  "wal_checkpoint w = and_then (wal_sync w) (\<lambda>w1 _. (w1, Inr (ww_sequence w)))"

definition sign_with :: "ext \<Rightarrow> bytes option \<Rightarrow> bytes \<Rightarrow> bytes \<times> bytes" where
  "sign_with X sk msg = (case sk of
       Some k \<Rightarrow> (ed_sign X k msg, ed_public X k)
     | None \<Rightarrow> ([], []))"

definition new_checkpoint :: "ext \<Rightarrow> u64 \<Rightarrow> hash \<Rightarrow> bytes option \<Rightarrow> checkpoint_payload" where
  "new_checkpoint X sq root sk =
     (let (sig, pk) = sign_with X sk (hash_raw root @ le_bytes 8 (unat sq))
      in \<lparr> ck_last_committed_sequence = sq, ck_page_merkle_root = root,
           ck_root_signature = sig, ck_signer_pubkey = pk \<rparr>)"

definition checkpoint_with_merkle_root ::
  "ext \<Rightarrow> wal_writer \<Rightarrow> hash \<Rightarrow> bytes option \<Rightarrow> wal_writer \<times> (wal_error + u64)" where
  "checkpoint_with_merkle_root X w root sk =
     (let sq = ww_sequence w in
      and_then (wal_sync w) (\<lambda>w1 _.
      and_then (wal_append X w1 0 Checkpoint (enc_checkpoint X (new_checkpoint X sq root sk))) (\<lambda>w2 _.
        (w2, Inr sq))))"

end
