(* ===== verification/Wal_Log.thy ===== *)
theory Wal_Log
  imports Wal_Writer
begin

text \<open>
  Correctness of the log: the writer's invariant, what a successful and a failed
  \<^verbatim>\<open>append\<close> leave on disk, and what the reader finds after a crash.
\<close>

subsection \<open>Segment files as a log\<close>

text \<open>The bytes of the last file are frames of \<open>rs\<close>, the last of them possibly torn; the
  first \<open>j\<close> frames are synced.\<close>

definition file_log ::
  "ext \<Rightarrow> bytes option \<Rightarrow> bool \<Rightarrow> nat \<times> wal_file \<Rightarrow> wal_record list \<Rightarrow> nat \<Rightarrow> bool" where
  "file_log X key clean p rs j \<longleftrightarrow> (\<exists>cs. list_all2 (frame X key (fst p)) cs rs \<and>
     prefix (f_data (snd p)) (concat cs) \<and> (clean \<longrightarrow> f_data (snd p) = concat cs) \<and>
     f_synced (snd p) \<le> length (f_data (snd p)) \<and>
     j \<le> length cs \<and> length (concat (take j cs)) \<le> f_synced (snd p))"

definition file_synced :: "nat \<times> wal_file \<Rightarrow> bool" where
  "file_synced p \<longleftrightarrow> f_synced (snd p) = length (f_data (snd p))"

text \<open>The files hold \<open>rs\<close>, its first \<open>m\<close> records durably; with \<open>clean\<close> the last record is
  complete as well.\<close>

definition wal_log ::
  "ext \<Rightarrow> bytes option \<Rightarrow> bool \<Rightarrow> (nat \<times> wal_file) list \<Rightarrow> wal_record list \<Rightarrow> nat \<Rightarrow> bool" where
  "wal_log X key clean fs rs m \<longleftrightarrow> (\<exists>olds p rss l j. fs = olds @ [p] \<and>
     sorted_wrt (<) (map fst fs) \<and> list_all2 (file_holds X key) olds rss \<and>
     (\<forall>q \<in> set olds. file_synced q) \<and> file_log X key clean p l j \<and> rs = concat rss @ l \<and> m \<le> length (concat rss) + j)"

lemma wal_logI:
  assumes "fs = olds @ [p]" "sorted_wrt (<) (map fst fs)" "list_all2 (file_holds X key) olds rss"
    "\<forall>q \<in> set olds. file_synced q" "file_log X key clean p l j"
    "rs = concat rss @ l" "m \<le> length (concat rss) + j"
  shows "wal_log X key clean fs rs m"
  unfolding wal_log_def using assms by blast

lemma wal_logE:
  assumes "wal_log X key clean fs rs m"
  obtains olds p rss l j where "fs = olds @ [p]" "sorted_wrt (<) (map fst fs)"
    "list_all2 (file_holds X key) olds rss" "\<forall>q \<in> set olds. file_synced q"
    "file_log X key clean p l j"
    "rs = concat rss @ l" "m \<le> length (concat rss) + j"
  using assms unfolding wal_log_def by blast

lemma wal_log_mono:
  assumes "wal_log X key c fs rs m" "k \<le> m"
  shows "wal_log X key c fs rs k"
  using assms(1)
proof (elim wal_logE)
  fix olds p rss l j
  assume "fs = olds @ [p]" "sorted_wrt (<) (map fst fs)" "list_all2 (file_holds X key) olds rss"
    "\<forall>q \<in> set olds. file_synced q" "file_log X key c p l j" "rs = concat rss @ l"
    "m \<le> length (concat rss) + j"
  then show ?thesis
    by (intro wal_logI [of fs olds p]) (use assms(2) in auto)
qed

lemma file_log_holds: "file_log X key True p rs j \<Longrightarrow> file_holds X key p rs"
  by (auto simp: file_log_def file_holds_def)

lemma wal_log_clean: "wal_log X key True fs rs m \<Longrightarrow> files_hold X key fs rs"
proof (elim wal_logE)
  fix olds p rss l j
  assume "fs = olds @ [p]" "sorted_wrt (<) (map fst fs)" "list_all2 (file_holds X key) olds rss"
    "file_log X key True p l j" "rs = concat rss @ l"
  then show ?thesis
    unfolding files_hold_def
    by (intro conjI exI [of _ "rss @ [l]"]) (auto intro: list_all2_appendI file_log_holds)
qed

text \<open>The crash of one file in terms of the number of durable frames.\<close>

lemma crash_file_log:
  assumes X: "ext_ok X" and h: "file_log X key cl (i, f) rs j" and c: "crash_file f g"
  shows "\<exists>k t. j \<le> k \<and> k \<le> length rs \<and> read_segment X key (i, g) = map Inr (take k rs) @ t \<and> torn_tail t"
proof -
  from h obtain cs where cs: "list_all2 (frame X key i) cs rs" "prefix (f_data f) (concat cs)"
    and s: "f_synced f \<le> length (f_data f)" "j \<le> length cs" "length (concat (take j cs)) \<le> f_synced f"
    by (auto simp: file_log_def)
  from c obtain n where n: "f_synced f \<le> n" "f_data g = take n (f_data f)"
    by (auto simp: crash_file_def)
  have pg: "prefix (f_data g) (concat cs)"
    using cs(2) n(2) take_is_prefix prefix_order.trans by metis
  have lg: "length (concat (take j cs)) \<le> length (f_data g)"
    using n s by simp
  from prefix_concat_split [OF pg] obtain k r where k: "k \<le> length cs"
    "f_data g = concat (take k cs) @ r"
    "if k < length cs then strict_prefix r (cs ! k) else r = []" by blast
  have jk: "j \<le> k"
  proof (rule ccontr)
    assume "\<not> j \<le> k"
    then have kl: "k < length cs" and j: "Suc k \<le> j" using s(2) by auto
    have "length (f_data g) < length (concat (take k cs)) + length (cs ! k)"
      using k kl by (auto dest: strict_prefix_length)
    also have "\<dots> = length (concat (take (Suc k) cs))"
      using kl by (simp add: take_Suc_conv_app_nth)
    also have "\<dots> \<le> length (concat (take j cs))"
    proof -
      have "take j cs = take (Suc k) cs @ take (j - Suc k) (drop (Suc k) cs)"
        using j by (metis le_add_diff_inverse take_add)
      then show ?thesis by simp
    qed
    finally show False using lg by simp
  qed
  let ?sr = "segment_reader_open (f_data g) i key"
  have "list_all2 (frame X key i) (take k cs) (take k rs)"
    using cs(1) by (rule list_all2_takeI)
  moreover have "r = [] \<or> (\<exists>c q. frame X key i c q \<and> strict_prefix r c)"
    using k cs(1) by (auto split: if_splits dest: list_all2_nthD)
  ultimately obtain t where "segment_items X ?sr = map Inr (take k rs) @ t" "torn_tail t"
    using segment_items_frames [OF X, of key i "take k cs" "take k rs" ?sr r] k(2)
    by auto
  moreover have "k \<le> length rs"
    using k(1) list_all2_lengthD [OF cs(1)] by simp
  ultimately show ?thesis
    using jk by (auto simp: read_segment_def)
qed

lemma crash_file_synced:
  "file_synced (i, f) \<Longrightarrow> crash_file f g \<Longrightarrow> f_data g = f_data f"
  by (auto simp: file_synced_def crash_file_def)

lemma crash_old_files:
  assumes "list_all2 (\<lambda>(i, f) (j, g). i = j \<and> crash_file f g) olds news"
    and "list_all2 (file_holds X key) olds rss" and "\<forall>q \<in> set olds. file_synced q"
  shows "list_all2 (file_holds X key) news rss"
  using assms
proof (induction olds news arbitrary: rss rule: list_all2_induct)
  case (Cons p ps q qs)
  then obtain rs rss' where "rss = rs # rss'" "file_holds X key p rs"
    "list_all2 (file_holds X key) ps rss'"
    by (auto simp: list_all2_Cons1)
  moreover have "fst q = fst p" "f_data (snd q) = f_data (snd p)"
    using Cons by (auto dest: crash_file_synced)
  ultimately show ?case
    using Cons by (simp add: file_holds_def)
qed simp

lemma crash_indices:
  "list_all2 (\<lambda>(i, f) (j, g). i = j \<and> crash_file f g) fs gs \<Longrightarrow> map fst gs = map fst fs"
  by (induction fs gs rule: list_all2_induct) auto

text \<open>After a crash the reader returns a prefix of the log that contains every durable
  record, and then stops without an error or at a truncated record.\<close>

lemma crash_read:
  assumes X: "ext_ok X" and log: "wal_log X key c (os_files d) rs m" and cr: "crash d e"
  shows "\<exists>k t. m \<le> k \<and> k \<le> length rs \<and>
     wal_items X e key 0 = map Inr (take k rs) @ t \<and> torn_tail t"
proof -
  from log obtain olds p rss l j where fs: "os_files d = olds @ [p]"
    "sorted_wrt (<) (map fst (os_files d))" "list_all2 (file_holds X key) olds rss"
    "\<forall>q \<in> set olds. file_synced q" "file_log X key c p l j" "rs = concat rss @ l"
    "m \<le> length (concat rss) + j"
    by (elim wal_logE)
  from cr fs(1) obtain news i f g where e: "os_files e = news @ [(i, g)]" and p: "p = (i, f)"
    and olds: "list_all2 (\<lambda>(i, f) (j, g). i = j \<and> crash_file f g) olds news"
    and cf: "crash_file f g"
    by (auto simp: crash_def list_all2_append1 list_all2_Cons1)
  have "map fst (os_files e) = map fst (os_files d)"
    using cr unfolding crash_def by (rule crash_indices)
  with fs(2) have sorted: "sort_key fst (os_files e) = os_files e"
    by (intro sorted_files) simp
  from crash_file_log [OF X _ cf] fs(5) p obtain k t where k: "j \<le> k" "k \<le> length l"
    "read_segment X key (i, g) = map Inr (take k l) @ t" "torn_tail t" by blast
  have "wal_items X e key 0 = map Inr (concat rss) @ map Inr (take k l) @ t"
    using read_segments_hold [OF crash_old_files [OF olds fs(3,4)] X]
    by (simp add: wal_items_def sorted) (simp add: e k)
  then show ?thesis
    using k fs(6,7) by (intro exI [of _ "length (concat rss) + k"] exI [of _ t]) simp
qed

subsection \<open>Steps on the files\<close>

lemma map_entry_last:
  "sorted_wrt (<) (map fst (olds @ [(i, f)])) \<Longrightarrow>
     AList.map_entry i g (olds @ [(i, f)]) = olds @ [(i, g f)]" for i :: nat
  by (induction olds) auto

lemma concat_take_append: "length (concat (take j (cs @ ds))) \<le> n" if
  "j \<le> length cs" "length (concat (take j cs)) \<le> n"
  using that by simp

lemma file_log_append:
  assumes "file_log X key True (i, f) l j" "frame X key i c r" "prefix q c"
  shows "file_log X key (q = c) (i, file_append q f) (l @ [r]) j"
proof -
  from assms(1) obtain cs where cs: "list_all2 (frame X key i) cs l" "f_data f = concat cs"
    "f_synced f \<le> length (f_data f)" "j \<le> length cs" "length (concat (take j cs)) \<le> f_synced f"
    by (auto simp: file_log_def)
  with assms show ?thesis
    unfolding file_log_def
    by (intro exI [of _ "cs @ [c]"])
      (auto simp: file_append_def intro: list_all2_appendI)
qed

lemma wal_log_append:
  assumes "wal_log X key True (olds @ [(i, f)]) rs m" "frame X key i c r" "prefix q c"
  shows "wal_log X key (q = c) (AList.map_entry i (file_append q) (olds @ [(i, f)])) (rs @ [r]) m"
  using assms(1)
proof (elim wal_logE)
  fix olds' p rss l j
  assume A: "olds @ [(i, f)] = olds' @ [p]" "sorted_wrt (<) (map fst (olds @ [(i, f)]))"
    "list_all2 (file_holds X key) olds' rss" "\<forall>q \<in> set olds'. file_synced q"
    "file_log X key True p l j" "rs = concat rss @ l" "m \<le> length (concat rss) + j"
  then have p: "p = (i, f)" "olds' = olds" by auto
  show ?thesis
    unfolding map_entry_last [OF A(2)]
    by (rule wal_logI [where rss = rss and l = "l @ [r]" and j = j and p = "(i, file_append q f)"
          and olds = olds])
      (use A p file_log_append [OF _ assms(2,3)] in auto)
qed

lemma file_log_sync:
  assumes "file_log X key True (i, f) l j"
  shows "file_log X key True (i, f\<lparr>f_synced := length (f_data f)\<rparr>) l (length l)"
proof -
  from assms obtain cs where "list_all2 (frame X key i) cs l" "f_data f = concat cs"
    by (auto simp: file_log_def)
  then show ?thesis
    unfolding file_log_def by (intro exI [of _ cs]) (auto dest: list_all2_lengthD)
qed

definition mark_synced :: "wal_file \<Rightarrow> wal_file" where
  "mark_synced f = f\<lparr>f_synced := length (f_data f)\<rparr>"

lemma wal_log_sync:
  assumes "wal_log X key True (olds @ [(i, f)]) rs m"
  shows "wal_log X key True (AList.map_entry i mark_synced (olds @ [(i, f)])) rs (length rs)"
  using assms
proof (elim wal_logE)
  fix olds' p rss l j
  assume A: "olds @ [(i, f)] = olds' @ [p]" "sorted_wrt (<) (map fst (olds @ [(i, f)]))"
    "list_all2 (file_holds X key) olds' rss" "\<forall>q \<in> set olds'. file_synced q"
    "file_log X key True p l j" "rs = concat rss @ l" "m \<le> length (concat rss) + j"
  then have p: "p = (i, f)" "olds' = olds" by auto
  show ?thesis
    unfolding map_entry_last [OF A(2)]
    by (rule wal_logI [where rss = rss and l = l and j = "length l" and olds = olds])
      (use A p file_log_sync in \<open>auto simp: mark_synced_def\<close>)
qed

text \<open>A new segment starts empty behind a synced one.\<close>

lemma wal_log_roll:
  assumes "wal_log X key True (olds @ [(i, f)]) rs m" "file_synced (i, f)" "i < n"
  shows "wal_log X key True (olds @ [(i, f)] @ [(n, \<lparr> f_data = [], f_synced = 0 \<rparr>)]) rs (length rs)"
  using assms(1)
proof (elim wal_logE)
  fix olds' p rss l j
  assume A: "olds @ [(i, f)] = olds' @ [p]" "sorted_wrt (<) (map fst (olds @ [(i, f)]))"
    "list_all2 (file_holds X key) olds' rss" "\<forall>q \<in> set olds'. file_synced q"
    "file_log X key True p l j" "rs = concat rss @ l" "m \<le> length (concat rss) + j"
  then have p: "p = (i, f)" "olds' = olds" by auto
  have "sorted_wrt (<) (map fst (olds @ [(i, f)] @ [(n, \<lparr> f_data = [], f_synced = 0 \<rparr>)]))"
    using A(2) assms(3) by (auto simp: sorted_wrt_append)
  moreover have "file_log X key True (n, \<lparr> f_data = [], f_synced = 0 \<rparr>) [] 0"
    by (simp add: file_log_def)
  ultimately show ?thesis
    by (intro wal_logI [where rss = "rss @ [l]" and l = "[]" and j = 0 and olds = "olds @ [(i, f)]"])
      (use A p assms in \<open>auto intro: list_all2_appendI file_log_holds\<close>)
qed

subsection \<open>The writer's invariant\<close>

definition wal_inv :: "ext \<Rightarrow> wal_writer \<Rightarrow> wal_record list \<Rightarrow> nat \<Rightarrow> bool" where
  "wal_inv X w rs m \<longleftrightarrow>
     wal_log X (ww_encryption_key w) True (os_files (ww_os w)) rs m \<and>
     (\<exists>olds f. os_files (ww_os w) = olds @ [(seg_index (ww_active_segment w), f)] \<and>
        seg_write_offset (ww_active_segment w) = length (f_data f)) \<and>
     seg_index (ww_active_segment w) < ww_next_segment_index w"

text \<open>\<open>w'\<close> is \<open>w\<close> after some bytes were written to the active segment.\<close>

definition wrote :: "wal_writer \<Rightarrow> bytes \<Rightarrow> wal_writer \<Rightarrow> bool" where
  "wrote w q w' \<longleftrightarrow> (\<exists>d. w' = w\<lparr>ww_os := d\<rparr> \<and> os_files d =
     AList.map_entry (seg_index (ww_active_segment w)) (file_append q) (os_files (ww_os w)))"

lemma map_entry_append:
  "AList.map_entry i (file_append b) (AList.map_entry i (file_append a) fs) =
     AList.map_entry i (file_append (a @ b)) fs"
  by (induction fs) (auto simp: file_append_def)

lemma map_entry_append_Nil [simp]: "AList.map_entry i (file_append []) fs = fs"
  by (induction fs) (auto simp: file_append_def)

lemma wrote_refl: "wrote w [] w"
  unfolding wrote_def by (intro exI [of _ "ww_os w"]) simp

lemma wrote_fields:
  assumes "wrote w q w'"
  shows "ww_active_segment w' = ww_active_segment w" "ww_encryption_key w' = ww_encryption_key w"
    "ww_next_segment_index w' = ww_next_segment_index w" "ww_sync_mode w' = ww_sync_mode w"
    "ww_sequence w' = ww_sequence w"
  using assms by (auto simp: wrote_def)

lemma wrote_trans: "wrote w a w1 \<Longrightarrow> wrote w1 b w2 \<Longrightarrow> wrote w (a @ b) w2"
  by (auto simp: wrote_def map_entry_append)

lemma io_call_files [simp]: "io_call d = (d', r) \<Longrightarrow> os_files d' = os_files d"
  by (auto simp: io_call_def split: list.splits)

lemma write_active_ok:
  assumes "write_active bs w = (w', Inr ())"
  shows "wrote w bs w'"
proof (cases "bs = []")
  case True
  with assms show ?thesis
    using wrote_refl by (simp add: write_active_def lift_os_def write_all_def)
next
  case False
  with assms show ?thesis
    by (auto simp: write_active_def lift_os_def write_all_def wrote_def on_file_def
        split: prod.splits io_outcome.splits)
qed

lemma strict_prefix_take: "bs \<noteq> [] \<Longrightarrow> strict_prefix (take (min k (length bs - 1)) bs) bs"
proof -
  assume "bs \<noteq> []"
  then have "length (take (min k (length bs - 1)) bs) < length bs" by (cases bs) auto
  then show ?thesis
    by (metis less_irrefl prefix_order.le_imp_less_or_eq take_is_prefix)
qed

lemma write_active_err: "write_active bs w = (w', Inl e) \<Longrightarrow> \<exists>q. strict_prefix q bs \<and> wrote w q w'"
  by (auto simp: write_active_def lift_os_def write_all_def wrote_def on_file_def
      split: if_splits prod.splits io_outcome.splits intro!: exI strict_prefix_take)

lemma wal_inv_wrote:
  assumes inv: "wal_inv X w rs m" and w': "wrote w q w'"
    and c: "frame X (ww_encryption_key w) (seg_index (ww_active_segment w)) c r" and q: "prefix q c"
  shows "wal_log X (ww_encryption_key w') (q = c) (os_files (ww_os w')) (rs @ [r]) m"
    and "q = c \<Longrightarrow> wal_inv X (advance (length c) w') (rs @ [r]) m"
proof -
  let ?i = "seg_index (ww_active_segment w)"
  from inv obtain olds f where fs: "os_files (ww_os w) = olds @ [(?i, f)]"
    and off: "seg_write_offset (ww_active_segment w) = length (f_data f)"
    and log: "wal_log X (ww_encryption_key w) True (olds @ [(?i, f)]) rs m"
    and nxt: "?i < ww_next_segment_index w"
    by (auto simp: wal_inv_def)
  from w' obtain d where d: "w' = w\<lparr>ww_os := d\<rparr>"
    "os_files d = AList.map_entry ?i (file_append q) (olds @ [(?i, f)])"
    by (auto simp: wrote_def fs)
  from wal_log_append [OF log c q] show l: "wal_log X (ww_encryption_key w') (q = c)
      (os_files (ww_os w')) (rs @ [r]) m"
    by (simp add: d)
  have "sorted_wrt (<) (map fst (olds @ [(?i, f)]))"
    using log by (auto elim: wal_logE)
  then have "os_files d = olds @ [(?i, file_append q f)]"
    by (simp add: d(2) map_entry_last)
  then show "wal_inv X (advance (length c) w') (rs @ [r]) m" if "q = c"
    using l that nxt off by (simp add: wal_inv_def d(1) advance_def file_append_def)
qed

lemma wal_inv_mono: "wal_inv X w rs m \<Longrightarrow> k \<le> m \<Longrightarrow> wal_inv X w rs k"
  by (auto simp: wal_inv_def intro: wal_log_mono)

lemma wal_inv_log: "wal_inv X w rs m \<Longrightarrow> wal_log X (ww_encryption_key w) True (os_files (ww_os w)) rs m"
  by (simp add: wal_inv_def)

lemma wal_inv_le: "wal_inv X w rs m \<Longrightarrow> m \<le> length rs"
proof -
  assume "wal_inv X w rs m"
  then have "wal_log X (ww_encryption_key w) True (os_files (ww_os w)) rs m"
    by (rule wal_inv_log)
  then show ?thesis
    by (elim wal_logE) (auto simp: file_log_def dest: list_all2_lengthD)
qed

text \<open>Changing what the log does not depend on.\<close>

lemma wal_inv_cong:
  assumes "wal_inv X w rs m" "os_files (ww_os w') = os_files (ww_os w)"
    "ww_active_segment w' = ww_active_segment w" "ww_next_segment_index w' = ww_next_segment_index w"
    "ww_encryption_key w' = ww_encryption_key w"
  shows "wal_inv X w' rs m"
  using assms by (simp add: wal_inv_def)

lemma sync_active_ok:
  assumes "sync_active w = (w', Inr ())"
  shows "\<exists>d. w' = w\<lparr>ww_os := d\<rparr> \<and> os_files d =
     AList.map_entry (seg_index (ww_active_segment w)) mark_synced (os_files (ww_os w))"
  using assms
  by (auto simp: sync_active_def lift_os_def sync_all_def on_file_def mark_synced_def [abs_def]
      split: prod.splits io_outcome.splits)

lemma sync_active_err:
  assumes "sync_active w = (w', Inl e)"
  shows "\<exists>d. w' = w\<lparr>ww_os := d\<rparr> \<and> os_files d = os_files (ww_os w)"
  using assms
  by (auto simp: sync_active_def lift_os_def sync_all_def split: prod.splits io_outcome.splits)

lemma wal_inv_sync:
  assumes inv: "wal_inv X w rs m" and ok: "sync_active w = (w', Inr ())"
  shows "wal_inv X w' rs (length rs)"
    and "\<exists>olds f. os_files (ww_os w') = olds @ [(seg_index (ww_active_segment w), f)] \<and>
           file_synced (seg_index (ww_active_segment w), f)"
proof -
  let ?i = "seg_index (ww_active_segment w)"
  from inv obtain olds f where fs: "os_files (ww_os w) = olds @ [(?i, f)]"
    and off: "seg_write_offset (ww_active_segment w) = length (f_data f)"
    and log: "wal_log X (ww_encryption_key w) True (olds @ [(?i, f)]) rs m"
    and nxt: "?i < ww_next_segment_index w"
    by (auto simp: wal_inv_def)
  from sync_active_ok [OF ok] obtain d where d: "w' = w\<lparr>ww_os := d\<rparr>"
    "os_files d = AList.map_entry ?i mark_synced (olds @ [(?i, f)])"
    by (auto simp: fs)
  have "sorted_wrt (<) (map fst (olds @ [(?i, f)]))"
    using log by (auto elim: wal_logE)
  then have d': "os_files d = olds @ [(?i, mark_synced f)]"
    by (simp add: d(2) map_entry_last)
  show "wal_inv X w' rs (length rs)"
    using wal_log_sync [OF log] nxt off
    by (simp add: wal_inv_def d(1)) (simp add: d(2) [symmetric], simp add: d' mark_synced_def)
  show "\<exists>olds f. os_files (ww_os w') = olds @ [(?i, f)] \<and> file_synced (?i, f)"
    by (simp add: d(1) d' file_synced_def mark_synced_def)
qed

lemma map_of_fresh: "sorted_wrt (<) (map fst (olds @ [(i, f)])) \<Longrightarrow> i < n \<Longrightarrow>
    map_of (olds @ [(i, f)]) n = None" for i :: nat
  by (force simp: map_of_eq_None_iff sorted_wrt_append)

lemma segment_seal_iff:
  "lift_os w (segment_seal (ww_active_segment w) (ww_os w)) =
     and_then (sync_active w) (\<lambda>w1 _. (w1, Inr ((ww_active_segment w)\<lparr>seg_sealed := True\<rparr>)))"
  by (cases "sync_all (seg_index (ww_active_segment w)) (ww_os w)";
      cases "snd (sync_all (seg_index (ww_active_segment w)) (ww_os w))")
    (auto simp: segment_seal_def sync_active_def lift_os_def)

definition same_config :: "wal_writer \<Rightarrow> wal_writer \<Rightarrow> bool" where
  "same_config w w' \<longleftrightarrow> ww_encryption_key w' = ww_encryption_key w \<and>
     ww_sync_mode w' = ww_sync_mode w \<and> ww_sequence w' = ww_sequence w"

lemma roll_segment_inv:
  assumes inv: "wal_inv X w rs m" and roll: "roll_segment w = (w', res)"
  shows "(res = Inr () \<longrightarrow> wal_inv X w' rs (length rs)) \<and> (\<forall>e. res = Inl e \<longrightarrow> wal_inv X w' rs m) \<and>
     same_config w w'"
proof (cases "sync_active w")
  case (Pair w1 r1)
  show ?thesis
  proof (cases r1)
    case (Inl e)
    with Pair roll have "w' = w1" "res = Inl e"
      by (simp_all add: roll_segment_def segment_seal_iff)
    with sync_active_err Pair Inl inv show ?thesis
      by (fastforce simp: same_config_def intro: wal_inv_cong)
  next
    case (Inr u)
    with Pair have ok: "sync_active w = (w1, Inr ())" by simp
    note inv1 = wal_inv_sync [OF inv ok]
    let ?seg = "(ww_active_segment w)\<lparr>seg_sealed := True\<rparr>"
    let ?w2 = "w1\<lparr>ww_active_segment := ?seg\<rparr>"
    from sync_active_ok [OF ok] have same: "ww_active_segment w1 = ww_active_segment w"
      "same_config w w1" by (auto simp: same_config_def)
    have inv2: "wal_inv X ?w2 rs (length rs)"
      using inv1(1) by (simp add: wal_inv_def same)
    have roll2: "roll_segment w = and_then (lift_os ?w2 (segment_create (ww_next_segment_index ?w2)
        (ww_segment_max_size ?w2) (ww_os ?w2))) (\<lambda>w3 new_seg.
         (w3\<lparr>ww_active_segment := new_seg, ww_next_segment_index := ww_next_segment_index w3 + 1\<rparr>, Inr ()))"
      by (simp add: roll_segment_def segment_seal_iff ok Let_def)
    obtain olds f where fs: "os_files (ww_os w1) = olds @ [(seg_index ?seg, f)]"
      and sy: "file_synced (seg_index ?seg, f)"
      using inv1(2) by auto
    from inv2 have log: "wal_log X (ww_encryption_key w1) True (olds @ [(seg_index ?seg, f)]) rs (length rs)"
      and lt: "seg_index ?seg < ww_next_segment_index w1"
      by (auto simp: wal_inv_def fs)
    from log have "sorted_wrt (<) (map fst (olds @ [(seg_index ?seg, f)]))"
      by (auto elim: wal_logE)
    from map_of_fresh [OF this lt]
    have fresh: "map_of (os_files (ww_os w1)) (ww_next_segment_index w1) = None"
      by (simp add: fs)
    obtain d o' where io: "io_call (ww_os w1) = (d, o')" by force
    show ?thesis
    proof (cases o')
      case IoOk
      with roll roll2 io fresh have w': "res = Inr ()"
        "w' = ?w2\<lparr>ww_os := d\<lparr>os_files := os_files d @ [(ww_next_segment_index w1, \<lparr> f_data = [], f_synced = 0 \<rparr>)]\<rparr>,
           ww_active_segment := \<lparr> seg_index = ww_next_segment_index w1, seg_sealed = False,
             seg_write_offset = 0, seg_max_size = ww_segment_max_size w1 \<rparr>,
           ww_next_segment_index := ww_next_segment_index w1 + 1\<rparr>"
        by (simp_all add: segment_create_def lift_os_def)
      with wal_log_roll [OF log sy lt] io same show ?thesis
        by (auto simp: wal_inv_def fs same_config_def)
    next
      case (IoErr k)
      with roll roll2 io have w': "res = Inl WalIo" "w' = ?w2\<lparr>ww_os := d\<rparr>"
        by (simp_all add: segment_create_def lift_os_def)
      have "wal_inv X w' rs (length rs)"
        by (rule wal_inv_cong [OF inv2]) (use w' io in auto)
      with wal_inv_mono [OF _ wal_inv_le [OF inv]] w' same show ?thesis
        by (auto simp: same_config_def)
    qed
  qed
qed

subsection \<open>Appending one record\<close>

text \<open>The sizes the reader accepts.\<close>

definition payload_fits :: "bytes option \<Rightarrow> bytes \<Rightarrow> bool" where
  "payload_fits key payload \<longleftrightarrow>
     (case key of None \<Rightarrow> length payload \<le> MAX_RECORD_PAYLOAD
      | Some _ \<Rightarrow> HEADER_SIZE + length payload + 4 + 16 \<le> MAX_RECORD_PAYLOAD)"

lemma new_record_simps [simp]:
  "wr_payload (new_record X w tx rt pl) = pl"
  "wr_header (new_record X w tx rt pl) = new_header w tx rt pl"
  by (simp_all add: new_record_def Let_def)

lemma new_record_wf: "payload_fits key pl \<Longrightarrow> record_wf X (new_record X w tx rt pl)"
  by (auto simp: record_wf_def new_record_def new_header_def Let_def payload_fits_def
      split: option.splits)

text \<open>The outcome of writing the record \<open>r\<close> in state \<open>w\<close>: the log grew by \<open>r\<close>, or an error
  left it with \<open>r\<close> missing, torn or complete.\<close>

definition wrote_record ::
  "ext \<Rightarrow> wal_writer \<Rightarrow> wal_record list \<Rightarrow> nat \<Rightarrow> wal_record \<Rightarrow> wal_writer \<times> (wal_error + 'a) \<Rightarrow> bool" where
  "wrote_record X w rs m r p \<longleftrightarrow> same_config w (fst p) \<and>
     (case snd p of
        Inr _ \<Rightarrow> wal_inv X (fst p) (rs @ [r]) m
      | Inl _ \<Rightarrow> wal_log X (ww_encryption_key w) False (os_files (ww_os (fst p))) (rs @ [r]) m)"

lemma same_config_trans: "same_config w w1 \<Longrightarrow> same_config w1 w2 \<Longrightarrow> same_config w w2"
  by (simp add: same_config_def)

lemma wrote_same_config: "wrote w q w' \<Longrightarrow> same_config w w'"
  by (auto simp: same_config_def dest: wrote_fields)

lemma same_config_advance [simp]: "same_config w (advance n w') = same_config w w'"
  by (simp add: same_config_def advance_def)

lemma wrote_record_full:
  assumes "wal_inv X w rs m" "frame X (ww_encryption_key w) (seg_index (ww_active_segment w)) c r"
    "wrote w c w'"
  shows "wrote_record X w rs m r (advance (length c) w', Inr ())"
  using assms wal_inv_wrote(2) [OF assms(1,3,2)] wrote_same_config
  by (simp add: wrote_record_def)

lemma wal_log_weaken: "wal_log X key True fs rs m \<Longrightarrow> wal_log X key c fs rs m"
  by (elim wal_logE, rule wal_logI) (auto simp: file_log_def)

lemma wrote_record_part:
  assumes "wal_inv X w rs m" "frame X (ww_encryption_key w) (seg_index (ww_active_segment w)) c r"
    "wrote w q w'" "prefix q c"
  shows "wrote_record X w rs m r (w', Inl e)"
  using wal_inv_wrote(1) [OF assms(1,3,2,4)] wrote_same_config [OF assms(3)]
  by (cases "q = c") (auto simp: wrote_record_def same_config_def intro: wal_log_weaken)

lemma wrote_record_after:
  assumes "same_config w0 w" "wrote_record X w rs m r p" "k \<le> m"
  shows "wrote_record X w0 rs k r p"
  using assms
  by (auto simp: wrote_record_def same_config_def intro: wal_inv_mono wal_log_mono split: sum.splits)

text \<open>One \<^verbatim>\<open>write_all\<close> inside a frame, with the rest of the frame to follow.\<close>

lemma write_next:
  assumes inv: "wal_inv X w rs m"
    and c: "frame X (ww_encryption_key w) (seg_index (ww_active_segment w)) (a @ b @ rest) r"
    and w1: "wrote w a w1"
    and cont: "\<And>w'. wrote w (a @ b) w' \<Longrightarrow> wrote_record X w rs m r (k w')"
  shows "wrote_record X w rs m r (and_then (write_active b w1) (\<lambda>w' _. k w'))"
proof -
  obtain w2 res where 2: "write_active b w1 = (w2, res)" by force
  show ?thesis
  proof (cases res)
    case (Inl e)
    with 2 write_active_err obtain q where q: "strict_prefix q b" "wrote w1 q w2" by blast
    from wrote_record_part [OF inv c wrote_trans [OF w1 q(2)]] q(1)
    have "wrote_record X w rs m r (w2, Inl e)"
      by (simp add: strict_prefix_def prefix_prefix)
    with 2 Inl show ?thesis by simp
  next
    case (Inr u)
    with 2 have "wrote w1 b w2" by (simp add: write_active_ok)
    with cont [OF wrote_trans [OF w1]] 2 Inr show ?thesis by simp
  qed
qed

lemma write_pieces:
  assumes inv: "wal_inv X w rs m"
    and c: "frame X (ww_encryption_key w) (seg_index (ww_active_segment w)) (hb @ pl @ crc) r"
  shows "wrote_record X w rs m r
     (and_then (write_active hb w) (\<lambda>w2 _. and_then (write_active pl w2) (\<lambda>w3 _.
        and_then (write_active crc w3) (\<lambda>w4 _.
          (advance (length (hb @ pl @ crc)) w4, Inr ())))))"
  by (rule write_next [OF inv, of "[]" hb "pl @ crc"], simp add: c, rule wrote_refl,
      rule write_next [OF inv, of hb pl crc], simp add: c, simp,
      rule write_next [OF inv, of "hb @ pl" crc "[]"], simp add: c, simp,
      rule wrote_record_full [OF inv c], simp)

lemma roll_then_write:
  assumes inv: "wal_inv X w rs m"
    and frm: "\<And>i. \<exists>c. frame X (ww_encryption_key w) i c r"
    and cont: "\<And>w1 k. same_config w w1 \<Longrightarrow> wal_inv X w1 rs k \<Longrightarrow> wrote_record X w1 rs k r (f w1)"
  shows "wrote_record X w rs m r (and_then (roll_segment w) (\<lambda>w1 _. f w1))"
proof -
  obtain w1 res where roll: "roll_segment w = (w1, res)" by force
  note ri = roll_segment_inv [OF inv roll]
  show ?thesis
  proof (cases res)
    case (Inl e)
    with ri have w1: "wal_inv X w1 rs m" "same_config w w1" by auto
    from frm obtain c where "frame X (ww_encryption_key w1) (seg_index (ww_active_segment w1)) c r"
      using w1(2) by (auto simp: same_config_def)
    from wrote_record_part [OF w1(1) this wrote_refl]
    have "wrote_record X w1 rs m r (w1, Inl e)" by simp
    from wrote_record_after [OF w1(2) this order_refl]
    have "wrote_record X w rs m r (w1, Inl e)" .
    with roll Inl show ?thesis by simp
  next
    case (Inr u)
    with ri have w1: "wal_inv X w1 rs (length rs)" "same_config w w1" by auto
    from wrote_record_after [OF w1(2) cont [OF w1(2,1)] wal_inv_le [OF inv]] roll Inr
    show ?thesis by simp
  qed
qed

lemma plain_frame_record: "record_wf X r \<Longrightarrow>
    frame X k i (enc_header X (wr_header r) @ wr_payload r @ u32_le (wr_crc32 r)) r"
  by (simp add: frame_def plain_frame_def record_bytes_def)

lemma write_plaintext_record:
  assumes inv: "wal_inv X w rs m" and wf: "record_wf X r"
  shows "wrote_record X w rs m r (write_plaintext (enc_header X (wr_header r)) (wr_payload r) (wr_crc32 r) w)"
proof -
  let ?hb = "enc_header X (wr_header r)"
  let ?size = "length ?hb + length (wr_payload r) + 4"
  define pieces where "pieces w1 = and_then (write_active ?hb w1) (\<lambda>w2 _.
      and_then (write_active (wr_payload r) w2) (\<lambda>w3 _.
      and_then (write_active (u32_le (wr_crc32 r)) w3) (\<lambda>w4 _. (advance ?size w4, Inr ()))))" for w1
  have pieces: "wrote_record X w1 rs k r (pieces w1)" if "wal_inv X w1 rs k" for w1 k
    using write_pieces [OF that plain_frame_record [OF wf]] by (simp add: pieces_def add.assoc)
  have "write_plaintext ?hb (wr_payload r) (wr_crc32 r) w =
     (if has_space (ww_active_segment w) ?size then pieces w
      else and_then (roll_segment w) (\<lambda>w1 _. pieces w1))"
    by (simp add: write_plaintext_def Let_def pieces_def)
  moreover have "wrote_record X w rs m r (and_then (roll_segment w) (\<lambda>w1 _. pieces w1))"
    by (rule roll_then_write [OF inv]) (use plain_frame_record [OF wf] pieces in blast)+
  ultimately show ?thesis
    using pieces [OF inv] by simp
qed

lemma seal_blob_frame:
  assumes "wal_inv X w rs m" "record_wf X r" "ww_encryption_key w = Some master"
    and "length (record_bytes X r) + 16 \<le> MAX_RECORD_PAYLOAD"
    and "seal_blob X master (record_bytes X r) w = (w', blob)"
  shows "frame X (ww_encryption_key w') (seg_index (ww_active_segment w')) blob r"
    and "wal_inv X w' rs m" and "same_config w w'" and "ww_active_segment w' = ww_active_segment w"
proof -
  let ?i = "seg_index (ww_active_segment w)"
  have w': "w' = w\<lparr>ww_os := fst (gen_nonce (ww_os w))\<rparr>"
    and blob: "blob = encrypt_record X (derive_segment_key X master ?i) (record_bytes X r) ?i
      (snd (gen_nonce (ww_os w)))"
    using assms(5) by (auto simp: seal_blob_def Let_def split: prod.splits)
  show "frame X (ww_encryption_key w') (seg_index (ww_active_segment w')) blob r"
  proof -
    have "sealed_frame X master ?i blob r"
      unfolding sealed_frame_def using assms(2,4) blob
      by (intro conjI exI [of _ "snd (gen_nonce (ww_os w))"]) simp_all
    then show ?thesis
      using assms(3) by (auto simp: frame_def w')
  qed
  show "wal_inv X w' rs m"
    by (rule wal_inv_cong [OF assms(1)]) (simp_all add: w' gen_nonce_def)
  show "same_config w w'" "ww_active_segment w' = ww_active_segment w"
    by (simp_all add: w' same_config_def)
qed

lemma write_encrypted_record:
  assumes inv: "wal_inv X w rs m" and wf: "record_wf X r" and key: "ww_encryption_key w = Some master"
    and fits: "length (record_bytes X r) + 16 \<le> MAX_RECORD_PAYLOAD"
  shows "wrote_record X w rs m r
     (write_encrypted X master (enc_header X (wr_header r)) (wr_payload r) (wr_crc32 r) w)"
proof -
  define put where "put w1 blob = and_then (write_active blob w1)
      (\<lambda>w2 _. (advance (length blob) w2, Inr ()))" for w1 blob
  have put: "wrote_record X w1 rs k r (put w1 blob)"
    if "wal_inv X w1 rs k" "frame X (ww_encryption_key w1) (seg_index (ww_active_segment w1)) blob r"
    for w1 k blob
    unfolding put_def
    by (rule write_next [OF that(1), of "[]" blob "[]"])
      (use that(2) wrote_refl wrote_record_full [OF that] in auto)
  define seal where "seal w1 = (case seal_blob X master (record_bytes X r) w1 of (w2, b) \<Rightarrow> put w2 b)" for w1
  have seal: "wrote_record X w1 rs k r (seal w1)" if "same_config w w1" "wal_inv X w1 rs k" for w1 k
  proof -
    obtain w2 b where b: "seal_blob X master (record_bytes X r) w1 = (w2, b)" by force
    have k1: "ww_encryption_key w1 = Some master" using that key by (simp add: same_config_def)
    note sb = seal_blob_frame [OF that(2) wf k1 fits b]
    from wrote_record_after [OF sb(3) put [OF sb(2,1)]] b show ?thesis
      by (simp add: seal_def)
  qed
  obtain w1 b where b: "seal_blob X master (record_bytes X r) w = (w1, b)" by force
  note sb = seal_blob_frame [OF inv wf key fits b]
  have we: "write_encrypted X master (enc_header X (wr_header r)) (wr_payload r) (wr_crc32 r) w =
     (if \<not> has_space (ww_active_segment w1) (length b)
      then and_then (roll_segment w1) (\<lambda>w2 _. seal w2) else put w1 b)"
    using b by (simp add: write_encrypted_def Let_def record_bytes_def seal_def put_def)
  have "wrote_record X w1 rs m r (and_then (roll_segment w1) (\<lambda>w2 _. seal w2))"
    using roll_then_write [OF sb(2), of r seal] seal same_config_trans [OF sb(3)]
      plain_frame_record [OF wf] by blast
  with put [OF sb(2,1)] have "wrote_record X w1 rs m r
      (write_encrypted X master (enc_header X (wr_header r)) (wr_payload r) (wr_crc32 r) w)"
    by (simp add: we)
  from wrote_record_after [OF sb(3) this] show ?thesis by simp
qed

text \<open>The effect of \<^verbatim>\<open>append\<close> on the log, for both outcomes.\<close>

definition durable_after :: "wal_writer \<Rightarrow> wal_record list \<Rightarrow> nat \<Rightarrow> nat" where
  "durable_after w rs m = (if ww_sync_mode w = PerRecord then Suc (length rs) else m)"

lemma sync_after_write_record:
  assumes inv: "wal_inv X w (rs @ [r]) m" and s: "sync_after_write w = (w', res)"
  shows "same_config w w' \<and> (res = Inr () \<longrightarrow> wal_inv X w' (rs @ [r]) (durable_after w rs m)) \<and>
     (\<forall>e. res = Inl e \<longrightarrow> wal_inv X w' (rs @ [r]) m)"
proof (cases "ww_sync_mode w")
  case PerRecord
  with s have sa: "sync_active w = (w', res)" by (simp add: sync_after_write_def)
  show ?thesis
  proof (cases res)
    case (Inl e)
    with sync_active_err sa obtain d where d: "w' = w\<lparr>ww_os := d\<rparr>" "os_files d = os_files (ww_os w)"
      by blast
    have "wal_inv X w' (rs @ [r]) m" by (rule wal_inv_cong [OF inv]) (simp_all add: d)
    with Inl d show ?thesis by (simp add: same_config_def)
  next
    case (Inr u)
    with sa have sa: "sync_active w = (w', Inr ())" by simp
    from wal_inv_sync(1) [OF inv sa] sync_active_ok [OF sa] Inr PerRecord show ?thesis
      by (auto simp: same_config_def durable_after_def)
  qed
next
  case GroupCommit
  with s have w': "w' = w\<lparr>ww_dirty := map_option (\<lambda>_. True) (ww_dirty w)\<rparr>" "res = Inr ()"
    by (simp_all add: sync_after_write_def)
  have "wal_inv X w' (rs @ [r]) m" by (rule wal_inv_cong [OF inv]) (simp_all add: w')
  with w' GroupCommit show ?thesis by (simp add: same_config_def durable_after_def)
next
  case NoSync
  with s inv show ?thesis by (auto simp: sync_after_write_def same_config_def durable_after_def)
qed

lemma wal_append_record:
  assumes X: "ext_ok X" and inv: "wal_inv X w rs m" and fits: "payload_fits (ww_encryption_key w) pl"
    and app: "wal_append X w tx rt pl = (w', res)"
  defines "r \<equiv> new_record X w tx rt pl"
  shows "ww_encryption_key w' = ww_encryption_key w" and "ww_sync_mode w' = ww_sync_mode w"
    and "ww_sequence w' = ww_sequence w + 1"
    and "\<And>x. res = Inr x \<Longrightarrow> x = r \<and> wal_inv X w' (rs @ [r]) (durable_after w rs m)"
    and "\<And>e. res = Inl e \<Longrightarrow>
           wal_log X (ww_encryption_key w) False (os_files (ww_os w')) (rs @ [r]) m"
proof -
  let ?w1 = "w\<lparr>ww_sequence := ww_sequence w + 1, ww_os := fst (now_ns (ww_os w))\<rparr>"
  define p where "p = (case ww_encryption_key w of
      Some master \<Rightarrow> write_encrypted X master (enc_header X (wr_header r)) (wr_payload r) (wr_crc32 r) ?w1
    | None \<Rightarrow> write_plaintext (enc_header X (wr_header r)) (wr_payload r) (wr_crc32 r) ?w1)"
  have app': "and_then p (\<lambda>w2 _. and_then (sync_after_write w2) (\<lambda>w3 _. (w3, Inr r))) = (w', res)"
    using app unfolding wal_append_def p_def r_def Let_def new_record_simps(1) by simp
  have inv1: "wal_inv X ?w1 rs m"
    by (rule wal_inv_cong [OF inv]) (simp_all add: now_ns_def)
  have wf: "record_wf X r"
    using new_record_wf [OF fits] by (simp add: r_def)
  have p: "wrote_record X ?w1 rs m r p"
  proof (cases "ww_encryption_key w")
    case None
    with write_plaintext_record [OF inv1 wf] show ?thesis by (simp add: p_def)
  next
    case (Some master)
    with fits X have "length (record_bytes X r) + 16 \<le> MAX_RECORD_PAYLOAD"
      by (simp add: payload_fits_def r_def length_record_bytes)
    with write_encrypted_record [OF inv1 wf, of master] Some show ?thesis by (simp add: p_def)
  qed
  obtain w2 r2 where p2: "p = (w2, r2)" by force
  have "same_config ?w1 w' \<and> (\<forall>x. res = Inr x \<longrightarrow> x = r \<and> wal_inv X w' (rs @ [r]) (durable_after w rs m)) \<and>
     (\<forall>e. res = Inl e \<longrightarrow> wal_log X (ww_encryption_key w) False (os_files (ww_os w')) (rs @ [r]) m)"
  proof (cases r2)
    case (Inl e)
    with app' p2 p show ?thesis by (auto simp: wrote_record_def)
  next
    case (Inr u)
    with p p2 have inv2: "wal_inv X w2 (rs @ [r]) m" and c2: "same_config ?w1 w2"
      by (simp_all add: wrote_record_def)
    obtain w3 r3 where s: "sync_after_write w2 = (w3, r3)" by force
    have w3: "w' = w3" "res = (case r3 of Inl e \<Rightarrow> Inl e | Inr _ \<Rightarrow> Inr r)"
      using app' unfolding p2 Inr by (cases r3; simp add: s)+
    note sa = sync_after_write_record [OF inv2 s]
    have d: "durable_after w2 rs m = durable_after w rs m"
      using c2 by (simp add: durable_after_def same_config_def)
    have key: "ww_encryption_key w3 = ww_encryption_key w"
      using sa c2 by (simp add: same_config_def)
    show ?thesis
    proof (cases r3)
      case (Inl e)
      with sa have "wal_inv X w3 (rs @ [r]) m" by simp
      from wal_log_weaken [OF wal_inv_log [OF this]] sa w3 Inl c2 key show ?thesis
        by (auto intro: same_config_trans)
    next
      case (Inr u)
      with sa w3 c2 d show ?thesis by (auto intro: same_config_trans)
    qed
  qed
  then show "ww_encryption_key w' = ww_encryption_key w" and "ww_sync_mode w' = ww_sync_mode w"
    and "ww_sequence w' = ww_sequence w + 1"
    and "\<And>x. res = Inr x \<Longrightarrow> x = r \<and> wal_inv X w' (rs @ [r]) (durable_after w rs m)"
    and "\<And>e. res = Inl e \<Longrightarrow>
           wal_log X (ww_encryption_key w) False (os_files (ww_os w')) (rs @ [r]) m"
    by (simp_all add: same_config_def)
qed

end
