(* ===== verification/Append_Log.thy ===== *)
theory Append_Log
  imports Prelude
begin

text \<open>
  The contract of an append-only log on a medium that may fail and crash, and what a
  client that appends a batch of records can rely on.
\<close>

fun app_all :: "('w \<Rightarrow> 'a \<Rightarrow> 'w \<times> ('e + 'r)) \<Rightarrow> 'w \<Rightarrow> 'a list \<Rightarrow> 'w \<times> ('e + 'r list)" where
  "app_all app w [] = (w, Inr [])"
| "app_all app w (a # as) =
     and_then (app w a) (\<lambda>w' r. and_then (app_all app w' as) (\<lambda>w'' rs. (w'', Inr (r # rs))))"

text \<open>The records acknowledged before the first error.\<close>

fun acked :: "('w \<Rightarrow> 'a \<Rightarrow> 'w \<times> ('e + 'r)) \<Rightarrow> 'w \<Rightarrow> 'a list \<Rightarrow> 'r list" where
  "acked app w [] = []"
| "acked app w (a # as) = (case app w a of (w', Inl e) \<Rightarrow> [] | (w', Inr r) \<Rightarrow> r # acked app w' as)"

lemma acked_all: "app_all app w as = (w', Inr rs) \<Longrightarrow> acked app w as = rs"
  by (induction as arbitrary: w rs) (auto simp: and_then_Inr_iff)

lemma app_all_length: "app_all app w as = (w', Inr rs) \<Longrightarrow> length rs = length as"
  by (induction as arbitrary: w rs) (auto simp: and_then_Inr_iff)

lemma app_all_append:
  "app_all app w (xs @ ys) = and_then (app_all app w xs) (\<lambda>w1 rs.
     and_then (app_all app w1 ys) (\<lambda>w2 us. (w2, Inr (rs @ us))))"
proof (induction xs arbitrary: w)
  case Nil
  show ?case by (cases "app_all app w ys"; cases "snd (app_all app w ys)") auto
next
  case (Cons x xs)
  obtain w1 r1 where 1: "app w x = (w1, r1)" by force
  obtain w2 r2 where 2: "app_all app w1 xs = (w2, r2)" by force
  obtain w3 r3 where 3: "app_all app w2 ys = (w3, r3)" by force
  show ?case
    using Cons.IH [of w1] 1 2 3 by (cases r1; cases r2; cases r3) simp_all
qed

text \<open>
  \<open>inv w rs m\<close>: the log holds \<open>rs\<close>, the first \<open>m\<close> durably.  \<open>crashed w c\<close>: a crash in state \<open>w\<close> may
  leave the medium \<open>c\<close>, where a reader finds \<open>ks\<close> when \<open>reads w c ks\<close>.  \<open>made a r\<close>: the record \<open>r\<close> was made from the argument \<open>a\<close>.
\<close>

locale append_log =
  fixes app :: "'w \<Rightarrow> 'a \<Rightarrow> 'w \<times> ('e + 'r)"
    and inv :: "'w \<Rightarrow> 'r list \<Rightarrow> nat \<Rightarrow> bool"
    and crashed :: "'w \<Rightarrow> 'c \<Rightarrow> bool"
    and reads :: "'w \<Rightarrow> 'c \<Rightarrow> 'r list \<Rightarrow> bool"
    and fits :: "'w \<Rightarrow> 'a \<Rightarrow> bool"
    and made :: "'a \<Rightarrow> 'r \<Rightarrow> bool"
    and sync :: "'w \<Rightarrow> bool"
  assumes app_ok: "inv w rs m \<Longrightarrow> fits w a \<Longrightarrow> app w a = (w', Inr r) \<Longrightarrow>
      made a r \<and> inv w' (rs @ [r]) (if sync w then Suc (length rs) else m)"
    and app_err: "inv w rs m \<Longrightarrow> fits w a \<Longrightarrow> app w a = (w', Inl e) \<Longrightarrow>
      \<exists>r. made a r \<and>
        (\<forall>c. crashed w' c \<longrightarrow> (\<exists>ks. reads w' c ks \<and> prefix ks (rs @ [r]) \<and> m \<le> length ks))"
    and app_same: "inv w rs m \<Longrightarrow> fits w a \<Longrightarrow> app w a = (w', res) \<Longrightarrow>
      fits w' = fits w \<and> sync w' = sync w"
    and inv_crashed: "inv w rs m \<Longrightarrow> crashed w c \<Longrightarrow>
      \<exists>ks. reads w c ks \<and> prefix ks rs \<and> m \<le> length ks"
    and inv_durable: "inv w rs m \<Longrightarrow> m \<le> length rs"
    and inv_mono: "inv w rs m \<Longrightarrow> k \<le> m \<Longrightarrow> inv w rs k"
begin

lemma app_all_ok:
  assumes "inv w rs m" "\<forall>a \<in> set as. fits w a" "app_all app w as = (w', Inr ts)"
  shows "list_all2 made as ts \<and> inv w' (rs @ ts) m \<and>
     (sync w \<and> as \<noteq> [] \<longrightarrow> inv w' (rs @ ts) (length (rs @ ts))) \<and> fits w' = fits w \<and> sync w' = sync w"
  using assms
proof (induction as arbitrary: w rs m ts)
  case Nil
  then show ?case by simp
next
  case (Cons a as)
  from Cons.prems(3) obtain w1 r ts' where 1: "app w a = (w1, Inr r)"
    and rest: "app_all app w1 as = (w', Inr ts')" and ts: "ts = r # ts'"
    by (auto simp: and_then_Inr_iff)
  let ?m = "if sync w then Suc (length rs) else m"
  have made: "made a r" and inv1: "inv w1 (rs @ [r]) ?m"
    using app_ok [OF Cons.prems(1) _ 1] Cons.prems(2) by simp_all
  have same: "fits w1 = fits w" "sync w1 = sync w"
    using app_same [OF Cons.prems(1) _ 1] Cons.prems(2) by simp_all
  from Cons.IH [OF inv1 _ rest] Cons.prems(2) same
  have IH: "list_all2 made as ts'" "inv w' (rs @ ts) ?m"
    "sync w \<and> as \<noteq> [] \<longrightarrow> inv w' (rs @ ts) (length (rs @ ts))" "fits w' = fits w" "sync w' = sync w"
    by (simp_all add: ts)
  have "inv w' (rs @ ts) m"
    using inv_mono [OF IH(2)] inv_durable [OF Cons.prems(1)] by simp
  moreover have "inv w' (rs @ ts) (length (rs @ ts))" if "sync w"
    using IH(1-3) that ts by (cases "as = []") simp_all
  ultimately show ?case
    using made IH ts by simp
qed

lemma prefix_of_long: "prefix ks (xs @ ys) \<Longrightarrow> length xs \<le> length ks \<Longrightarrow> prefix xs ks"
  by (metis prefix_length_prefix prefixI)

text \<open>
  Whatever stops the batch, a reader finds a prefix of the log and the batch, and when every append
  is synced everything that was acknowledged.
\<close>

lemma app_all_crashed:
  assumes "inv w rs m" "\<forall>a \<in> set as. fits w a" "app_all app w as = (w', res)" "crashed w' c"
  shows "\<exists>ks ts. reads w' c ks \<and> prefix ks (rs @ ts) \<and> m \<le> length ks \<and>
     length ts \<le> length as \<and> list_all2 made (take (length ts) as) ts \<and>
     (sync w \<and> m = length rs \<longrightarrow> prefix (rs @ acked app w as) ks)"
  using assms
proof (induction as arbitrary: w rs m res)
  case Nil
  with inv_crashed obtain ks where "reads w' c ks" "prefix ks rs" "m \<le> length ks"
    by fastforce
  then show ?case using prefix_of_long [of ks rs "[]"] by (intro exI [of _ ks] exI [of _ "[]"]) simp
next
  case (Cons a as)
  obtain w1 r1 where 1: "app w a = (w1, r1)" by force
  have fits: "fits w a" using Cons.prems(2) by simp
  show ?case
  proof (cases r1)
    case (Inl e)
    with 1 Cons.prems(3) have "w' = w1" by simp
    with app_err [OF Cons.prems(1) fits] 1 Inl Cons.prems(4) obtain r ks where
      "made a r" "reads w' c ks" "prefix ks (rs @ [r])" "m \<le> length ks" by blast
    with 1 Inl prefix_of_long [of ks rs "[r]"] show ?thesis by (intro exI [of _ ks] exI [of _ "[r]"]) simp
  next
    case (Inr r)
    with 1 have 1: "app w a = (w1, Inr r)" by simp
    have made: "made a r" and inv1: "inv w1 (rs @ [r]) (if sync w then Suc (length rs) else m)"
      using app_ok [OF Cons.prems(1) fits 1] by auto
    let ?m = "if sync w then Suc (length rs) else m"
    have m: "m \<le> ?m" using inv_durable [OF Cons.prems(1)] by simp
    note inv1
    moreover have same: "fits w1 = fits w" "sync w1 = sync w"
      using app_same [OF Cons.prems(1) fits 1] by simp_all
    moreover obtain res' where "app_all app w1 as = (w', res')"
      using Cons.prems(3) 1 by (cases "app_all app w1 as"; cases "snd (app_all app w1 as)") auto
    ultimately obtain ks ts where "reads w' c ks" "prefix ks ((rs @ [r]) @ ts)" "?m \<le> length ks"
      "length ts \<le> length as" "list_all2 made (take (length ts) as) ts"
      "sync w1 \<and> ?m = length (rs @ [r]) \<longrightarrow> prefix ((rs @ [r]) @ acked app w1 as) ks"
      using Cons.IH [of w1 "rs @ [r]" ?m] Cons.prems(2,4) by (metis list.set_intros(2))
    with made m 1 same show ?thesis by (intro exI [of _ ks] exI [of _ "r # ts"]) simp
  qed
qed

end

end
