(* ===== verification/Wal_Props.thy ===== *)
theory Wal_Props
  imports Wal_Log Append_Log
begin

text \<open>
  The write-ahead log as a crash-safe append-only log: the writer and the reader together
  meet the contract of \<open>Append_Log\<close>, and the end-to-end properties of a log that starts
  empty.
\<close>

subsection \<open>The contract\<close>

text \<open>An append request: transaction, record type, payload.\<close>

type_synonym append_req = "u64 \<times> record_type \<times> bytes"

definition append_req :: "ext \<Rightarrow> wal_writer \<Rightarrow> append_req \<Rightarrow> wal_writer \<times> (wal_error + wal_record)" where
  "append_req X w a = (case a of (tx, rt, payload) \<Rightarrow> wal_append X w tx rt payload)"

definition req_of :: "wal_record \<Rightarrow> u64 \<times> byte \<times> bytes" where
  "req_of r = (rh_tx_id (wr_header r), rh_record_type (wr_header r), wr_payload r)"

definition made_from :: "append_req \<Rightarrow> wal_record \<Rightarrow> bool" where
  "made_from a r \<longleftrightarrow> req_of r = (fst a, record_type_byte (fst (snd a)), snd (snd a))"

definition reads_back :: "ext \<Rightarrow> wal_writer \<Rightarrow> os \<Rightarrow> wal_record list \<Rightarrow> bool" where
  "reads_back X w e ks \<longleftrightarrow>
     (\<exists>t. wal_items X e (ww_encryption_key w) 0 = map Inr ks @ t \<and> torn_tail t)"

lemma made_from_new_record: "made_from (tx, rt, pl) (new_record X w tx rt pl)"
  by (simp add: made_from_def req_of_def new_header_def)

lemma crash_reads_back:
  assumes "ext_ok X" "wal_log X (ww_encryption_key w) c (os_files (ww_os w)) rs m" "crash (ww_os w) e"
  shows "\<exists>ks. reads_back X w e ks \<and> prefix ks rs \<and> m \<le> length ks"
proof -
  from crash_read [OF assms] obtain k t where "m \<le> k" "k \<le> length rs" "torn_tail t"
    "wal_items X e (ww_encryption_key w) 0 = map Inr (take k rs) @ t" by blast
  then show ?thesis
    unfolding reads_back_def by (intro exI [of _ "take k rs"]) (auto simp: take_is_prefix)
qed

interpretation wal: append_log "append_req X"
  "\<lambda>w rs m. ext_ok X \<and> wal_inv X w rs m" "\<lambda>w. crash (ww_os w)" "reads_back X"
  "\<lambda>w a. payload_fits (ww_encryption_key w) (snd (snd a))" made_from
  "\<lambda>w. ww_sync_mode w = PerRecord" for X
proof (unfold_locales, goal_cases)
  case (1 w rs m a w' r)
  obtain tx rt pl where a: "a = (tx, rt, pl)" by (metis prod_cases3)
  from 1 a wal_append_record(4) [of X w rs m pl tx rt w' "Inr r"] made_from_new_record
  show ?case by (auto simp: append_req_def durable_after_def)
next
  case (2 w rs m a w' e)
  obtain tx rt pl where a: "a = (tx, rt, pl)" by (metis prod_cases3)
  have app: "wal_append X w tx rt pl = (w', Inl e)" using 2 a by (simp add: append_req_def)
  have fits: "payload_fits (ww_encryption_key w) pl" using 2 a by simp
  note ar = wal_append_record [OF conjunct1 [OF 2(1)] conjunct2 [OF 2(1)] fits app]
  show ?case
  proof (intro exI [of _ "new_record X w tx rt pl"] conjI allI impI)
    show "made_from a (new_record X w tx rt pl)" using a made_from_new_record by simp
    fix e assume "crash (ww_os w') e"
    moreover have "wal_log X (ww_encryption_key w') False (os_files (ww_os w'))
        (rs @ [new_record X w tx rt pl]) m"
      using ar(1,5) by simp
    ultimately show "\<exists>ks. reads_back X w' e ks \<and> prefix ks (rs @ [new_record X w tx rt pl]) \<and>
        m \<le> length ks"
      using crash_reads_back 2(1) by blast
  qed
next
  case (3 w rs m a w' res)
  obtain tx rt pl where a: "a = (tx, rt, pl)" by (metis prod_cases3)
  from 3 a wal_append_record(1,2) [of X w rs m pl tx rt w' res] show ?case
    by (simp add: append_req_def)
next
  case (4 w rs m e)
  then show ?case using crash_reads_back wal_inv_log by blast
next
  case (5 w rs m)
  then show ?case using wal_inv_le by blast
next
  case (6 w rs m k)
  then show ?case using wal_inv_mono by blast
qed

lemma made_from_reqs:
  "list_all2 made_from as rs \<Longrightarrow>
     map req_of rs = map (\<lambda>(tx, rt, pl). (tx, record_type_byte rt, pl)) as"
  by (induction rule: list_all2_induct) (auto simp: made_from_def)

subsection \<open>A log that starts empty\<close>

lemma open_empty_inv:
  assumes "os_files d = []" "open_with_options X d max_size mode key = (d', Inr w)"
  shows "wal_inv X w [] 0" "ww_encryption_key w = key" "ww_sync_mode w = mode" "ww_sequence w = 0"
proof -
  from assms have w: "\<exists>d1. ww_os w = d1 \<and> os_files d1 = [(0, \<lparr> f_data = [], f_synced = 0 \<rparr>)]"
    "ww_active_segment w = \<lparr> seg_index = 0, seg_sealed = False, seg_write_offset = 0,
       seg_max_size = max_size \<rparr>" "ww_next_segment_index w = 1"
    "ww_encryption_key w = key" "ww_sync_mode w = mode" "ww_sequence w = 0"
    by (auto simp: open_with_options_def list_segments_def segment_create_def and_then_Inr_iff
        split: prod.splits io_outcome.splits if_splits)
  have "file_log X key True (0, \<lparr> f_data = [], f_synced = 0 \<rparr>) [] 0"
    by (simp add: file_log_def)
  then have "wal_log X key True [(0, \<lparr> f_data = [], f_synced = 0 \<rparr>)] [] 0"
    by (intro wal_logI [where olds = "[]" and rss = "[]" and j = 0]) auto
  with w show "wal_inv X w [] 0" by (auto simp: wal_inv_def)
  from w show "ww_encryption_key w = key" "ww_sync_mode w = mode" "ww_sequence w = 0" by simp_all
qed

lemma append_all_config:
  assumes "app_all (append_req X) w as = (w', res)" "ext_ok X" "wal_inv X w rs m"
    "\<forall>a \<in> set as. payload_fits (ww_encryption_key w) (snd (snd a))"
  shows "ww_encryption_key w' = ww_encryption_key w \<and> ww_sync_mode w' = ww_sync_mode w"
  using assms
proof (induction as arbitrary: w rs m res)
  case (Cons a as)
  obtain tx rt pl where a: "a = (tx, rt, pl)" by (metis prod_cases3)
  obtain w1 r1 where 1: "wal_append X w tx rt pl = (w1, r1)" by force
  have fits: "payload_fits (ww_encryption_key w) pl" using Cons.prems(4) a by simp
  note ar = wal_append_record [OF Cons.prems(2,3) fits 1]
  have req: "append_req X w a = (w1, r1)" using 1 by (simp add: a append_req_def)
  show ?case
  proof (cases r1)
    case (Inl e)
    with Cons.prems(1) req ar(1,2) show ?thesis by simp
  next
    case (Inr r)
    then have "wal_inv X w1 (rs @ [r]) (durable_after w rs m)" using ar(4) by simp
    moreover obtain res' where "app_all (append_req X) w1 as = (w', res')"
      using Cons.prems(1) req Inr
      by (cases "app_all (append_req X) w1 as"; cases "snd (app_all (append_req X) w1 as)") auto
    ultimately show ?thesis
      using Cons.IH Cons.prems(2,4) ar(1,2) by simp
  qed
qed simp

lemma append_all_sequence:
  assumes "app_all (append_req X) w as = (w', Inr ts)" "ext_ok X" "wal_inv X w rs m"
    "\<forall>a \<in> set as. payload_fits (ww_encryption_key w) (snd (snd a))"
  shows "map (\<lambda>r. rh_sequence (wr_header r)) ts =
     map (\<lambda>i. ww_sequence w + of_nat i) [1..<Suc (length as)]"
  using assms
proof (induction as arbitrary: w rs m ts)
  case (Cons a as)
  obtain tx rt pl where a: "a = (tx, rt, pl)" by (metis prod_cases3)
  from Cons.prems(1) obtain w1 r ts' where 1: "wal_append X w tx rt pl = (w1, Inr r)"
    and rest: "app_all (append_req X) w1 as = (w', Inr ts')" and ts: "ts = r # ts'"
    using append_req_def [of X w a] by (auto simp: and_then_Inr_iff a)
  have fits: "payload_fits (ww_encryption_key w) pl" using Cons.prems(4) a by simp
  note ar = wal_append_record [OF Cons.prems(2,3) fits 1]
  from ar(4) have r: "r = new_record X w tx rt pl" "wal_inv X w1 (rs @ [r]) (durable_after w rs m)"
    by auto
  have "map (\<lambda>r. rh_sequence (wr_header r)) ts' =
      map (\<lambda>i. ww_sequence w1 + of_nat i) [1..<Suc (length as)]"
    using Cons.IH [OF rest Cons.prems(2) r(2)] Cons.prems(4) ar(1) by simp
  also have "\<dots> = map (\<lambda>i. ww_sequence w + of_nat i) (map Suc [1..<Suc (length as)])"
    by (simp add: ar(3) add.assoc)
  also have "map Suc [1..<Suc (length as)] = [2..<Suc (Suc (length as))]"
    by (simp add: map_Suc_upt numeral_2_eq_2 del: upt_Suc)
  finally have "map (\<lambda>r. rh_sequence (wr_header r)) ts' =
      map (\<lambda>i. ww_sequence w + of_nat i) [2..<Suc (Suc (length as))]" .
  moreover have "[1..<Suc (Suc (length as))] = 1 # [2..<Suc (Suc (length as))]"
    by (simp add: upt_conv_Cons numeral_2_eq_2 del: upt_Suc)
  ultimately show ?case
    by (simp add: ts r(1) new_header_def del: upt_Suc)
qed simp

lemma unat_sequence:
  "n < 2 ^ 64 \<Longrightarrow> map (\<lambda>i. unat (of_nat i :: u64)) [1..<Suc n] = [1..<Suc n]"
  by (intro map_idI) (auto simp: unat_of_nat take_bit_nat_eq_self)

subsection \<open>Progress\<close>

definition no_faults :: "wal_writer \<Rightarrow> bool" where
  "no_faults w \<longleftrightarrow> os_faults (ww_os w) = []"

lemma io_call_ok [simp]: "os_faults d = [] \<Longrightarrow> io_call d = (d, IoOk)"
  by (simp add: io_call_def)

lemma write_active_progress:
  "no_faults w \<Longrightarrow> \<exists>w'. write_active bs w = (w', Inr ()) \<and> no_faults w'"
  by (simp add: no_faults_def write_active_def write_all_def lift_os_def on_file_def)

lemma sync_active_progress:
  "no_faults w \<Longrightarrow> \<exists>w'. sync_active w = (w', Inr ()) \<and> no_faults w'"
  by (simp add: no_faults_def sync_active_def sync_all_def lift_os_def on_file_def)

lemma no_faults_advance [simp]: "no_faults (advance n w) = no_faults w"
  by (simp add: no_faults_def advance_def)

lemma roll_segment_progress:
  assumes nf: "no_faults w" and inv: "wal_inv X w rs m"
  shows "\<exists>w'. roll_segment w = (w', Inr ()) \<and> no_faults w'"
proof -
  obtain w1 where s: "sync_active w = (w1, Inr ())" and nf1: "no_faults w1"
    using sync_active_progress [OF nf] by blast
  from wal_inv_sync(1) [OF inv s] obtain olds f where
    fs: "os_files (ww_os w1) = olds @ [(seg_index (ww_active_segment w1), f)]"
    and lt: "seg_index (ww_active_segment w1) < ww_next_segment_index w1"
    and log: "wal_log X (ww_encryption_key w1) True (os_files (ww_os w1)) rs (length rs)"
    by (auto simp: wal_inv_def)
  have "sorted_wrt (<) (map fst (olds @ [(seg_index (ww_active_segment w1), f)]))"
    using log by (auto simp: fs elim: wal_logE)
  from map_of_fresh [OF this lt] fs
  have "map_of (os_files (ww_os w1)) (ww_next_segment_index w1) = None" by simp
  with s nf1 show ?thesis
    unfolding roll_segment_def segment_seal_iff
    by (simp add: Let_def segment_create_def lift_os_def no_faults_def)
qed

lemma write_plaintext_progress:
  assumes nf: "no_faults w" and inv: "wal_inv X w rs m"
  shows "\<exists>w'. write_plaintext hb pl crc w = (w', Inr ()) \<and> no_faults w'"
proof -
  obtain w1 where 1: "(if has_space (ww_active_segment w) (length hb + length pl + 4) then (w, Inr ())
      else roll_segment w) = (w1, Inr ())" "no_faults w1"
    using roll_segment_progress [OF assms] nf by (cases "has_space (ww_active_segment w) (length hb + length pl + 4)") auto
  obtain w2 where 2: "write_active hb w1 = (w2, Inr ())" "no_faults w2"
    using write_active_progress [OF 1(2)] by blast
  obtain w3 where 3: "write_active pl w2 = (w3, Inr ())" "no_faults w3"
    using write_active_progress [OF 2(2)] by blast
  obtain w4 where 4: "write_active (u32_le crc) w3 = (w4, Inr ())" "no_faults w4"
    using write_active_progress [OF 3(2)] by blast
  from 1 2 3 4 show ?thesis
    by (simp add: write_plaintext_def Let_def)
qed

lemma seal_blob_progress:
  assumes "no_faults w" "wal_inv X w rs m"
  shows "\<exists>w' blob. seal_blob X master pt w = (w', blob) \<and> no_faults w' \<and> wal_inv X w' rs m"
proof -
  have "wal_inv X (w\<lparr>ww_os := fst (gen_nonce (ww_os w))\<rparr>) rs m"
    by (rule wal_inv_cong [OF assms(2)]) (simp_all add: gen_nonce_def)
  then show ?thesis
    using assms(1) by (simp add: seal_blob_def Let_def no_faults_def gen_nonce_def)
qed

lemma write_encrypted_progress:
  assumes nf: "no_faults w" and inv: "wal_inv X w rs m"
  shows "\<exists>w'. write_encrypted X master hb pl crc w = (w', Inr ()) \<and> no_faults w'"
proof -
  let ?pt = "hb @ pl @ u32_le crc"
  obtain w1 b where 1: "seal_blob X master ?pt w = (w1, b)" "no_faults w1" "wal_inv X w1 rs m"
    using seal_blob_progress [OF assms] by blast
  show ?thesis
  proof (cases "has_space (ww_active_segment w1) (length b)")
    case True
    obtain w2 where "write_active b w1 = (w2, Inr ())" "no_faults w2"
      using write_active_progress [OF 1(2)] by blast
    with 1 True show ?thesis by (simp add: write_encrypted_def Let_def)
  next
    case False
    obtain w2 where 2: "roll_segment w1 = (w2, Inr ())" "no_faults w2"
      using roll_segment_progress [OF 1(2,3)] by blast
    with roll_segment_inv [OF 1(3) 2(1)] have "wal_inv X w2 rs (length rs)" by simp
    from seal_blob_progress [OF 2(2) this] obtain w3 b3 where
      3: "seal_blob X master ?pt w2 = (w3, b3)" "no_faults w3" by blast
    obtain w4 where "write_active b3 w3 = (w4, Inr ())" "no_faults w4"
      using write_active_progress [OF 3(2)] by blast
    with 1 2 3 False show ?thesis by (simp add: write_encrypted_def Let_def)
  qed
qed

lemma sync_after_write_progress:
  "no_faults w \<Longrightarrow> \<exists>w'. sync_after_write w = (w', Inr ()) \<and> no_faults w'"
  using sync_active_progress [of w]
  by (auto simp: sync_after_write_def no_faults_def split: wal_sync_mode.splits)

lemma wal_append_progress:
  assumes nf: "no_faults w" and inv: "wal_inv X w rs m"
  shows "\<exists>w'. wal_append X w tx rt pl = (w', Inr (new_record X w tx rt pl)) \<and> no_faults w'"
proof -
  let ?w1 = "w\<lparr>ww_sequence := ww_sequence w + 1, ww_os := fst (now_ns (ww_os w))\<rparr>"
  let ?r = "new_record X w tx rt pl"
  have inv1: "wal_inv X ?w1 rs m" by (rule wal_inv_cong [OF inv]) (simp_all add: now_ns_def)
  have nf1: "no_faults ?w1" using nf by (simp add: no_faults_def now_ns_def)
  have "\<exists>w2. (case ww_encryption_key ?w1 of
      Some master \<Rightarrow> write_encrypted X master (enc_header X (wr_header ?r)) pl (wr_crc32 ?r) ?w1
    | None \<Rightarrow> write_plaintext (enc_header X (wr_header ?r)) pl (wr_crc32 ?r) ?w1) = (w2, Inr ()) \<and>
    no_faults w2" (is "\<exists>w2. ?write = _ \<and> _")
    using write_encrypted_progress [OF nf1 inv1] write_plaintext_progress [OF nf1 inv1]
    by (simp split: option.split)
  then obtain w2 where 2: "?write = (w2, Inr ())" "no_faults w2" by blast
  obtain w3 where "sync_after_write w2 = (w3, Inr ())" "no_faults w3"
    using sync_after_write_progress [OF 2(2)] by blast
  with 2 show ?thesis
    unfolding wal_append_def Let_def by simp
qed

lemma append_all_progress:
  assumes "ext_ok X" "no_faults w" "wal_inv X w rs m"
    "\<forall>a \<in> set as. payload_fits (ww_encryption_key w) (snd (snd a))"
  shows "\<exists>w' ts. app_all (append_req X) w as = (w', Inr ts) \<and> no_faults w'"
  using assms(2-)
proof (induction as arbitrary: w rs m)
  case (Cons a as)
  obtain tx rt pl where a: "a = (tx, rt, pl)" by (metis prod_cases3)
  from wal_append_progress [OF Cons.prems(1,2)] obtain w1 r where
    1: "wal_append X w tx rt pl = (w1, Inr r)" "no_faults w1" by blast
  have "payload_fits (ww_encryption_key w) pl" using Cons.prems(3) a by simp
  note ar = wal_append_record [OF assms(1) Cons.prems(2) this 1(1)]
  from ar(4) have "wal_inv X w1 (rs @ [r]) (durable_after w rs m)" by auto
  from Cons.IH [OF 1(2) this] Cons.prems(3) ar(1) obtain w' ts where
    "app_all (append_req X) w1 as = (w', Inr ts)" "no_faults w'" by auto
  moreover have "append_req X w a = (w1, Inr r)" using 1 by (simp add: a append_req_def)
  ultimately show ?case by simp
qed simp

lemma open_empty_progress:
  assumes "os_files d = []" "os_faults d = []"
  shows "\<exists>d' w. open_with_options X d max_size mode key = (d', Inr w) \<and> no_faults w"
  using assms
  by (simp add: open_with_options_def list_segments_def segment_create_def no_faults_def)

definition sample_os :: "io_outcome list \<Rightarrow> os" where
  "sample_os fs = \<lparr> os_files = [], os_faults = fs, os_clock = (\<lambda>_. 0), os_rng = (\<lambda>_. []), os_tick = 0 \<rparr>"

lemma sample_os_simps [simp]: "os_files (sample_os fs) = []" "os_faults (sample_os fs) = fs"
  by (simp_all add: sample_os_def)

subsection \<open>Properties\<close>

text \<open>The log of a fresh writer whose appends all succeed.\<close>

lemma fresh_log_read:
  assumes "ext_ok X" and "os_files d = []" and "open_with_options X d max_size mode key = (d', Inr w)"
    and "app_all (append_req X) w as = (w', Inr rs)"
    and "\<forall>a \<in> set as. payload_fits key (snd (snd a))" and "length as < 2 ^ 64"
  shows "wal_items X (ww_os w') key 0 = map Inr rs \<and>
     map req_of rs = map (\<lambda>(tx, rt, pl). (tx, record_type_byte rt, pl)) as \<and>
     map (\<lambda>r. unat (rh_sequence (wr_header r))) rs = [1..<Suc (length as)]"
proof -
  note w = open_empty_inv [OF assms(2,3)]
  have made: "list_all2 made_from as rs" and inv: "wal_inv X w' ([] @ rs) 0"
    using wal.app_all_ok [of X w "[]" 0 as w' rs] assms w by auto
  note made_from_reqs [OF made]
  moreover have "map (\<lambda>r. unat (rh_sequence (wr_header r))) rs = [1..<Suc (length as)]"
  proof -
    have "map unat (map (\<lambda>r. rh_sequence (wr_header r)) rs) =
        map unat (map (\<lambda>i. ww_sequence w + of_nat i) [1..<Suc (length as)])"
      using append_all_sequence [OF assms(4,1) w(1)] assms(5) w(2) by simp
    then show ?thesis
      using unat_sequence [OF assms(6)] w(4) by (simp add: comp_def del: upt_Suc)
  qed
  moreover have "ww_encryption_key w' = key"
    using append_all_config [OF assms(4,1) w(1)] assms(5) w(2) by simp
  ultimately show ?thesis
    using wal_items_hold [OF assms(1) wal_log_clean [OF wal_inv_log [OF inv]]] by simp
qed

text \<open>
  C29: what is appended is read back.  When the log is created empty, every append
  succeeds and every payload is within the limit of the reader, the reader returns exactly the appended records, with the transaction, type
  and payload of each request in order and the sequence numbers 1, 2, 3, \<dots>, in plain and
  in encrypted mode, across segment boundaries and for every sync mode.
\<close>

theorem wal_write_read:
  assumes "ext_ok X" and "os_files d = []" and "open_with_options X d max_size mode key = (d', Inr w)"
    and "app_all (append_req X) w as = (w', Inr rs)"
    and "\<forall>a \<in> set as. payload_fits key (snd (snd a))" and "length as < 2 ^ 64"
  shows "wal_items X (ww_os w') key 0 = map Inr rs \<and>
     map req_of rs = map (\<lambda>(tx, rt, pl). (tx, record_type_byte rt, pl)) as \<and>
     map (\<lambda>r. unat (rh_sequence (wr_header r))) rs = [1..<Suc (length as)]"
  using fresh_log_read [OF assms] .

theorem wal_write_read_witness:
  "\<exists>d' w w' rs. open_with_options sample_ext (sample_os []) 100 PerRecord None = (d', Inr w) \<and>
     app_all (append_req sample_ext) w [(7, Begin, [0]), (7, Commit, [1, 2])] = (w', Inr rs) \<and>
     wal_items sample_ext (ww_os w') None 0 = map Inr rs \<and>
     map req_of rs = [(7, 0x01, [0]), (7, 0x03, [1, 2])]"
proof -
  let ?as = "[(7, Begin, [0]), (7, Commit, [1, 2])] :: append_req list"
  obtain d' w where o: "open_with_options sample_ext (sample_os []) 100 PerRecord None = (d', Inr w)"
    and nf: "no_faults w"
    using open_empty_progress [of "sample_os []" sample_ext 100 PerRecord None] by auto
  note w = open_empty_inv [OF sample_os_simps(1) o]
  have fits: "\<forall>a \<in> set ?as. payload_fits None (snd (snd a))"
    by (simp add: payload_fits_def MAX_RECORD_PAYLOAD_def)
  from append_all_progress [OF sample_ext_ok nf w(1)] fits w(2) obtain w' rs where
    a: "app_all (append_req sample_ext) w ?as = (w', Inr rs)" by metis
  from wal_write_read [OF sample_ext_ok sample_os_simps(1) o a fits] o a show ?thesis by auto
qed

text \<open>
  Progress.  Without I/O errors the log can be created and every append is accepted,
  also when it needs a new segment.
\<close>

theorem wal_progress:
  assumes "ext_ok X" and "os_files d = []" and "os_faults d = []"
    and "\<forall>a \<in> set as. payload_fits key (snd (snd a))"
  shows "\<exists>d' w w' rs. open_with_options X d max_size mode key = (d', Inr w) \<and>
     app_all (append_req X) w as = (w', Inr rs)"
proof -
  obtain d' w where o: "open_with_options X d max_size mode key = (d', Inr w)" "no_faults w"
    using open_empty_progress assms by blast
  note w = open_empty_inv [OF assms(2) o(1)]
  from append_all_progress [OF assms(1) o(2) w(1)] assms(4) w(2) o(1) show ?thesis by metis
qed

theorem wal_progress_witness:
  "\<exists>d' w w' rs. open_with_options sample_ext (sample_os []) 60 GroupCommit (Some [1]) = (d', Inr w) \<and>
     app_all (append_req sample_ext) w [(7, Begin, [0]), (7, Commit, [1, 2])] = (w', Inr rs)"
  by (rule wal_progress [OF sample_ext_ok])
    (simp_all add: payload_fits_def MAX_RECORD_PAYLOAD_def HEADER_SIZE_def)

text \<open>The log of a fresh writer after a crash.\<close>

lemma fresh_log_crash:
  assumes "ext_ok X" and "os_files d = []" and "open_with_options X d max_size mode key = (d', Inr w)"
    and "app_all (append_req X) w as = (w', res)" and "crash (ww_os w') e"
    and "\<forall>a \<in> set as. payload_fits key (snd (snd a))"
  shows "\<exists>ks t. wal_items X e key 0 = map Inr ks @ t \<and> torn_tail t \<and>
     prefix (map req_of ks) (map (\<lambda>(tx, rt, pl). (tx, record_type_byte rt, pl)) as) \<and>
     (mode = PerRecord \<longrightarrow> prefix (acked (append_req X) w as) ks \<and> (\<forall>rs. res = Inr rs \<longrightarrow> ks = rs))"
proof -
  note w = open_empty_inv [OF assms(2,3)]
  have key: "ww_encryption_key w' = key"
    using append_all_config [OF assms(4,1) w(1)] assms(6) w(2) by simp
  obtain ks ts where ks: "reads_back X w' e ks" "prefix ks ts" "list_all2 made_from (take (length ts) as) ts"
    "mode = PerRecord \<longrightarrow> prefix (acked (append_req X) w as) ks"
    using wal.app_all_crashed [of X w "[]" 0 as w' res e] assms w by auto
  have "prefix (map req_of ks) (map req_of ts)"
    using ks(2) by (rule map_mono_prefix)
  also have r: "map req_of ts = map (\<lambda>(tx, rt, pl). (tx, record_type_byte rt, pl)) (take (length ts) as)"
    by (rule made_from_reqs [OF ks(3)])
  also have "prefix \<dots> (map (\<lambda>(tx, rt, pl). (tx, record_type_byte rt, pl)) as)"
    by (intro map_mono_prefix take_is_prefix)
  finally have p: "prefix (map req_of ks) (map (\<lambda>(tx, rt, pl). (tx, record_type_byte rt, pl)) as)" .
  have "ks = rs" if "mode = PerRecord" "res = Inr rs" for rs
  proof -
    note a = assms(4) [unfolded that(2)]
    have "prefix rs ks" using ks(4) that(1) by (simp add: acked_all [OF a])
    then obtain zs where "ks = rs @ zs" by (rule prefixE)
    with prefix_length_le [OF p] app_all_length [OF a] show ?thesis by simp
  qed
  with ks(1,4) p show ?thesis unfolding reads_back_def key by blast
qed

text \<open>
  C30: crash safety.  A fresh log is written up to the first I/O error, and the machine crashes: the
  reader returns records that were requested, in order and without a gap, and then stops
  cleanly or at a truncated record; with \<^verbatim>\<open>PerRecord\<close> sync every record acknowledged before
  the error is among them.  Payloads are within the limit of the reader, and a crash keeps a prefix of
  every file that contains the synced bytes.
\<close>

theorem wal_crash_safe:
  assumes "ext_ok X" and "os_files d = []" and "open_with_options X d max_size mode key = (d', Inr w)"
    and "app_all (append_req X) w as = (w', res)" and "crash (ww_os w') e"
    and "\<forall>a \<in> set as. payload_fits key (snd (snd a))"
  shows "\<exists>ks t. wal_items X e key 0 = map Inr ks @ t \<and> torn_tail t \<and>
     prefix (map req_of ks) (map (\<lambda>(tx, rt, pl). (tx, record_type_byte rt, pl)) as) \<and>
     (mode = PerRecord \<longrightarrow> prefix (acked (append_req X) w as) ks \<and> (\<forall>rs. res = Inr rs \<longrightarrow> ks = rs))"
  using fresh_log_crash [OF assms] .

lemma crash_refl: "crash d d"
proof -
  have "crash_file f f" for f
    unfolding crash_file_def by (intro exI [of _ "f_synced f + length (f_data f)"]) simp
  then show ?thesis by (auto simp: crash_def list_all2_same)
qed

theorem wal_crash_safe_witness:
  "\<exists>d' w w' res ks t.
     open_with_options sample_ext (sample_os [IoOk, IoOk, IoErr 3]) 100 PerRecord None = (d', Inr w) \<and>
     app_all (append_req sample_ext) w [(7, Begin, [0]), (7, Commit, [1, 2])] = (w', res) \<and>
     wal_items sample_ext (ww_os w') None 0 = map Inr ks @ t \<and> torn_tail t \<and>
     prefix (map req_of ks) [(7, 0x01, [0]), (7, 0x03, [1, 2])]"
proof -
  let ?as = "[(7, Begin, [0]), (7, Commit, [1, 2])] :: append_req list"
  obtain d' w where o: "open_with_options sample_ext (sample_os [IoOk, IoOk, IoErr 3]) 100
      PerRecord None = (d', Inr w)"
    by (simp add: open_with_options_def list_segments_def segment_create_def io_call_def)
  obtain w' res where a: "app_all (append_req sample_ext) w ?as = (w', res)" by force
  have fits: "\<forall>a \<in> set ?as. payload_fits None (snd (snd a))"
    by (simp add: payload_fits_def MAX_RECORD_PAYLOAD_def)
  from wal_crash_safe [OF sample_ext_ok sample_os_simps(1) o a crash_refl fits] obtain ks t where
    k: "wal_items sample_ext (ww_os w') None 0 = map Inr ks @ t" "torn_tail t"
    "prefix (map req_of ks) (map (\<lambda>(tx, rt, pl). (tx, record_type_byte rt, pl)) ?as)" by blast
  have "prefix (map req_of ks) [(7, 0x01, [0]), (7, 0x03, [1, 2])]" using k(3) by simp
  with o a k(1,2) show ?thesis by blast
qed

subsection \<open>Appending after an error\<close>

text \<open>
  What the crash properties leave out: neither the writer nor recovery cuts off the bytes of an incomplete record.  When the checksum of a
  record was not written and the log is appended to, on the open writer or after the log has been opened again, the reader takes the
  first bytes of the next record for the missing checksum, and a record that was synced and acknowledged is never read.
\<close>

lemma next_record_bad_crc:
  assumes X: "ext_ok X" and wf: "record_wf X r" and nd: "\<not> sr_done sr"
    and rest: "sr_rest sr = enc_header X (wr_header r) @ wr_payload r @ u32_le c @ rest" and c: "c \<noteq> wr_crc32 r"
  shows "\<exists>sr'. next_record X sr = (sr', Some (Inl (ChecksumMismatch c (wr_crc32 r)))) \<and> sr_done sr'"
proof -
  let ?h = "wr_header r"
  obtain t where t: "enc_header X ?h = u32_le WAL_MAGIC @ t" and lt: "length t = HEADER_SIZE - 4"
    using header_split [OF X] wf by (auto simp: record_wf_def)
  have dec: "decode_header X (u32_le WAL_MAGIC @ t) = Inr ?h"
    using X t by (metis decode_header_def ext_okD(3) map_err_simps(2))
  have bs: "sr_rest sr = u32_le WAL_MAGIC @ t @ wr_payload r @ u32_le c @ rest"
    by (simp add: rest t)
  have pl: "unat (rh_payload_len ?h) = length (wr_payload r)"
    "\<not> MAX_RECORD_PAYLOAD < length (wr_payload r)"
    using wf by (simp_all add: record_wf_def max_payload_u32)
  have crc: "crc32 X (u32_le WAL_MAGIC @ t @ wr_payload r) = wr_crc32 r"
    using wf t by (simp add: record_wf_def)
  have "next_record X sr = read_plain X (sr\<lparr>sr_rest := drop 4 (sr_rest sr)\<rparr>) (u32_le WAL_MAGIC)"
    using nd by (simp add: next_record_def read_exact_vec_def bs)
  also have "\<dots> = stop (sr\<lparr>sr_rest := rest\<rparr>) (Some (Inl (ChecksumMismatch c (wr_crc32 r))))"
    using wf lt pl dec crc c
    by (simp add: read_plain_def read_exact_vec_def bs record_wf_def)
  finally show ?thesis by (simp add: stop_def)
qed

lemma append_after_torn:
  assumes X: "ext_ok X" and wf: "record_wf X r" and crc: "wr_crc32 r \<noteq> WAL_MAGIC"
    and w: "os_files (ww_os w) = [(0, f)]" "f_data f = enc_header X (wr_header r) @ wr_payload r" "seg_index (ww_active_segment w) = 0"
      "os_faults (ww_os w) = []" "ww_encryption_key w = None" "ww_sync_mode w = PerRecord"
      "has_space (ww_active_segment w) (HEADER_SIZE + length pl + 4)"
  shows "\<exists>w2. wal_append X w tx rt pl = (w2, Inr (new_record X w tx rt pl)) \<and>
     (\<forall>e. crash (ww_os w2) e \<longrightarrow> wal_items X e None 0 = [Inl (ChecksumMismatch WAL_MAGIC (wr_crc32 r))])"
proof -
  let ?r2 = "new_record X w tx rt pl"
  let ?rest = "enc_header X (wr_header ?r2) @ pl @ u32_le (wr_crc32 ?r2)"
  have ne: "enc_header X h \<noteq> []" for h
    using ext_okD(1) [OF X, of h] by (auto simp: HEADER_SIZE_def)
  have nu: "u32_le c \<noteq> []" for c
    using length_u32_le [of c] by (metis list.size(3) zero_neq_numeral)
  obtain w2 where a2: "wal_append X w tx rt pl = (w2, Inr ?r2)"
    and w2: "os_files (ww_os w2) = [(0, \<lparr> f_data = enc_header X (wr_header r) @ wr_payload r @ ?rest,
       f_synced = length (enc_header X (wr_header r) @ wr_payload r @ ?rest) \<rparr>)]"
    using w ne nu X
    by (cases f; cases "pl = []") (simp_all add: wal_append_def write_plaintext_def write_active_def write_all_def lift_os_def io_call_def
        on_file_def file_append_def now_ns_def ext_okD sync_after_write_def sync_active_def sync_all_def advance_def Let_def)
  have "wal_items X e None 0 = [Inl (ChecksumMismatch WAL_MAGIC (wr_crc32 r))]" if cr: "crash (ww_os w2) e" for e
  proof -
    from cr obtain g where e: "os_files e = [(0, g)]" "f_data g = enc_header X (wr_header r) @ wr_payload r @ ?rest"
      by (auto simp: crash_def w2 list_all2_Cons1 crash_file_def)
    obtain t where t: "enc_header X (wr_header ?r2) = u32_le WAL_MAGIC @ t"
      using header_split [OF X, of "wr_header ?r2"] by (auto simp: new_header_def)
    let ?sr = "segment_reader_open (f_data g) 0 None"
    have "sr_rest ?sr = enc_header X (wr_header r) @ wr_payload r @ u32_le WAL_MAGIC @ t @ pl @ u32_le (wr_crc32 ?r2)"
      using t by (simp add: e)
    then obtain sr' where "next_record X ?sr = (sr', Some (Inl (ChecksumMismatch WAL_MAGIC (wr_crc32 r))))" "sr_done sr'"
      using next_record_bad_crc [OF X wf, of ?sr WAL_MAGIC] crc by auto
    from segment_items_next [OF this(1)] this(2) show ?thesis
      by (simp add: wal_items_def e(1) read_segment_def)
  qed
  with a2 show ?thesis by blast
qed

lemma reopened_torn_log:
  assumes "ext_ok X" "record_wf X r" "wr_crc32 r \<noteq> WAL_MAGIC" "os_faults d = []"
    and d: "os_files d = [(0, f)]" "f_data f = enc_header X (wr_header r) @ wr_payload r"
    and "length (f_data f) + HEADER_SIZE + length pl + 4 \<le> max_size"
  shows "\<exists>d' w w2 r2. open_with_options X d max_size PerRecord None = (d', Inr w) \<and> wal_append X w tx rt pl = (w2, Inr r2) \<and>
     (\<forall>e. crash (ww_os w2) e \<longrightarrow> wal_items X e None 0 = [Inl (ChecksumMismatch WAL_MAGIC (wr_crc32 r))])"
proof -
  obtain d' w where o: "open_with_options X d max_size PerRecord None = (d', Inr w)"
    and w: "os_files (ww_os w) = [(0, f)]" "seg_index (ww_active_segment w) = 0" "os_faults (ww_os w) = []" "ww_encryption_key w = None"
      "ww_sync_mode w = PerRecord" "has_space (ww_active_segment w) (HEADER_SIZE + length pl + 4)"
    using assms by (auto simp: open_with_options_def list_segments_def segment_open_def has_space_def)
  from append_after_torn [OF assms(1-3) w(1) d(2) w(2-6)] o show ?thesis by blast
qed

lemma torn_append_hides:
  assumes X: "ext_ok X" and d: "os_files d = []" "os_faults d = [IoOk, IoOk, IoOk, IoErr 0]"
    and o: "open_with_options X d max_size PerRecord None = (d', Inr w)"
    and pl: "pl \<noteq> []" "payload_fits None pl" and sz: "HEADER_SIZE + length pl + 4 \<le> max_size" "HEADER_SIZE + length pl2 + 4 \<le> max_size"
    and crc: "wr_crc32 (new_record X w tx rt pl) \<noteq> WAL_MAGIC"
  shows "\<exists>w1 w2 r. wal_append X w tx rt pl = (w1, Inl WalIo) \<and> wal_append X w1 tx2 rt2 pl2 = (w2, Inr r) \<and>
     (\<forall>e. crash (ww_os w2) e \<longrightarrow>
        wal_items X e None 0 = [Inl (ChecksumMismatch WAL_MAGIC (wr_crc32 (new_record X w tx rt pl)))])"
proof -
  let ?r = "new_record X w tx rt pl"
  have w: "ww_active_segment w = \<lparr> seg_index = 0, seg_sealed = False, seg_write_offset = 0, seg_max_size = max_size \<rparr>"
    "os_files (ww_os w) = [(0, \<lparr> f_data = [], f_synced = 0 \<rparr>)]" "os_faults (ww_os w) = [IoOk, IoOk, IoErr 0]"
    "ww_encryption_key w = None" "ww_sync_mode w = PerRecord"
    using o d by (auto simp: open_with_options_def list_segments_def segment_create_def io_call_def)
  have ne: "enc_header X h \<noteq> []" "u32_le c \<noteq> []" for h c
    using ext_okD(1) [OF X, of h] length_u32_le [of c] by (auto simp: HEADER_SIZE_def simp del: length_u32_le)
  obtain w1 where a1: "wal_append X w tx rt pl = (w1, Inl WalIo)"
    and w1: "os_files (ww_os w1) = [(0, \<lparr> f_data = enc_header X (wr_header ?r) @ pl, f_synced = 0 \<rparr>)]" "os_faults (ww_os w1) = []"
      "ww_active_segment w1 = ww_active_segment w" "ww_encryption_key w1 = None" "ww_sync_mode w1 = PerRecord"
    using w sz(1) pl(1) ne X
    by (simp add: wal_append_def write_plaintext_def write_active_def write_all_def lift_os_def io_call_def
        on_file_def file_append_def now_ns_def has_space_def ext_okD Let_def)
  have "record_wf X ?r" using pl(2) new_record_wf by blast
  from append_after_torn [OF X this crc w1(1) _ _ w1(2,4,5), of pl2 tx2 rt2] w1(3) w(1) sz(2) a1 show ?thesis
    by (auto simp: has_space_def)
qed

end
