(* ===== verification/Wal_Recovery.thy ===== *)
theory Wal_Recovery
  imports Wal_Props
begin

text \<open>
  \<^verbatim>\<open>recovery.rs\<close>: the streaming recovery pass with its callback, the accumulating pass,
  and the verification of commit records.

  The callback of \<^verbatim>\<open>recover_streaming\<close> works on a state of its own; its error type is any
  type with a conversion from \<^verbatim>\<open>WalError\<close>.  A \<^verbatim>\<open>HashMap\<close> of pending transactions is an
  association list.
\<close>

subsection \<open>Payload decoding\<close>

definition decode_data_payload_from_bytes :: "ext \<Rightarrow> bytes \<Rightarrow> wal_error + data_payload" where
  "decode_data_payload_from_bytes X bs = map_err WalSerialization (dec_data X bs)"

definition decode_data_payload :: "ext \<Rightarrow> wal_record \<Rightarrow> wal_error + data_payload" where
  "decode_data_payload X r = decode_data_payload_from_bytes X (wr_payload r)"

definition decode_commit_payload :: "ext \<Rightarrow> wal_record \<Rightarrow> wal_error + commit_payload" where
  "decode_commit_payload X r = map_err WalSerialization (dec_commit X (wr_payload r))"

definition decode_table_id_only :: "bytes \<Rightarrow> u32 option" where
  "decode_table_id_only bs = (if length bs < 4 then None else Some (u32_of_le (take 4 bs)))"

subsection \<open>Commit verification\<close>

definition commit_message :: "hash \<Rightarrow> u32 \<Rightarrow> bytes" where
  "commit_message tx_hash count = hash_raw tx_hash @ u32_le count"

definition verify_commit_signature :: "ext \<Rightarrow> wal_record \<Rightarrow> wal_error + unit" where
  "verify_commit_signature X commit_record =
     (let invalid = WalSignatureInvalid (rh_sequence (wr_header commit_record)) in
      case decode_commit_payload X commit_record of
        Inl e \<Rightarrow> Inl e
      | Inr p \<Rightarrow>
          if cp_signer_pubkey p = [] \<or> cp_signer_pubkey p = replicate 32 0 then Inr ()
          else if length (cp_signature p) \<noteq> 64 \<or> length (cp_signer_pubkey p) \<noteq> 32 then Inr ()
          else if \<not> ed_valid_key X (cp_signer_pubkey p) then Inl invalid
          else if ed_verify X (cp_signer_pubkey p)
                    (commit_message (cp_tx_hash p) (cp_record_count p)) (cp_signature p)
          then Inr () else Inl invalid)"

fun row_hash_bytes :: "ext \<Rightarrow> wal_record list \<Rightarrow> wal_error + bytes" where
  "row_hash_bytes X [] = Inr []"
| "row_hash_bytes X (r # rs) = (case decode_data_payload X r of
       Inl e \<Rightarrow> Inl (WalSerialization ''failed to decode Data record'')
     | Inr dp \<Rightarrow> (case row_hash_bytes X rs of
         Inl e \<Rightarrow> Inl e
       | Inr bs \<Rightarrow> Inr (hash_raw (dp_row_hash dp) @ bs)))"

definition verify_commit_full :: "ext \<Rightarrow> wal_record \<Rightarrow> wal_record list \<Rightarrow> wal_error + unit" where
  "verify_commit_full X commit_record data_records =
     (let invalid = WalSignatureInvalid (rh_sequence (wr_header commit_record)) in
      case decode_commit_payload X commit_record of
        Inl e \<Rightarrow> Inl e
      | Inr p \<Rightarrow>
          if cp_record_count p \<noteq> of_nat (length data_records) then Inl invalid
          else case row_hash_bytes X data_records of
              Inl e \<Rightarrow> Inl e
            | Inr bs \<Rightarrow>
                if blake3 X bs \<noteq> cp_tx_hash p then Inl invalid
                else verify_commit_signature X commit_record)"

subsection \<open>Pending transactions\<close>

definition entry_or_default :: "'k \<Rightarrow> ('k \<times> 'v list) list \<Rightarrow> ('k \<times> 'v list) list" where
  "entry_or_default k m = (case map_of m k of None \<Rightarrow> AList.update k [] m | Some _ \<Rightarrow> m)"

definition get_or_empty :: "('k \<times> 'v list) list \<Rightarrow> 'k \<Rightarrow> 'v list" where
  "get_or_empty m k = (case map_of m k of None \<Rightarrow> [] | Some v \<Rightarrow> v)"

definition entry_push :: "'k \<Rightarrow> 'v \<Rightarrow> ('k \<times> 'v list) list \<Rightarrow> ('k \<times> 'v list) list" where
  "entry_push k v m = AList.update k (get_or_empty m k @ [v]) m"

lemma get_or_empty_simps [simp]:
  "get_or_empty [] k = []"
  "get_or_empty (entry_or_default k m) k' = get_or_empty m k'"
  "get_or_empty (entry_push k v m) k' = (if k' = k then get_or_empty m k @ [v] else get_or_empty m k')"
  "get_or_empty (AList.delete k m) k' = (if k' = k then [] else get_or_empty m k')"
  by (auto simp: get_or_empty_def entry_or_default_def entry_push_def delete_conv' split: option.splits)

record committed_transaction =
  ct_tx_id :: u64
  ct_commit_record :: wal_record
  ct_data_payloads :: "data_payload list"
  ct_data_records :: "wal_record list"

record recovery_result =
  rr_committed :: "committed_transaction list"
  rr_discarded_tx_count :: nat
  rr_last_sequence :: u64
  rr_torn_write_detected :: bool

definition ok_values :: "('e + 'a) list \<Rightarrow> 'a list" where
  "ok_values rs = List.map_filter (\<lambda>r. case r of Inl _ \<Rightarrow> None | Inr a \<Rightarrow> Some a) rs"

subsection \<open>Streaming recovery\<close>

record stream_state =
  ss_pending_payloads :: "(u64 \<times> data_payload list) list"
  ss_pending_raw :: "(u64 \<times> wal_record list) list"
  ss_last_sequence :: u64

definition skipped_payload :: "u32 option \<Rightarrow> data_payload" where
  "skipped_payload table_id =
     \<lparr> dp_table_id = (case table_id of None \<Rightarrow> 0 | Some t \<Rightarrow> t), dp_page_id = 0, dp_slot_id = 0,
       dp_mutation = Insert, dp_row_data = [], dp_row_hash = 0, dp_prev_hash = None \<rparr>"

definition stream_data :: "ext \<Rightarrow> bool \<Rightarrow> u32 option \<Rightarrow> wal_record \<Rightarrow> stream_state \<Rightarrow> stream_state" where
  "stream_data X verify skip r st =
     (let tx = rh_tx_id (wr_header r) in
      if verify then st\<lparr>ss_pending_raw := entry_push tx r (ss_pending_raw st)\<rparr>
      else let table_id = decode_table_id_only (wr_payload r)
           in if skip \<noteq> None \<and> table_id = skip
              then st\<lparr>ss_pending_payloads :=
                     entry_push tx (skipped_payload table_id) (ss_pending_payloads st)\<rparr>
              else case decode_data_payload X r of
                  Inr p \<Rightarrow> st\<lparr>ss_pending_payloads := entry_push tx p (ss_pending_payloads st)\<rparr>
                | Inl _ \<Rightarrow> st)"

definition stream_begin :: "bool \<Rightarrow> u64 \<Rightarrow> stream_state \<Rightarrow> stream_state" where
  "stream_begin verify tx st =
     (if verify then st\<lparr>ss_pending_raw := entry_or_default tx (ss_pending_raw st)\<rparr>
      else st\<lparr>ss_pending_payloads := entry_or_default tx (ss_pending_payloads st)\<rparr>)"

definition stream_commit ::
  "ext \<Rightarrow> bool \<Rightarrow> (wal_error \<Rightarrow> 'e) \<Rightarrow> ('s \<Rightarrow> committed_transaction \<Rightarrow> 's \<times> ('e + unit)) \<Rightarrow>
     wal_record \<Rightarrow> stream_state \<times> 's \<Rightarrow> (stream_state \<times> 's) \<times> ('e + unit)" where
  "stream_commit X verify from on_commit r q =
     (let st = fst q; tx = rh_tx_id (wr_header r);
          call = (\<lambda>st' recs payloads.
            let (s', res) = on_commit (snd q) \<lparr> ct_tx_id = tx, ct_commit_record = r,
                  ct_data_payloads = payloads, ct_data_records = recs \<rparr>
            in ((st', s'), res))
      in if verify then
           let raw = get_or_empty (ss_pending_raw st) tx
           in case verify_commit_full X r raw of
                Inl e \<Rightarrow> (q, Inl (from e))
              | Inr _ \<Rightarrow> call (st\<lparr>ss_pending_raw := AList.delete tx (ss_pending_raw st)\<rparr>) raw
                            (ok_values (map (decode_data_payload X) raw))
         else
           call (st\<lparr>ss_pending_payloads := AList.delete tx (ss_pending_payloads st)\<rparr>) []
             (get_or_empty (ss_pending_payloads st) tx))"

definition seen_sequence :: "u64 \<Rightarrow> wal_record \<Rightarrow> u64" where
  "seen_sequence s r = (if rh_sequence (wr_header r) > s then rh_sequence (wr_header r) else s)"

definition stream_record ::
  "ext \<Rightarrow> bool \<Rightarrow> u32 option \<Rightarrow> (wal_error \<Rightarrow> 'e) \<Rightarrow>
     ('s \<Rightarrow> committed_transaction \<Rightarrow> 's \<times> ('e + unit)) \<Rightarrow> stream_state \<times> 's \<Rightarrow> wal_record \<Rightarrow>
     (stream_state \<times> 's) \<times> ('e + unit)" where
  "stream_record X verify skip from on_commit q r =
     (let st = (fst q)\<lparr>ss_last_sequence := seen_sequence (ss_last_sequence (fst q)) r\<rparr>;
          s = snd q; tx = rh_tx_id (wr_header r)
      in case record_type_of (rh_record_type (wr_header r)) of
           Inl e \<Rightarrow> ((st, s), Inl (from e))
         | Inr Begin \<Rightarrow> ((stream_begin verify tx st, s), Inr ())
         | Inr Data \<Rightarrow> ((stream_data X verify skip r st, s), Inr ())
         | Inr Commit \<Rightarrow> stream_commit X verify from on_commit r (st, s)
         | Inr Rollback \<Rightarrow>
             ((st\<lparr>ss_pending_payloads := AList.delete tx (ss_pending_payloads st),
                  ss_pending_raw := AList.delete tx (ss_pending_raw st)\<rparr>, s), Inr ())
         | Inr _ \<Rightarrow> ((st, s), Inr ()))"

text \<open>The loop over the reader's items; the value is whether a torn write ended it.\<close>

fun stream_items ::
  "ext \<Rightarrow> bool \<Rightarrow> u32 option \<Rightarrow> (wal_error \<Rightarrow> 'e) \<Rightarrow>
     ('s \<Rightarrow> committed_transaction \<Rightarrow> 's \<times> ('e + unit)) \<Rightarrow> stream_state \<times> 's \<Rightarrow> read_item list \<Rightarrow>
     (stream_state \<times> 's) \<times> ('e + bool)" where
  "stream_items X verify skip from on_commit q [] = (q, Inr False)"
| "stream_items X verify skip from on_commit q (Inl e # xs) =
     (if torn_error e then (q, Inr True) else (q, Inl (from e)))"
| "stream_items X verify skip from on_commit q (Inr r # xs) =
     and_then (stream_record X verify skip from on_commit q r)
       (\<lambda>q' _. stream_items X verify skip from on_commit q' xs)"

definition recover_streaming ::
  "ext \<Rightarrow> os \<Rightarrow> bytes option \<Rightarrow> bool \<Rightarrow> u32 option \<Rightarrow> nat \<Rightarrow> (wal_error \<Rightarrow> 'e) \<Rightarrow>
     ('s \<Rightarrow> committed_transaction \<Rightarrow> 's \<times> ('e + unit)) \<Rightarrow> 's \<Rightarrow> 's \<times> ('e + recovery_result)" where
  "recover_streaming X d key verify skip start from on_commit s =
     (let (q, res) = stream_items X verify skip from on_commit
            (\<lparr> ss_pending_payloads = [], ss_pending_raw = [], ss_last_sequence = 0 \<rparr>, s)
            (wal_items X d key start)
      in (snd q, case res of
            Inl e \<Rightarrow> Inl e
          | Inr torn \<Rightarrow> Inr \<lparr> rr_committed = [],
              rr_discarded_tx_count = length (ss_pending_payloads (fst q)) + length (ss_pending_raw (fst q)),
              rr_last_sequence = ss_last_sequence (fst q), rr_torn_write_detected = torn \<rparr>))"

subsection \<open>Accumulating recovery\<close>

record recover_state =
  rs_pending :: "(u64 \<times> wal_record list) list"
  rs_committed :: "committed_transaction list"
  rs_last_sequence :: u64

definition recover_record :: "ext \<Rightarrow> bool \<Rightarrow> recover_state \<Rightarrow> wal_record \<Rightarrow> recover_state \<times> (wal_error + unit)" where
  "recover_record X verify q r =
     (let st = q\<lparr>rs_last_sequence := seen_sequence (rs_last_sequence q) r\<rparr>;
          tx = rh_tx_id (wr_header r)
      in case record_type_of (rh_record_type (wr_header r)) of
           Inl e \<Rightarrow> (st, Inl e)
         | Inr Begin \<Rightarrow> (st\<lparr>rs_pending := entry_or_default tx (rs_pending st)\<rparr>, Inr ())
         | Inr Data \<Rightarrow> (st\<lparr>rs_pending := entry_push tx r (rs_pending st)\<rparr>, Inr ())
         | Inr Commit \<Rightarrow>
             (let raw = get_or_empty (rs_pending st) tx
              in case (if verify then verify_commit_full X r raw else Inr ()) of
                   Inl e \<Rightarrow> (st, Inl e)
                 | Inr _ \<Rightarrow> (st\<lparr>rs_pending := AList.delete tx (rs_pending st),
                     rs_committed := rs_committed st @ [\<lparr> ct_tx_id = tx, ct_commit_record = r,
                       ct_data_payloads = ok_values (map (decode_data_payload X) raw),
                       ct_data_records = raw \<rparr>]\<rparr>, Inr ()))
         | Inr Rollback \<Rightarrow> (st\<lparr>rs_pending := AList.delete tx (rs_pending st)\<rparr>, Inr ())
         | Inr _ \<Rightarrow> (st, Inr ()))"

fun recover_items :: "ext \<Rightarrow> bool \<Rightarrow> recover_state \<Rightarrow> read_item list \<Rightarrow> recover_state \<times> (wal_error + bool)" where
  "recover_items X verify q [] = (q, Inr False)"
| "recover_items X verify q (Inl e # xs) = (if torn_error e then (q, Inr True) else (q, Inl e))"
| "recover_items X verify q (Inr r # xs) =
     and_then (recover_record X verify q r) (\<lambda>q' _. recover_items X verify q' xs)"

definition recover_with_options :: "ext \<Rightarrow> os \<Rightarrow> bytes option \<Rightarrow> bool \<Rightarrow> wal_error + recovery_result" where
  "recover_with_options X d key verify =
     (let (q, res) = recover_items X verify
            \<lparr> rs_pending = [], rs_committed = [], rs_last_sequence = 0 \<rparr> (wal_items X d key 0)
      in case res of
           Inl e \<Rightarrow> Inl e
         | Inr torn \<Rightarrow> Inr \<lparr>
             rr_committed = sort_key (\<lambda>t. rh_sequence (wr_header (ct_commit_record t))) (rs_committed q),
             rr_discarded_tx_count = length (rs_pending q),
             rr_last_sequence = rs_last_sequence q, rr_torn_write_detected = torn \<rparr>)"

definition recover :: "ext \<Rightarrow> os \<Rightarrow> wal_error + recovery_result" where
  "recover X d = recover_with_options X d None False"

definition recover_verified :: "ext \<Rightarrow> os \<Rightarrow> bytes option \<Rightarrow> wal_error + recovery_result" where
  "recover_verified X d key = recover_with_options X d key True"

end
