(* ===== verification/Wal_Recovery_Props.thy ===== *)
theory Wal_Recovery_Props
  imports Wal_Recovery
begin

text \<open>
  What recovery returns.  The specification \<open>committed_spec\<close> reads a log as a list of
  requests: a \<^verbatim>\<open>Commit\<close> yields the payloads of the \<^verbatim>\<open>Data\<close> records of its transaction that
  follow the last \<^verbatim>\<open>Commit\<close> or \<^verbatim>\<open>Rollback\<close> of that transaction.  Both recovery passes are
  shown to compute it, and crash recovery to return the committed transactions of a
  prefix of what was requested.
\<close>

subsection \<open>Specification\<close>

definition ends_tx :: "u64 \<Rightarrow> append_req \<Rightarrow> bool" where
  "ends_tx tx a \<longleftrightarrow> fst a = tx \<and> (fst (snd a) = Commit \<or> fst (snd a) = Rollback)"

definition data_of :: "u64 \<Rightarrow> append_req list \<Rightarrow> bytes list" where
  "data_of tx as = map (snd \<circ> snd) (filter (\<lambda>a. fst a = tx \<and> fst (snd a) = Data) as)"

definition open_payloads :: "u64 \<Rightarrow> append_req list \<Rightarrow> bytes list" where
  "open_payloads tx as = data_of tx (rev (takeWhile (\<lambda>a. \<not> ends_tx tx a) (rev as)))"

definition committed_spec :: "append_req list \<Rightarrow> (u64 \<times> bytes list) list" where
  "committed_spec as = concat (map (\<lambda>i.
     if fst (snd (as ! i)) = Commit
     then [(fst (as ! i), open_payloads (fst (as ! i)) (take i as))] else []) [0..<length as])"

lemma open_payloads_simps [simp]:
  "open_payloads tx [] = []"
  "open_payloads tx (as @ [(t, rt, pl)]) =
     (if t = tx \<and> (rt = Commit \<or> rt = Rollback) then []
      else if t = tx \<and> rt = Data then open_payloads tx as @ [pl] else open_payloads tx as)"
  by (auto simp: open_payloads_def ends_tx_def data_of_def)

lemma committed_spec_snoc:
  "committed_spec (as @ [a]) = committed_spec as @
     (if fst (snd a) = Commit then [(fst a, open_payloads (fst a) as)] else [])"
proof -
  have "map (\<lambda>i. if fst (snd ((as @ [a]) ! i)) = Commit
      then [(fst ((as @ [a]) ! i), open_payloads (fst ((as @ [a]) ! i)) (take i (as @ [a])))] else [])
      [0..<length as] =
    map (\<lambda>i. if fst (snd (as ! i)) = Commit
      then [(fst (as ! i), open_payloads (fst (as ! i)) (take i as))] else []) [0..<length as]"
    by (intro map_cong refl) (simp add: nth_append)
  then show ?thesis
    by (simp add: committed_spec_def del: map_eq_conv)
qed

lemma committed_spec_Nil [simp]: "committed_spec [] = []"
  by (simp add: committed_spec_def)

text \<open>The same as one pass with the open payloads of each transaction as state.\<close>

fun spec_txs :: "(u64 \<Rightarrow> bytes list) \<Rightarrow> append_req list \<Rightarrow> (u64 \<times> bytes list) list" where
  "spec_txs P [] = []"
| "spec_txs P ((tx, rt, pl) # as) =
     (if rt = Data then spec_txs (P(tx := P tx @ [pl])) as
      else if rt = Commit then (tx, P tx) # spec_txs (P(tx := [])) as
      else if rt = Rollback then spec_txs (P(tx := [])) as
      else spec_txs P as)"

lemma committed_spec_append:
  "committed_spec (h @ as) = committed_spec h @ spec_txs (\<lambda>tx. open_payloads tx h) as"
proof (induction as arbitrary: h)
  case (Cons a as)
  obtain tx rt pl where a: "a = (tx, rt, pl)" by (metis prod_cases3)
  have "(\<lambda>t. open_payloads t (h @ [a])) =
     (if rt = Data then (\<lambda>t. open_payloads t h)(tx := open_payloads tx h @ [pl])
      else if rt = Commit \<or> rt = Rollback then (\<lambda>t. open_payloads t h)(tx := [])
      else (\<lambda>t. open_payloads t h))"
    by (rule ext) (simp add: a)
  with Cons.IH [of "h @ [a]"] show ?case
    by (cases rt) (simp_all add: a committed_spec_snoc)
qed simp

lemma committed_spec_txs: "committed_spec as = spec_txs (\<lambda>_. []) as"
  using committed_spec_append [of "[]" as] by simp

text \<open>Later requests never change what was committed before.\<close>

lemma committed_spec_prefix: "prefix as bs \<Longrightarrow> prefix (committed_spec as) (committed_spec bs)"
  by (auto simp: prefix_def committed_spec_append)

subsection \<open>Records as requests\<close>

definition valid_type :: "wal_record \<Rightarrow> bool" where
  "valid_type r \<longleftrightarrow> (\<exists>t. rh_record_type (wr_header r) = record_type_byte t)"

definition rec_req :: "wal_record \<Rightarrow> append_req" where
  "rec_req r = (rh_tx_id (wr_header r),
     (case record_type_of (rh_record_type (wr_header r)) of Inr t \<Rightarrow> t | Inl _ \<Rightarrow> Schema), wr_payload r)"

lemma rec_req_valid:
  assumes "valid_type r"
  obtains t where "record_type_of (rh_record_type (wr_header r)) = Inr t"
    "rec_req r = (rh_tx_id (wr_header r), t, wr_payload r)"
  using assms by (auto simp: valid_type_def rec_req_def)

subsection \<open>The accumulating pass\<close>

definition tx_of :: "committed_transaction \<Rightarrow> u64 \<times> bytes list" where
  "tx_of t = (ct_tx_id t, map wr_payload (ct_data_records t))"

definition is_commit :: "wal_record \<Rightarrow> bool" where
  "is_commit r \<longleftrightarrow> fst (snd (rec_req r)) = Commit"

definition decoded :: "ext \<Rightarrow> committed_transaction \<Rightarrow> bool" where
  "decoded X c \<longleftrightarrow> ct_data_payloads c = ok_values (map (decode_data_payload X) (ct_data_records c))"

lemma recover_items_spec:
  assumes "torn_tail t" "\<forall>r \<in> set rs. valid_type r"
    and "\<And>tx. map wr_payload (get_or_empty (rs_pending q) tx) = P tx"
  shows "\<exists>q' ts. recover_items X False q (map Inr rs @ t) = (q', Inr (t \<noteq> [])) \<and>
     rs_committed q' = rs_committed q @ ts \<and> map tx_of ts = spec_txs P (map rec_req rs) \<and>
     map ct_commit_record ts = filter is_commit rs \<and> (\<forall>c \<in> set ts. decoded X c)"
  using assms(2-)
proof (induction rs arbitrary: q P)
  case Nil
  with assms(1) show ?case by (auto simp: torn_tail_def)
next
  case (Cons r rs)
  from Cons.prems(1) have "valid_type r" by simp
  then obtain rt where rt: "record_type_of (rh_record_type (wr_header r)) = Inr rt"
    and req: "rec_req r = (rh_tx_id (wr_header r), rt, wr_payload r)"
    by (rule rec_req_valid)
  let ?tx = "rh_tx_id (wr_header r)"
  let ?P = "if rt = Data then P(?tx := P ?tx @ [wr_payload r])
            else if rt = Commit \<or> rt = Rollback then P(?tx := []) else P"
  obtain q1 where q1: "recover_record X False q r = (q1, Inr ())"
    and P1: "\<And>tx. map wr_payload (get_or_empty (rs_pending q1) tx) = ?P tx"
    and c1: "rs_committed q1 = rs_committed q @ (if rt = Commit then [\<lparr> ct_tx_id = ?tx,
        ct_commit_record = r, ct_data_payloads =
          ok_values (map (decode_data_payload X) (get_or_empty (rs_pending q) ?tx)),
        ct_data_records = get_or_empty (rs_pending q) ?tx \<rparr>] else [])"
    using rt Cons.prems(2) by (cases rt) (auto simp: recover_record_def Let_def)
  from Cons.IH [OF _ P1] Cons.prems(1) obtain q' ts where
    IH: "recover_items X False q1 (map Inr rs @ t) = (q', Inr (t \<noteq> []))"
    "rs_committed q' = rs_committed q1 @ ts" "map tx_of ts = spec_txs ?P (map rec_req rs)"
    "map ct_commit_record ts = filter is_commit rs" "\<forall>c \<in> set ts. decoded X c"
    by auto
  show ?case
  proof (intro exI conjI)
    show "recover_items X False q (map Inr (r # rs) @ t) = (q', Inr (t \<noteq> []))"
      using q1 IH(1) by simp
    show "rs_committed q' = rs_committed q @ (drop (length (rs_committed q)) (rs_committed q1) @ ts)"
      using IH(2) c1 by simp
    show "map tx_of (drop (length (rs_committed q)) (rs_committed q1) @ ts) =
        spec_txs P (map rec_req (r # rs))"
      using IH(3) Cons.prems(2) by (cases rt) (simp_all add: c1 req tx_of_def)
    show "map ct_commit_record (drop (length (rs_committed q)) (rs_committed q1) @ ts) =
        filter is_commit (r # rs)"
      using IH(4) by (cases rt) (simp_all add: c1 req is_commit_def)
    show "\<forall>c \<in> set (drop (length (rs_committed q)) (rs_committed q1) @ ts). decoded X c"
      using IH(5) by (auto simp: c1 decoded_def)
  qed
qed

lemma recover_spec:
  assumes "wal_items X d key 0 = map Inr rs @ t" "torn_tail t" "\<forall>r \<in> set rs. valid_type r"
  shows "\<exists>ts res. recover_with_options X d key False = Inr res \<and>
     rr_committed res = sort_key (\<lambda>c. rh_sequence (wr_header (ct_commit_record c))) ts \<and>
     rr_torn_write_detected res = (t \<noteq> []) \<and> map tx_of ts = committed_spec (map rec_req rs) \<and>
     map ct_commit_record ts = filter is_commit rs \<and> (\<forall>c \<in> set ts. decoded X c)"
proof -
  let ?q = "\<lparr> rs_pending = [], rs_committed = [], rs_last_sequence = 0 \<rparr>"
  from recover_items_spec [OF assms(2,3), of ?q "\<lambda>_. []" X] obtain q' ts where
    "recover_items X False ?q (map Inr rs @ t) = (q', Inr (t \<noteq> []))"
    "rs_committed q' = ts" "map tx_of ts = committed_spec (map rec_req rs)"
    "map ct_commit_record ts = filter is_commit rs" "\<forall>c \<in> set ts. decoded X c"
    by (auto simp: committed_spec_txs)
  with assms(1) show ?thesis
    by (auto simp: recover_with_options_def)
qed

text \<open>With ascending sequence numbers the final sort changes nothing.\<close>

lemma recover_spec_sorted:
  assumes "wal_items X d key 0 = map Inr rs @ t" "torn_tail t" "\<forall>r \<in> set rs. valid_type r"
    and "sorted (map (\<lambda>r. rh_sequence (wr_header r)) rs)"
  shows "\<exists>res. recover_with_options X d key False = Inr res \<and>
     map tx_of (rr_committed res) = committed_spec (map rec_req rs) \<and>
     rr_torn_write_detected res = (t \<noteq> []) \<and> (\<forall>c \<in> set (rr_committed res). decoded X c)"
proof -
  from recover_spec [OF assms(1-3)] obtain ts res where
    r: "recover_with_options X d key False = Inr res"
    "rr_committed res = sort_key (\<lambda>c. rh_sequence (wr_header (ct_commit_record c))) ts"
    "rr_torn_write_detected res = (t \<noteq> [])" "map tx_of ts = committed_spec (map rec_req rs)"
    "map ct_commit_record ts = filter is_commit rs" "\<forall>c \<in> set ts. decoded X c" by blast
  have "map (\<lambda>c. rh_sequence (wr_header (ct_commit_record c))) ts =
      map (\<lambda>r. rh_sequence (wr_header r)) (filter is_commit rs)"
    unfolding r(5) [symmetric] by simp
  moreover have "sorted \<dots>"
    using assms(4) by (rule sorted_filter)
  ultimately have "rr_committed res = ts"
    unfolding r(2) by (intro sort_key_id_if_sorted) simp
  with r show ?thesis by auto
qed

subsection \<open>The streaming pass\<close>

text \<open>Calling the callback on a list of transactions until it fails.\<close>

fun commit_all ::
  "('s \<Rightarrow> committed_transaction \<Rightarrow> 's \<times> ('e + unit)) \<Rightarrow> 's \<Rightarrow> committed_transaction list \<Rightarrow> 's \<times> ('e + unit)" where
  "commit_all f s [] = (s, Inr ())"
| "commit_all f s (t # ts) = and_then (f s t) (\<lambda>s' _. commit_all f s' ts)"

lemma commit_all_append:
  "commit_all f s (ts @ us) = and_then (commit_all f s ts) (\<lambda>s' _. commit_all f s' us)"
proof (induction ts arbitrary: s)
  case (Cons t ts)
  then show ?case by (cases "f s t"; cases "snd (f s t)") auto
qed simp

definition decode_payloads :: "ext \<Rightarrow> bytes list \<Rightarrow> data_payload list" where
  "decode_payloads X pls = ok_values (map (decode_data_payload_from_bytes X) pls)"

lemma decode_payloads_simps [simp]:
  "decode_payloads X [] = []"
  "decode_payloads X (pls @ [pl]) = decode_payloads X pls @
     (case decode_data_payload_from_bytes X pl of Inl _ \<Rightarrow> [] | Inr p \<Rightarrow> [p])"
  by (auto simp: decode_payloads_def ok_values_def map_filter_def split: sum.splits)

definition stx_of :: "committed_transaction \<Rightarrow> u64 \<times> data_payload list" where
  "stx_of t = (ct_tx_id t, ct_data_payloads t)"

lemma stream_commit_plain:
  "stream_commit X False from oc r (st, s) =
     (let (s', res) = oc s \<lparr> ct_tx_id = rh_tx_id (wr_header r), ct_commit_record = r,
        ct_data_payloads = get_or_empty (ss_pending_payloads st) (rh_tx_id (wr_header r)),
        ct_data_records = [] \<rparr>
      in ((st\<lparr>ss_pending_payloads :=
             AList.delete (rh_tx_id (wr_header r)) (ss_pending_payloads st)\<rparr>, s'), res))"
  by (simp add: stream_commit_def Let_def)

lemma stream_items_spec:
  assumes "torn_tail t" "\<forall>r \<in> set rs. valid_type r"
    and "\<And>tx. get_or_empty (ss_pending_payloads st) tx = decode_payloads X (P tx)"
    and "stream_items X False None from oc (st, s) (map Inr rs @ t) = ((st', s'), res)"
  shows "\<exists>ts. s' = fst (commit_all oc s ts) \<and>
     res = (case snd (commit_all oc s ts) of Inl e \<Rightarrow> Inl e | Inr _ \<Rightarrow> Inr (t \<noteq> [])) \<and>
     map stx_of ts = map (\<lambda>(tx, pls). (tx, decode_payloads X pls)) (spec_txs P (map rec_req rs))"
  using assms(2-)
proof (induction rs arbitrary: st s P st' s' res)
  case Nil
  with assms(1) show ?case by (intro exI [of _ "[]"]) (auto simp: torn_tail_def)
next
  case (Cons r rs)
  from Cons.prems(1) have v: "valid_type r" "\<forall>r \<in> set rs. valid_type r" by simp_all
  then obtain rt where rt: "record_type_of (rh_record_type (wr_header r)) = Inr rt"
    and req: "rec_req r = (rh_tx_id (wr_header r), rt, wr_payload r)"
    by (auto elim: rec_req_valid)
  let ?tx = "rh_tx_id (wr_header r)"
  let ?st = "st\<lparr>ss_last_sequence := seen_sequence (ss_last_sequence st) r\<rparr>"
  show ?case
  proof (cases "rt = Commit")
    case True
    let ?c = "\<lparr> ct_tx_id = ?tx, ct_commit_record = r,
        ct_data_payloads = get_or_empty (ss_pending_payloads st) ?tx, ct_data_records = [] \<rparr>"
    let ?st1 = "?st\<lparr>ss_pending_payloads := AList.delete ?tx (ss_pending_payloads st)\<rparr>"
    obtain s1 r1 where oc: "oc s ?c = (s1, r1)" by force
    have step: "stream_record X False None from oc (st, s) r = ((?st1, s1), r1)"
      using rt True oc by (simp add: stream_record_def stream_commit_plain Let_def)
    have P1: "get_or_empty (ss_pending_payloads ?st1) tx = decode_payloads X ((P(?tx := [])) tx)" for tx
      using Cons.prems(2) by simp
    obtain st2 s2 res2 where x: "stream_items X False None from oc (?st1, s1) (map Inr rs @ t) =
        ((st2, s2), res2)" by (metis prod.exhaust)
    from Cons.IH [OF v(2) P1 x] obtain ts where ts: "s2 = fst (commit_all oc s1 ts)"
      "res2 = (case snd (commit_all oc s1 ts) of Inl e \<Rightarrow> Inl e | Inr _ \<Rightarrow> Inr (t \<noteq> []))"
      "map stx_of ts = map (\<lambda>(tx, pls). (tx, decode_payloads X pls))
         (spec_txs (P(?tx := [])) (map rec_req rs))" by blast
    show ?thesis
    proof (intro exI [of _ "?c # ts"] conjI)
      show "map stx_of (?c # ts) = map (\<lambda>(tx, pls). (tx, decode_payloads X pls))
          (spec_txs P (map rec_req (r # rs)))"
        using ts(3) Cons.prems(2) True by (simp add: req stx_of_def)
      show "s' = fst (commit_all oc s (?c # ts))"
        using Cons.prems(3) step x ts oc by (cases r1) auto
      show "res = (case snd (commit_all oc s (?c # ts)) of Inl e \<Rightarrow> Inl e | Inr _ \<Rightarrow> Inr (t \<noteq> []))"
        using Cons.prems(3) step x ts oc by (cases r1) auto
    qed
  next
    case False
    define P' where "P' = (if rt = Data then P(?tx := P ?tx @ [wr_payload r])
              else if rt = Rollback then P(?tx := []) else P)"
    obtain st1 where step: "stream_record X False None from oc (st, s) r = ((st1, s), Inr ())"
      and P1: "\<And>tx. get_or_empty (ss_pending_payloads st1) tx = decode_payloads X (P' tx)"
      using rt False Cons.prems(2)
      by (cases rt) (auto simp: stream_record_def Let_def stream_begin_def stream_data_def P'_def
          decode_data_payload_def split: sum.splits)
    have "stream_items X False None from oc (st1, s) (map Inr rs @ t) = ((st', s'), res)"
      using Cons.prems(3) step by simp
    note IH = Cons.IH [OF v(2) P1 this]
    have "spec_txs P (map rec_req (r # rs)) = spec_txs P' (map rec_req rs)"
      using False by (cases rt) (simp_all add: req P'_def)
    with IH show ?thesis by simp
  qed
qed

subsection \<open>Requests of a crashed log\<close>

lemma req_of_valid: "req_of r = (tx, record_type_byte rt, pl) \<Longrightarrow> valid_type r \<and> rec_req r = (tx, rt, pl)"
  by (auto simp: req_of_def valid_type_def rec_req_def)

lemma reqs_valid:
  assumes "prefix (map req_of ks) (map (\<lambda>(tx, rt, pl). (tx, record_type_byte rt, pl)) as)"
  shows "(\<forall>r \<in> set ks. valid_type r) \<and> map rec_req ks = take (length ks) as"
proof -
  let ?f = "\<lambda>(tx, rt, pl). (tx, record_type_byte rt, pl)"
  from assms obtain zs where "map ?f as = map req_of ks @ zs" by (auto simp: prefix_def)
  then have "take (length ks) (map ?f as) = map req_of ks" by simp
  then have "map req_of ks = map ?f (take (length ks) as)" by (simp only: take_map)
  then show ?thesis
  proof (induction ks arbitrary: as)
    case (Cons k ks)
    then obtain a as' where as: "as = a # as'" by (cases as) auto
    obtain tx rt pl where a: "a = (tx, rt, pl)" by (metis prod_cases3)
    from Cons.prems as a have "valid_type k \<and> rec_req k = a" by (simp add: req_of_valid)
    with Cons.IH [of as'] Cons.prems as show ?case by simp
  qed simp
qed

subsection \<open>Properties\<close>

lemma recover_streaming_spec:
  assumes "wal_items X d key start = map Inr rs @ t" "torn_tail t" "\<forall>r \<in> set rs. valid_type r"
    and "recover_streaming X d key False None start from oc s = (s', res)"
  shows "\<exists>ts. map stx_of ts =
       map (\<lambda>(tx, pls). (tx, decode_payloads X pls)) (committed_spec (map rec_req rs)) \<and>
     s' = fst (commit_all oc s ts) \<and>
     (case snd (commit_all oc s ts) of Inl e \<Rightarrow> res = Inl e
      | Inr _ \<Rightarrow> \<exists>rr. res = Inr rr \<and> rr_torn_write_detected rr = (t \<noteq> []))"
proof -
  let ?st = "\<lparr> ss_pending_payloads = [], ss_pending_raw = [], ss_last_sequence = 0 \<rparr>"
  obtain st1 s1 r1 where x: "stream_items X False None from oc (?st, s) (map Inr rs @ t) = ((st1, s1), r1)"
    by (metis prod.exhaust)
  have "get_or_empty (ss_pending_payloads ?st) tx = decode_payloads X []" for tx by simp
  from stream_items_spec [OF assms(2,3) this x] obtain ts where
    "s1 = fst (commit_all oc s ts)"
    "r1 = (case snd (commit_all oc s ts) of Inl e \<Rightarrow> Inl e | Inr _ \<Rightarrow> Inr (t \<noteq> []))"
    "map stx_of ts = map (\<lambda>(tx, pls). (tx, decode_payloads X pls)) (committed_spec (map rec_req rs))"
    by (auto simp: committed_spec_txs)
  with x assms(1,4) show ?thesis
    by (intro exI [of _ ts]) (auto simp: recover_streaming_def split: sum.splits)
qed

text \<open>The callback that keeps what it is given.\<close>

definition collect :: "(u64 \<times> data_payload list) list \<Rightarrow> committed_transaction \<Rightarrow>
    (u64 \<times> data_payload list) list \<times> ('e + unit)" where
  "collect s t = (s @ [stx_of t], Inr ())"

lemma commit_all_collect: "commit_all collect s ts = (s @ map stx_of ts, Inr ())"
  by (induction ts arbitrary: s) (simp_all add: collect_def)

lemma recover_streaming_collect:
  assumes "wal_items X d key start = map Inr rs @ t" "torn_tail t" "\<forall>r \<in> set rs. valid_type r"
  shows "\<exists>rr. recover_streaming X d key False None start from collect [] =
     (map (\<lambda>(tx, pls). (tx, decode_payloads X pls)) (committed_spec (map rec_req rs)), Inr rr) \<and>
     rr_torn_write_detected rr = (t \<noteq> [])"
proof -
  obtain s' res where r: "recover_streaming X d key False None start from collect [] = (s', res)"
    by force
  from recover_streaming_spec [OF assms r] show ?thesis
    by (auto simp: commit_all_collect r)
qed

text \<open>
  C31: the two recovery passes agree.  On a log whose records have known types and
  ascending sequence numbers, with or without a torn end, the streaming pass hands its
  callback the transactions and decoded payloads that the accumulating pass returns, in the
  same order, and both report the same torn end.
\<close>

theorem recovery_passes_agree:
  assumes "wal_items X d key 0 = map Inr rs @ t" and "torn_tail t" and "\<forall>r \<in> set rs. valid_type r"
    and "sorted (map (\<lambda>r. rh_sequence (wr_header r)) rs)"
  shows "\<exists>rr rr'. recover_with_options X d key False = Inr rr \<and>
     recover_streaming X d key False None 0 from collect [] = (map stx_of (rr_committed rr), Inr rr') \<and>
     rr_torn_write_detected rr = rr_torn_write_detected rr'"
proof -
  from recover_spec_sorted [OF assms] obtain rr where rr: "recover_with_options X d key False = Inr rr"
    "map tx_of (rr_committed rr) = committed_spec (map rec_req rs)"
    "rr_torn_write_detected rr = (t \<noteq> [])" "\<forall>c \<in> set (rr_committed rr). decoded X c" by blast
  have "map (\<lambda>(tx, pls). (tx, decode_payloads X pls)) (map tx_of (rr_committed rr)) =
      map stx_of (rr_committed rr)"
    using rr(4) by (auto simp: tx_of_def stx_of_def decoded_def decode_payloads_def
        decode_data_payload_def [abs_def] comp_def)
  with recover_streaming_collect [OF assms(1-3), of "from"] rr show ?thesis
    by auto
qed

text \<open>A small log for the witnesses.\<close>

definition sample_reqs :: "append_req list" where
  "sample_reqs = [(7, Begin, [0]), (8, Data, [1]), (7, Data, [2]), (7, Commit, [3])]"

lemma sample_log:
  "\<exists>d' w w' rs. open_with_options sample_ext (sample_os []) 100 PerRecord None = (d', Inr w) \<and>
     app_all (append_req sample_ext) w sample_reqs = (w', Inr rs) \<and>
     (\<forall>a \<in> set sample_reqs. payload_fits None (snd (snd a)))"
proof -
  obtain d' w where o: "open_with_options sample_ext (sample_os []) 100 PerRecord None = (d', Inr w)"
    and nf: "no_faults w"
    using open_empty_progress [of "sample_os []" sample_ext 100 PerRecord None] by auto
  note w = open_empty_inv [OF sample_os_simps(1) o]
  have fits: "\<forall>a \<in> set sample_reqs. payload_fits None (snd (snd a))"
    by (simp add: payload_fits_def MAX_RECORD_PAYLOAD_def sample_reqs_def)
  from append_all_progress [OF sample_ext_ok nf w(1)] fits w(2) o show ?thesis by metis
qed

lemma sorted_unat:
  "sorted (map (\<lambda>x. unat (f x)) xs) \<Longrightarrow> sorted (map f xs)" for f :: "'a \<Rightarrow> 'b::len word"
  by (simp add: sorted_wrt_map word_le_nat_alt)

theorem recovery_passes_agree_witness:
  "\<exists>d rs rr rr'. length rs = 4 \<and> wal_items sample_ext d None 0 = map Inr rs \<and>
     recover_with_options sample_ext d None False = Inr rr \<and>
     recover_streaming sample_ext d None False None 0 id collect [] =
       (map stx_of (rr_committed rr), Inr rr')"
proof -
  obtain d' w w' rs where l:
    "open_with_options sample_ext (sample_os []) 100 PerRecord None = (d', Inr w)"
    "app_all (append_req sample_ext) w sample_reqs = (w', Inr rs)"
    "\<forall>a \<in> set sample_reqs. payload_fits None (snd (snd a))" using sample_log by blast
  have "length sample_reqs < 2 ^ 64" by (simp add: sample_reqs_def)
  note r = fresh_log_read [OF sample_ext_ok sample_os_simps(1) l this]
  from r have items: "wal_items sample_ext (ww_os w') None 0 = map Inr rs @ []" by simp
  have "\<forall>r \<in> set rs. valid_type r"
    using reqs_valid [of rs sample_reqs] r by simp
  moreover have "sorted (map (\<lambda>r. rh_sequence (wr_header r)) rs)"
    by (rule sorted_unat) (use r in \<open>simp del: upt_Suc\<close>)
  moreover have "length rs = 4"
    using app_all_length [OF l(2)] by (simp add: sample_reqs_def)
  ultimately show ?thesis
    using recovery_passes_agree [OF items torn_tail_Nil, of id] items by auto
qed

text \<open>
  Crash recovery.  Whatever I/O errors occur while a fresh log is written and whenever
  the machine crashes, streaming recovery succeeds and returns exactly the transactions
  that are committed in some prefix of the requests: no data of an uncommitted or rolled
  back transaction and no committed transaction in part.  With \<^verbatim>\<open>PerRecord\<close> sync and no
  error the prefix is everything.
\<close>

theorem crash_recovery:
  assumes "ext_ok X" and "os_files d = []" and "open_with_options X d max_size mode key = (d', Inr w)"
    and "app_all (append_req X) w as = (w', res)" and "crash (ww_os w') e"
    and "\<forall>a \<in> set as. payload_fits key (snd (snd a))"
  shows "\<exists>n rr. n \<le> length as \<and> recover_streaming X e key False None 0 from collect [] =
       (map (\<lambda>(tx, pls). (tx, decode_payloads X pls)) (committed_spec (take n as)), Inr rr) \<and>
     (\<forall>rs. res = Inr rs \<and> mode = PerRecord \<longrightarrow> n = length as)"
proof -
  from fresh_log_crash [OF assms] obtain ks t where
    ks: "wal_items X e key 0 = map Inr ks @ t" "torn_tail t"
    "prefix (map req_of ks) (map (\<lambda>(tx, rt, pl). (tx, record_type_byte rt, pl)) as)"
    "\<forall>rs. res = Inr rs \<and> mode = PerRecord \<longrightarrow> ks = rs" by blast
  note v = reqs_valid [OF ks(3)]
  have "length ks \<le> length as"
    using prefix_length_le [OF ks(3)] by simp
  moreover have "length rs = length as" if "res = Inr rs" for rs
    using that assms(4) by (auto dest: app_all_length)
  ultimately show ?thesis
    using recover_streaming_collect [OF ks(1,2), of "from"] v ks(4)
    by (intro exI [of _ "length ks"]) auto
qed

theorem crash_recovery_witness:
  "\<exists>e rr. recover_streaming sample_ext e None False None 0 id collect [] =
     (map (\<lambda>(tx, pls). (tx, decode_payloads sample_ext pls)) [(7, [[2]])], Inr rr)"
proof -
  obtain d' w w' rs where l:
    "open_with_options sample_ext (sample_os []) 100 PerRecord None = (d', Inr w)"
    "app_all (append_req sample_ext) w sample_reqs = (w', Inr rs)"
    "\<forall>a \<in> set sample_reqs. payload_fits None (snd (snd a))" using sample_log by blast
  have "committed_spec sample_reqs = [(7, [[2]])]"
    by (simp add: committed_spec_txs sample_reqs_def)
  then show ?thesis
    using crash_recovery [OF sample_ext_ok sample_os_simps(1) l(1,2) crash_refl l(3), of id]
    by auto
qed

subsection \<open>What commit verification covers\<close>

lemma row_hash_bytes_inject:
  assumes "row_hash_bytes X rs = Inr bs" "row_hash_bytes X us = Inr bs"
  shows "list_all2 (\<lambda>a b. \<exists>p q. decode_data_payload X a = Inr p \<and> decode_data_payload X b = Inr q \<and>
     dp_row_hash p = dp_row_hash q) rs us"
  using assms
proof (induction rs arbitrary: us bs)
  case Nil
  then show ?case by (cases us) (auto split: sum.splits dest: arg_cong [of _ _ length])
next
  case (Cons r rs)
  from Cons.prems(1) obtain p bs' where p: "decode_data_payload X r = Inr p"
    "row_hash_bytes X rs = Inr bs'" "bs = hash_raw (dp_row_hash p) @ bs'"
    by (auto split: sum.splits)
  then have "bs \<noteq> []" by (auto dest: arg_cong [of _ _ length])
  with Cons.prems(2) obtain u us' q cs where u: "us = u # us'" "decode_data_payload X u = Inr q"
    "row_hash_bytes X us' = Inr cs" "bs = hash_raw (dp_row_hash q) @ cs"
    by (cases us) (auto split: sum.splits)
  from p(3) u(4) have "hash_raw (dp_row_hash p) = hash_raw (dp_row_hash q)" "bs' = cs"
    by simp_all
  with Cons.IH [OF p(2), of us'] p u show ?case by simp
qed

text \<open>
  C33: a commit record binds the row hashes.  If verification accepts two lists of data
  records under the same commit record, the lists have the same length and the same row
  hashes position by position, unless BLAKE3 collides on the two concatenations.
\<close>

theorem verify_commit_binds_row_hashes:
  assumes "verify_commit_full X c rs = Inr ()" and "verify_commit_full X c us = Inr ()"
    and "inj_on (blake3 X) {bs. row_hash_bytes X rs = Inr bs \<or> row_hash_bytes X us = Inr bs}"
  shows "list_all2 (\<lambda>a b. \<exists>p q. decode_data_payload X a = Inr p \<and> decode_data_payload X b = Inr q \<and>
     dp_row_hash p = dp_row_hash q) rs us"
proof -
  from assms(1) obtain p bs where p: "decode_commit_payload X c = Inr p"
    "row_hash_bytes X rs = Inr bs" "blake3 X bs = cp_tx_hash p"
    by (auto simp: verify_commit_full_def Let_def split: sum.splits if_splits)
  from assms(2) p obtain cs where cs: "row_hash_bytes X us = Inr cs" "blake3 X cs = cp_tx_hash p"
    by (auto simp: verify_commit_full_def Let_def split: sum.splits if_splits)
  have "bs = cs"
    by (rule inj_onD [OF assms(3)]) (use p cs in simp_all)
  with row_hash_bytes_inject [OF p(2)] cs show ?thesis by simp
qed

definition sample_header :: "record_type \<Rightarrow> record_header" where
  "sample_header rt = \<lparr> rh_magic = WAL_MAGIC, rh_version = WAL_VERSION,
     rh_record_type = record_type_byte rt, rh_tx_id = 7, rh_sequence = 1, rh_timestamp_ns = 0,
     rh_payload_len = 0 \<rparr>"

definition sample_payload :: "bytes \<Rightarrow> data_payload" where
  "sample_payload row = \<lparr> dp_table_id = 1, dp_page_id = 0, dp_slot_id = 0, dp_mutation = Insert,
     dp_row_data = row, dp_row_hash = 5, dp_prev_hash = None \<rparr>"

definition sample_data_record :: "bytes \<Rightarrow> wal_record" where
  "sample_data_record row = \<lparr> wr_header = sample_header Data,
     wr_payload = enc_data sample_ext (sample_payload row), wr_crc32 = 0 \<rparr>"

definition sample_commit_record :: wal_record where
  "sample_commit_record = \<lparr> wr_header = sample_header Commit, wr_payload = enc_commit sample_ext
     \<lparr> cp_record_count = 1, cp_tx_hash = blake3 sample_ext (hash_raw 5), cp_signature = [],
       cp_signer_pubkey = [] \<rparr>, wr_crc32 = 0 \<rparr>"

lemma sample_decode [simp]:
  "decode_data_payload sample_ext (sample_data_record row) = Inr (sample_payload row)"
  by (simp add: decode_data_payload_def decode_data_payload_from_bytes_def sample_data_record_def
      ext_okD [OF sample_ext_ok])

lemma sample_verify: "verify_commit_full sample_ext sample_commit_record [sample_data_record row] = Inr ()"
  by (simp add: verify_commit_full_def verify_commit_signature_def decode_commit_payload_def
      sample_commit_record_def ext_okD [OF sample_ext_ok] Let_def sample_payload_def)

theorem verify_commit_binds_row_hashes_witness:
  "list_all2 (\<lambda>a b. \<exists>p q. decode_data_payload sample_ext a = Inr p \<and>
     decode_data_payload sample_ext b = Inr q \<and> dp_row_hash p = dp_row_hash q)
     [sample_data_record [1]] [sample_data_record [9]]"
  by (rule verify_commit_binds_row_hashes [OF sample_verify sample_verify])
    (simp add: sample_payload_def inj_on_def)

lemma row_hash_bytes_append:
  assumes "decode_data_payload X a = Inr p" "decode_data_payload X b = Inr q"
    "dp_row_hash p = dp_row_hash q"
  shows "row_hash_bytes X (rs @ a # us) = row_hash_bytes X (rs @ b # us)"
  using assms by (induction rs) (simp_all split: sum.splits)

text \<open>
  C34: a commit record does not bind the rows.  Replacing the row data of a data record and
  keeping its stored row hash leaves the verdict of commit verification unchanged, signed
  or not: recovery never compares \<^verbatim>\<open>row_hash\<close> with the hash of \<^verbatim>\<open>row_data\<close>.
\<close>

theorem verify_commit_ignores_row_data:
  assumes "ext_ok X" and "decode_data_payload X r = Inr p"
  shows "verify_commit_full X c (rs @ r\<lparr>wr_payload := enc_data X (p\<lparr>dp_row_data := forged\<rparr>)\<rparr> # us) =
     verify_commit_full X c (rs @ r # us)"
proof -
  let ?r = "r\<lparr>wr_payload := enc_data X (p\<lparr>dp_row_data := forged\<rparr>)\<rparr>"
  have "decode_data_payload X ?r = Inr (p\<lparr>dp_row_data := forged\<rparr>)"
    using assms(1)
    by (simp add: decode_data_payload_def decode_data_payload_from_bytes_def ext_okD)
  from row_hash_bytes_append [OF this assms(2)]
  have rows: "row_hash_bytes X (rs @ ?r # us) = row_hash_bytes X (rs @ r # us)" by simp
  have len: "length (rs @ ?r # us) = length (rs @ r # us)" by simp
  show ?thesis
    unfolding verify_commit_full_def rows len ..
qed

theorem verify_commit_ignores_row_data_witness:
  "verify_commit_full sample_ext sample_commit_record
     ([] @ (sample_data_record [1])\<lparr>wr_payload := enc_data sample_ext
        ((sample_payload [1])\<lparr>dp_row_data := [9]\<rparr>)\<rparr> # []) = Inr ()"
  unfolding verify_commit_ignores_row_data [OF sample_ext_ok sample_decode]
  by (simp add: sample_verify)

end
