(* ===== verification/Transaction.thy ===== *)
theory Transaction
  imports Wal_Recovery_Props
begin

text \<open>
  \<^verbatim>\<open>crates/vledger-transaction\<close>: the state machine of one transaction (\<^verbatim>\<open>tx.rs\<close>), the
  transaction manager on top of the write-ahead log (\<^verbatim>\<open>manager.rs\<close>) and row visibility
  (\<^verbatim>\<open>mvcc.rs\<close>).

  The running BLAKE3 hasher of a transaction is the byte string it has been fed.
\<close>

subsection \<open>Transactions\<close>

datatype tx_error =
    TxWal wal_error
  | TxPage string
  | TxNotFound u64
  | AlreadyCommitted u64
  | AlreadyRolledBack u64
  | SerializationConflict u64
  | Deadlock u64
  | ConstraintViolation string
  | FinancialInvariant string
  | IdempotencyKeyConflict string
  | AppendOnlyViolation string
  | TxIo

datatype tx_state = Active | Committed | RolledBack

record pending_mutation =
  pm_table_id :: u32
  pm_page_id :: u64
  pm_slot_id :: u16
  pm_kind :: mutation_kind
  pm_row_data :: bytes
  pm_row_hash :: hash
  pm_prev_hash :: "hash option"

record transaction =
  t_tx_id :: u64
  t_snapshot_tx_id :: u64
  t_state :: tx_state
  t_started_at :: timestamp
  t_description :: "string option"
  t_mutations :: "pending_mutation list"
  t_hasher :: bytes
  t_idempotency_key :: "string option"

definition transaction_new :: "u64 \<Rightarrow> u64 \<Rightarrow> timestamp \<Rightarrow> string option \<Rightarrow> transaction" where
  "transaction_new tx_id snapshot now descr =
     \<lparr> t_tx_id = tx_id, t_snapshot_tx_id = snapshot, t_state = Active, t_started_at = now,
       t_description = descr, t_mutations = [], t_hasher = [], t_idempotency_key = None \<rparr>"

definition ensure_active :: "transaction \<Rightarrow> tx_error + unit" where
  "ensure_active t = (case t_state t of
       Active \<Rightarrow> Inr ()
     | Committed \<Rightarrow> Inl (AlreadyCommitted (t_tx_id t))
     | RolledBack \<Rightarrow> Inl (AlreadyRolledBack (t_tx_id t)))"

definition tx_add_mutation :: "transaction \<Rightarrow> pending_mutation \<Rightarrow> transaction \<times> (tx_error + unit)" where
  "tx_add_mutation t m = and_then (t, ensure_active t) (\<lambda>t _.
     (t\<lparr>t_hasher := t_hasher t @ hash_raw (pm_row_hash m), t_mutations := t_mutations t @ [m]\<rparr>, Inr ()))"

definition tx_set_idempotency_key :: "transaction \<Rightarrow> string \<Rightarrow> transaction \<times> (tx_error + unit)" where
  "tx_set_idempotency_key t k = and_then (t, ensure_active t) (\<lambda>t _.
     (t\<lparr>t_idempotency_key := Some k\<rparr>, Inr ()))"

definition tx_hash :: "ext \<Rightarrow> transaction \<Rightarrow> hash" where
  "tx_hash X t = blake3 X (t_hasher t)"

definition mark_committed :: "transaction \<Rightarrow> transaction \<times> (tx_error + unit)" where
  "mark_committed t = and_then (t, ensure_active t) (\<lambda>t _. (t\<lparr>t_state := Committed\<rparr>, Inr ()))"

definition mark_rolled_back :: "transaction \<Rightarrow> transaction \<times> (tx_error + unit)" where
  "mark_rolled_back t = and_then (t, ensure_active t) (\<lambda>t _.
     (t\<lparr>t_state := RolledBack, t_mutations := []\<rparr>, Inr ()))"

definition mutation_count :: "transaction \<Rightarrow> nat" where
  "mutation_count t = length (t_mutations t)"

subsection \<open>The transaction manager\<close>

record transaction_manager =
  tm_wal :: wal_writer
  tm_next_tx_id :: u64
  tm_active :: "(u64 \<times> transaction) list"
  tm_committed_idempotency_keys :: "string set"
  tm_last_committed_tx_id :: u64
  tm_signing_key :: "bytes option"

definition lift_wal ::
  "transaction_manager \<Rightarrow> wal_writer \<times> (wal_error + 'a) \<Rightarrow> transaction_manager \<times> (tx_error + 'a)" where
  "lift_wal tm p = (tm\<lparr>tm_wal := fst p\<rparr>, map_err TxWal (snd p))"

definition max_tx :: "u64 \<Rightarrow> committed_transaction \<Rightarrow> u64 \<times> (tx_error + unit)" where
  "max_tx s t = (if ct_tx_id t > s then ct_tx_id t else s, Inr ())"

definition tm_open ::
  "ext \<Rightarrow> os \<Rightarrow> bytes option \<Rightarrow> wal_sync_mode \<Rightarrow> os \<times> (tx_error + transaction_manager)" where
  "tm_open X d sk mode =
     (case open_with_options X d DEFAULT_SEGMENT_SIZE mode None of
        (d1, Inl e) \<Rightarrow> (d1, Inl (TxWal e))
      | (d1, Inr wal) \<Rightarrow>
          (case recover_streaming X d1 None False None 0 TxWal max_tx 0 of
             (_, Inl e) \<Rightarrow> (d1, Inl e)
           | (last_tx, Inr _) \<Rightarrow>
               (d1, Inr \<lparr> tm_wal = wal, tm_next_tx_id = last_tx + 1, tm_active = [],
                  tm_committed_idempotency_keys = {}, tm_last_committed_tx_id = last_tx,
                  tm_signing_key = sk \<rparr>)))"

definition tm_begin ::
  "ext \<Rightarrow> transaction_manager \<Rightarrow> timestamp \<Rightarrow> string option \<Rightarrow> transaction_manager \<times> (tx_error + u64)" where
  "tm_begin X tm now descr =
     (let tx_id = tm_next_tx_id tm;
          snapshot = tm_last_committed_tx_id tm + 1;
          tm1 = tm\<lparr>tm_next_tx_id := tx_id + 1\<rparr>
      in and_then (lift_wal tm1 (wal_append X (tm_wal tm1) tx_id Begin (enc_begin X descr))) (\<lambda>tm2 _.
           (tm2\<lparr>tm_active := AList.update tx_id (transaction_new tx_id snapshot now descr) (tm_active tm2)\<rparr>,
            Inr tx_id)))"

text \<open>\<^verbatim>\<open>self.active.get_mut(&tx_id).ok_or(NotFound)?\<close> followed by an operation on the entry.\<close>

definition on_active ::
  "transaction_manager \<Rightarrow> u64 \<Rightarrow> (transaction \<Rightarrow> transaction \<times> (tx_error + unit)) \<Rightarrow>
     transaction_manager \<times> (tx_error + unit)" where
  "on_active tm tx_id f = (case map_of (tm_active tm) tx_id of
       None \<Rightarrow> (tm, Inl (TxNotFound tx_id))
     | Some t \<Rightarrow> (let (t', r) = f t in (tm\<lparr>tm_active := AList.update tx_id t' (tm_active tm)\<rparr>, r)))"

definition new_mutation ::
  "ext \<Rightarrow> u32 \<Rightarrow> u64 \<Rightarrow> u16 \<Rightarrow> mutation_kind \<Rightarrow> bytes \<Rightarrow> hash option \<Rightarrow> pending_mutation" where
  "new_mutation X table_id page_id slot_id kind row_data prev_hash =
     \<lparr> pm_table_id = table_id, pm_page_id = page_id, pm_slot_id = slot_id, pm_kind = kind,
       pm_row_data = row_data, pm_row_hash = blake3 X row_data, pm_prev_hash = prev_hash \<rparr>"

definition tm_add_mutation ::
  "ext \<Rightarrow> transaction_manager \<Rightarrow> u64 \<Rightarrow> u32 \<Rightarrow> u64 \<Rightarrow> u16 \<Rightarrow> mutation_kind \<Rightarrow> bytes \<Rightarrow> hash option \<Rightarrow>
     transaction_manager \<times> (tx_error + unit)" where
  "tm_add_mutation X tm tx_id table_id page_id slot_id kind row_data prev_hash =
     on_active tm tx_id (\<lambda>t. tx_add_mutation t
       (new_mutation X table_id page_id slot_id kind row_data prev_hash))"

definition tm_set_idempotency_key ::
  "transaction_manager \<Rightarrow> u64 \<Rightarrow> string \<Rightarrow> transaction_manager \<times> (tx_error + unit)" where
  "tm_set_idempotency_key tm tx_id key =
     (if key \<in> tm_committed_idempotency_keys tm then (tm, Inl (IdempotencyKeyConflict key))
      else on_active tm tx_id (\<lambda>t. tx_set_idempotency_key t key))"

definition mutation_payload :: "pending_mutation \<Rightarrow> data_payload" where
  "mutation_payload m = \<lparr> dp_table_id = pm_table_id m, dp_page_id = pm_page_id m,
     dp_slot_id = pm_slot_id m, dp_mutation = pm_kind m, dp_row_data = pm_row_data m,
     dp_row_hash = pm_row_hash m, dp_prev_hash = pm_prev_hash m \<rparr>"

definition data_reqs :: "ext \<Rightarrow> transaction \<Rightarrow> u64 \<Rightarrow> append_req list" where
  "data_reqs X t tx_id = map (\<lambda>m. (tx_id, Data, enc_data X (mutation_payload m))) (t_mutations t)"

definition commit_payload_of :: "ext \<Rightarrow> bytes option \<Rightarrow> transaction \<Rightarrow> commit_payload" where
  "commit_payload_of X sk t =
     (let h = tx_hash X t; n = of_nat (mutation_count t);
          (sig, pk) = sign_with X sk (commit_message h n)
      in \<lparr> cp_record_count = n, cp_tx_hash = h, cp_signature = sig, cp_signer_pubkey = pk \<rparr>)"

definition finish_commit ::
  "transaction_manager \<Rightarrow> u64 \<Rightarrow> string option \<Rightarrow> transaction_manager \<times> (tx_error + unit)" where
  "finish_commit tm tx_id key =
     and_then
       (case map_of (tm_active tm) tx_id of
          None \<Rightarrow> (tm, Inr ())
        | Some t \<Rightarrow>
            let tm1 = tm\<lparr>tm_active := AList.delete tx_id (tm_active tm)\<rparr>
            in (case snd (mark_committed t) of
                  Inl e \<Rightarrow> (tm1, Inl e)
                | Inr _ \<Rightarrow> (tm1\<lparr>tm_last_committed_tx_id :=
                    (if tx_id > tm_last_committed_tx_id tm1 then tx_id
                     else tm_last_committed_tx_id tm1)\<rparr>, Inr ())))
       (\<lambda>tm2 _. ((case key of
            None \<Rightarrow> tm2
          | Some k \<Rightarrow> tm2\<lparr>tm_committed_idempotency_keys := insert k (tm_committed_idempotency_keys tm2)\<rparr>),
          Inr ()))"

definition tm_commit :: "ext \<Rightarrow> transaction_manager \<Rightarrow> u64 \<Rightarrow> transaction_manager \<times> (tx_error + unit)" where
  "tm_commit X tm tx_id = (case map_of (tm_active tm) tx_id of
       None \<Rightarrow> (tm, Inl (TxNotFound tx_id))
     | Some t \<Rightarrow>
         if (case t_idempotency_key t of None \<Rightarrow> False | Some k \<Rightarrow> k \<in> tm_committed_idempotency_keys tm)
         then (tm\<lparr>tm_active := AList.delete tx_id (tm_active tm)\<rparr>, Inr ())
         else
           and_then (lift_wal tm (app_all (append_req X) (tm_wal tm) (data_reqs X t tx_id))) (\<lambda>tm1 _.
           and_then (lift_wal tm1 (wal_append X (tm_wal tm1) tx_id Commit
                       (enc_commit X (commit_payload_of X (tm_signing_key tm) t)))) (\<lambda>tm2 _.
             finish_commit tm2 tx_id (t_idempotency_key t))))"

definition tm_rollback :: "ext \<Rightarrow> transaction_manager \<Rightarrow> u64 \<Rightarrow> transaction_manager \<times> (tx_error + unit)" where
  "tm_rollback X tm tx_id =
     and_then (on_active tm tx_id mark_rolled_back) (\<lambda>tm1 _.
     and_then (lift_wal tm1 (wal_append X (tm_wal tm1) tx_id Rollback [])) (\<lambda>tm2 _.
       (tm2\<lparr>tm_active := AList.delete tx_id (tm_active tm2)\<rparr>, Inr ())))"

definition precompute_commit_signature ::
  "ext \<Rightarrow> transaction_manager \<Rightarrow> u64 \<Rightarrow> (bytes \<times> bytes) option" where
  "precompute_commit_signature X tm tx_id = (case map_of (tm_active tm) tx_id of
       None \<Rightarrow> None
     | Some t \<Rightarrow> map_option (\<lambda>k.
         let msg = commit_message (tx_hash X t) (of_nat (mutation_count t))
         in (ed_sign X k msg, ed_public X k)) (tm_signing_key tm))"

definition tm_checkpoint :: "transaction_manager \<Rightarrow> transaction_manager \<times> (tx_error + u64)" where
  "tm_checkpoint tm = lift_wal tm (wal_checkpoint (tm_wal tm))"

definition checkpoint_signed :: "ext \<Rightarrow> transaction_manager \<Rightarrow> hash \<Rightarrow> transaction_manager \<times> (tx_error + u64)" where
  "checkpoint_signed X tm root =
     lift_wal tm (checkpoint_with_merkle_root X (tm_wal tm) root (tm_signing_key tm))"

definition signing_pubkey :: "ext \<Rightarrow> transaction_manager \<Rightarrow> bytes option" where
  "signing_pubkey X tm = map_option (ed_public X) (tm_signing_key tm)"

definition sign_bytes :: "ext \<Rightarrow> transaction_manager \<Rightarrow> bytes \<Rightarrow> (bytes \<times> bytes) option" where
  "sign_bytes X tm msg = map_option (\<lambda>k. (ed_sign X k msg, ed_public X k)) (tm_signing_key tm)"

subsection \<open>Row visibility\<close>

record row_version =
  rv_tx_id_created :: u64
  rv_tx_id_deleted :: u64
  rv_row_sequence :: u32
  rv_data :: bytes
  rv_data_hash :: hash
  rv_prev_hash :: hash

datatype visibility = Visible | TooNew | Deleted

definition is_visible :: "row_version \<Rightarrow> u64 \<Rightarrow> visibility" where
  "is_visible v snapshot =
     (if rv_tx_id_created v \<ge> snapshot then TooNew
      else if rv_tx_id_deleted v \<noteq> 0 \<and> rv_tx_id_deleted v < snapshot then Deleted
      else Visible)"

definition latest_visible :: "row_version list \<Rightarrow> u64 \<Rightarrow> row_version option" where
  "latest_visible versions snapshot = find (\<lambda>v. is_visible v snapshot = Visible) (rev versions)"

end
