(* ===== verification/Pages.thy ===== *)
theory Pages
  imports Crypto Wal_Disk Append_Log
begin

text \<open>
  \<^verbatim>\<open>crates/vledger-pages\<close>: slotted pages (\<^verbatim>\<open>header.rs\<close>, \<^verbatim>\<open>page.rs\<close>) and the page store
  (\<^verbatim>\<open>store.rs\<close>).

  The bincode codec of the page header is the parameter \<open>P\<close>; BLAKE3, CRC-32 and AES-GCM are
  fields of \<open>X\<close>.  Copies into the buffer are \<open>put_slice\<close>; every range is in bounds on the pages
  the operations build (\<open>page_inv\<close>), where \<^verbatim>\<open>copy_from_slice\<close> does not panic.
\<close>

subsection \<open>Header\<close>

definition PAGE_MAGIC :: u32 where "PAGE_MAGIC = 0x56475047"
definition PAGE_VERSION :: byte where "PAGE_VERSION = 1"
definition DEFAULT_PAGE_SIZE :: nat where "DEFAULT_PAGE_SIZE = 8 * 1024"
definition PAGE_HEADER_SIZE :: nat where "PAGE_HEADER_SIZE = 66"
definition SLOT_DIR_ENTRY_SIZE :: nat where "SLOT_DIR_ENTRY_SIZE = 4"

datatype page_error =
    PageIo
  | PageChecksumMismatch u64 u32 u32
  | PageBadMagic u64
  | PageUnsupportedVersion u64 byte
  | PageFull u64 nat nat
  | SlotNotFound u64 u16
  | PageSealed u64
  | PageContentHashMismatch u64
  | PageCrypto crypto_error
  | PageSerialization string
  | PagePanic

record page_header =
  ph_magic :: u32
  ph_version :: byte
  ph_flags :: byte
  ph_page_id :: u64
  ph_table_id :: u32
  ph_prev_page_id :: u64
  ph_slot_count :: u16
  ph_free_bytes :: u16
  ph_content_hash :: hash
  ph_crc32 :: u32

definition page_header_new :: "u64 \<Rightarrow> u32 \<Rightarrow> nat \<Rightarrow> page_header" where
  "page_header_new page_id table_id page_size =
     \<lparr> ph_magic = PAGE_MAGIC, ph_version = PAGE_VERSION, ph_flags = 0, ph_page_id = page_id,
       ph_table_id = table_id, ph_prev_page_id = 0, ph_slot_count = 0,
       ph_free_bytes = of_nat (page_size - PAGE_HEADER_SIZE), ph_content_hash = ZERO_HASH,
       ph_crc32 = 0 \<rparr>"

definition validate_magic :: "page_header \<Rightarrow> bool" where
  "validate_magic h \<longleftrightarrow> ph_magic h = PAGE_MAGIC \<and> ph_version h = PAGE_VERSION"

record page_codec =
  enc_page_header :: "page_header \<Rightarrow> bytes"
  dec_page_header :: "bytes \<Rightarrow> string + page_header"

text \<open>The fixed-width encoding: 66 bytes, the checksum in the last four.\<close>

definition page_codec_ok :: "page_codec \<Rightarrow> bool" where
  "page_codec_ok P \<longleftrightarrow>
     (\<forall>h. length (enc_page_header P h) = PAGE_HEADER_SIZE) \<and>
     (\<forall>h. dec_page_header P (enc_page_header P h) = Inr h) \<and>
     (\<forall>h c. take (PAGE_HEADER_SIZE - 4) (enc_page_header P (h\<lparr>ph_crc32 := c\<rparr>)) =
        take (PAGE_HEADER_SIZE - 4) (enc_page_header P h))"

subsection \<open>Pages\<close>

record slot_entry =
  se_offset :: u16
  se_length :: u16

record page =
  pg_buf :: bytes
  pg_header :: page_header
  pg_sealed :: bool
  pg_page_size :: nat

definition put_slice :: "bytes \<Rightarrow> nat \<Rightarrow> bytes \<Rightarrow> bytes" where
  "put_slice buf i bs = take i buf @ bs @ drop (i + length bs) buf"

definition flush_header :: "page_codec \<Rightarrow> page \<Rightarrow> page" where
  "flush_header P p = p\<lparr>pg_buf := put_slice (pg_buf p) 0 (enc_page_header P (pg_header p))\<rparr>"

definition blank_page :: "page_codec \<Rightarrow> u64 \<Rightarrow> u32 \<Rightarrow> nat \<Rightarrow> page" where
  "blank_page P page_id table_id page_size =
     flush_header P \<lparr> pg_buf = replicate page_size 0, pg_header = page_header_new page_id table_id page_size,
       pg_sealed = False, pg_page_size = page_size \<rparr>"

text \<open>The assertion on the page size panics where the result is \<open>None\<close>; it holds for the default size.\<close>

definition page_with_size :: "page_codec \<Rightarrow> u64 \<Rightarrow> u32 \<Rightarrow> nat \<Rightarrow> page option" where
  "page_with_size P page_id table_id page_size =
     (if page_size \<ge> PAGE_HEADER_SIZE + 64 then Some (blank_page P page_id table_id page_size) else None)"

definition page_new :: "page_codec \<Rightarrow> u64 \<Rightarrow> u32 \<Rightarrow> page" where
  "page_new P page_id table_id = blank_page P page_id table_id DEFAULT_PAGE_SIZE"

lemma page_new_default: "page_with_size P page_id table_id DEFAULT_PAGE_SIZE = Some (page_new P page_id table_id)"
  by (simp add: page_with_size_def page_new_def DEFAULT_PAGE_SIZE_def PAGE_HEADER_SIZE_def)

definition u16_at :: "bytes \<Rightarrow> nat \<Rightarrow> u16" where
  "u16_at buf i = of_nat (of_le (take 2 (drop i buf)))"

definition read_slot_entry :: "page \<Rightarrow> nat \<Rightarrow> slot_entry option" where
  "read_slot_entry p index =
     (if index \<ge> unat (ph_slot_count (pg_header p)) then None
      else let dir_offset = PAGE_HEADER_SIZE + index * SLOT_DIR_ENTRY_SIZE
           in Some \<lparr> se_offset = u16_at (pg_buf p) dir_offset,
                     se_length = u16_at (pg_buf p) (dir_offset + 2) \<rparr>)"

definition slot_length :: "page \<Rightarrow> nat \<Rightarrow> nat" where
  "slot_length p i = (case read_slot_entry p i of None \<Rightarrow> 0 | Some e \<Rightarrow> unat (se_length e))"

definition write_slot :: "page \<Rightarrow> bytes \<Rightarrow> page \<times> (page_error + u16)" where
  "write_slot p data =
     (let h = pg_header p;
          slot_count = unat (ph_slot_count h);
          needed = SLOT_DIR_ENTRY_SIZE + length data
      in if pg_sealed p then (p, Inl (PageSealed (ph_page_id h)))
         else if unat (ph_free_bytes h) < needed
         then (p, Inl (PageFull (ph_page_id h) (unat (ph_free_bytes h)) needed))
         else
           let data_end = pg_page_size p - sum_list (map (slot_length p) [0..<slot_count]);
               data_start = data_end - length data;
               dir_offset = PAGE_HEADER_SIZE + slot_count * SLOT_DIR_ENTRY_SIZE;
               slot_offset = of_nat (data_start - PAGE_HEADER_SIZE) :: u16;
               buf1 = put_slice (pg_buf p) data_start data;
               buf2 = put_slice buf1 dir_offset (le_bytes 2 (unat slot_offset));
               buf3 = put_slice buf2 (dir_offset + 2) (le_bytes 2 (unat (of_nat (length data) :: u16)))
           in (p\<lparr>pg_buf := buf3, pg_header := h\<lparr>ph_slot_count := ph_slot_count h + 1,
                  ph_free_bytes := ph_free_bytes h - of_nat needed\<rparr>\<rparr>,
               Inr (of_nat slot_count)))"

definition read_slot :: "page \<Rightarrow> u16 \<Rightarrow> page_error + bytes" where
  "read_slot p slot_id = (case read_slot_entry p (unat slot_id) of
       None \<Rightarrow> Inl (SlotNotFound (ph_page_id (pg_header p)) slot_id)
     | Some e \<Rightarrow> Inr (take (unat (se_length e)) (drop (PAGE_HEADER_SIZE + unat (se_offset e)) (pg_buf p))))"

definition page_crc :: "ext \<Rightarrow> bytes \<Rightarrow> u32" where
  "page_crc X buf = crc32 X (take (PAGE_HEADER_SIZE - 4) buf @ drop PAGE_HEADER_SIZE buf)"

definition seal :: "ext \<Rightarrow> page_codec \<Rightarrow> page \<Rightarrow> page" where
  "seal X P p =
     (let p1 = flush_header P p;
          h = (pg_header p1)\<lparr>ph_content_hash := blake3 X (drop PAGE_HEADER_SIZE (pg_buf p1)), ph_crc32 := 0\<rparr>;
          p2 = flush_header P (p1\<lparr>pg_header := h\<rparr>);
          p3 = flush_header P (p2\<lparr>pg_header := h\<lparr>ph_crc32 := page_crc X (pg_buf p2)\<rparr>\<rparr>)
      in p3\<lparr>pg_sealed := True\<rparr>)"

definition page_hash :: "ext \<Rightarrow> page \<Rightarrow> hash" where
  "page_hash X p = blake3 X (pg_buf p)"

definition verify_checksum :: "ext \<Rightarrow> page \<Rightarrow> page_error + unit" where
  "verify_checksum X p =
     (let h = pg_header p; computed = page_crc X (pg_buf p)
      in if computed \<noteq> ph_crc32 h then Inl (PageChecksumMismatch (ph_page_id h) (ph_crc32 h) computed)
         else Inr ())"

definition verify_content_hash :: "ext \<Rightarrow> page \<Rightarrow> page_error + unit" where
  "verify_content_hash X p =
     (if blake3 X (drop PAGE_HEADER_SIZE (pg_buf p)) \<noteq> ph_content_hash (pg_header p)
      then Inl (PageContentHashMismatch (ph_page_id (pg_header p))) else Inr ())"

definition page_from_bytes :: "ext \<Rightarrow> page_codec \<Rightarrow> bytes \<Rightarrow> page_error + page" where
  "page_from_bytes X P bs =
     (if length bs < PAGE_HEADER_SIZE then Inl PageIo
      else case dec_page_header P (take PAGE_HEADER_SIZE bs) of
          Inl e \<Rightarrow> Inl (PageSerialization e)
        | Inr h \<Rightarrow>
            if \<not> validate_magic h then Inl (PageBadMagic (ph_page_id h))
            else let p = \<lparr> pg_buf = bs, pg_header = h, pg_sealed = True, pg_page_size = length bs \<rparr>
                 in case verify_checksum X p of
                      Inl e \<Rightarrow> Inl e
                    | Inr _ \<Rightarrow> (case verify_content_hash X p of Inl e \<Rightarrow> Inl e | Inr _ \<Rightarrow> Inr p))"

subsection \<open>The slot layout\<close>

lemma length_put_slice [simp]: "i + length bs \<le> length buf \<Longrightarrow> length (put_slice buf i bs) = length buf"
  by (simp add: put_slice_def)

lemma put_slice_middle: "length b' = length b \<Longrightarrow> i = length a \<Longrightarrow> put_slice (a @ b @ c) i b' = a @ b' @ c"
  by (simp add: put_slice_def)

text \<open>The directory of \<open>rows\<close> in a body of \<open>n\<close> bytes: rows are stored from the end.\<close>

fun slot_dir :: "nat \<Rightarrow> bytes list \<Rightarrow> bytes" where
  "slot_dir n [] = []"
| "slot_dir n (r # rs) = le_bytes 2 (n - length r) @ le_bytes 2 (length r) @ slot_dir (n - length r) rs"

lemma length_slot_dir [simp]: "length (slot_dir n rs) = 4 * length rs"
  by (induction n rs rule: slot_dir.induct) simp_all

lemma slot_dir_snoc:
  "slot_dir n (rs @ [r]) = slot_dir n rs @
     le_bytes 2 (n - length (concat rs) - length r) @ le_bytes 2 (length r)"
  by (induction n rs rule: slot_dir.induct) simp_all

lemma slot_dir_entry:
  "i < length rs \<Longrightarrow>
     take 2 (drop (4 * i) (slot_dir n rs @ bs)) = le_bytes 2 (n - length (concat (take (Suc i) rs))) \<and>
     take 2 (drop (4 * i + 2) (slot_dir n rs @ bs)) = le_bytes 2 (length (rs ! i))"
proof (induction n rs arbitrary: i rule: slot_dir.induct)
  case (2 n r rs)
  show ?case
  proof (cases i)
    case 0
    then show ?thesis by simp
  next
    case (Suc j)
    have *: "drop (4 * Suc j + k) (slot_dir n (r # rs) @ bs) =
        drop (4 * j + k) (slot_dir (n - length r) rs @ bs)" for k
      by simp
    from 2 Suc have IH: "take 2 (drop (4 * j) (slot_dir (n - length r) rs @ bs)) =
        le_bytes 2 (n - length r - length (concat (take (Suc j) rs)))"
      "take 2 (drop (4 * j + 2) (slot_dir (n - length r) rs @ bs)) = le_bytes 2 (length (rs ! j))"
      by auto
    show ?thesis
      using IH * [of 0] * [of 2] Suc by simp
  qed
qed simp

definition page_inv :: "page \<Rightarrow> bytes list \<Rightarrow> bool" where
  "page_inv p rows \<longleftrightarrow> pg_page_size p = length (pg_buf p) \<and>
     PAGE_HEADER_SIZE \<le> pg_page_size p \<and> pg_page_size p \<le> PAGE_HEADER_SIZE + 65535 \<and>
     unat (ph_slot_count (pg_header p)) = length rows \<and>
     (\<exists>mid. length mid = unat (ph_free_bytes (pg_header p)) \<and>
        drop PAGE_HEADER_SIZE (pg_buf p) =
          slot_dir (pg_page_size p - PAGE_HEADER_SIZE) rows @ mid @ concat (rev rows))"

lemma length_concat_rev [simp]: "length (concat (rev rows)) = length (concat rows)"
  by (induction rows) simp_all

lemma length_concat_take:
  assumes "i < length rows"
  shows "length (concat rows) =
    length (concat (take i rows)) + length (rows ! i) + length (concat (drop (Suc i) rows))"
  by (subst id_take_nth_drop [OF assms]) simp

lemma page_inv_size:
  assumes "page_inv p rows"
  shows "4 * length rows + unat (ph_free_bytes (pg_header p)) + length (concat rows) =
     pg_page_size p - PAGE_HEADER_SIZE"
proof -
  from assms obtain mid where "length mid = unat (ph_free_bytes (pg_header p))"
    "drop PAGE_HEADER_SIZE (pg_buf p) =
       slot_dir (pg_page_size p - PAGE_HEADER_SIZE) rows @ mid @ concat (rev rows)"
    "pg_page_size p = length (pg_buf p)" by (auto simp: page_inv_def)
  from arg_cong [OF this(2), of length] this(1,3) show ?thesis by simp
qed

lemma u16_of_le_bytes: "x < 65536 \<Longrightarrow> (of_nat (of_le (le_bytes 2 x)) :: u16) = of_nat x"
  by (simp add: of_le_le_bytes)

lemma u16_id: "x < 65536 \<Longrightarrow> unat (of_nat x :: u16) = x"
  by (simp add: unat_of_nat)

lemma read_slot_entry_inv:
  assumes inv: "page_inv p rows" and i: "i < length rows"
  shows "read_slot_entry p i = Some
     \<lparr> se_offset = of_nat (pg_page_size p - PAGE_HEADER_SIZE - length (concat (take (Suc i) rows))),
       se_length = of_nat (length (rows ! i)) \<rparr>"
proof -
  from inv obtain mid where body: "drop PAGE_HEADER_SIZE (pg_buf p) =
       slot_dir (pg_page_size p - PAGE_HEADER_SIZE) rows @ mid @ concat (rev rows)"
    by (auto simp: page_inv_def)
  have n: "pg_page_size p - PAGE_HEADER_SIZE \<le> 65535" using inv by (auto simp: page_inv_def)
  have len: "length (rows ! i) < 65536"
  proof -
    have "length (rows ! i) \<le> length (concat rows)"
      using length_concat_take [OF i] by simp
    with page_inv_size [OF inv] n show ?thesis by simp
  qed
  have *: "drop (PAGE_HEADER_SIZE + k) (pg_buf p) =
      drop k (slot_dir (pg_page_size p - PAGE_HEADER_SIZE) rows @ mid @ concat (rev rows))" for k
    by (simp only: body [symmetric] drop_drop add.commute)
  note e = slot_dir_entry [OF i, of "pg_page_size p - PAGE_HEADER_SIZE" "mid @ concat (rev rows)"]
  have "u16_at (pg_buf p) (PAGE_HEADER_SIZE + 4 * i) =
      of_nat (pg_page_size p - PAGE_HEADER_SIZE - length (concat (take (Suc i) rows)))"
    unfolding u16_at_def * conjunct1 [OF e] by (rule u16_of_le_bytes) (use n in simp)
  moreover have "u16_at (pg_buf p) (PAGE_HEADER_SIZE + (4 * i + 2)) = of_nat (length (rows ! i))"
    unfolding u16_at_def * conjunct2 [OF e] by (rule u16_of_le_bytes) (use len in simp)
  moreover have "unat (ph_slot_count (pg_header p)) = length rows" using inv by (simp add: page_inv_def)
  ultimately show ?thesis
    using i by (simp add: read_slot_entry_def Let_def SLOT_DIR_ENTRY_SIZE_def mult.commute [of i])
qed

lemma slot_bounds:
  assumes inv: "page_inv p rows" and i: "i < length rows"
  shows "unat (of_nat (length (rows ! i)) :: u16) = length (rows ! i)"
    and "unat (of_nat (pg_page_size p - PAGE_HEADER_SIZE - length (concat (take (Suc i) rows))) :: u16) =
      pg_page_size p - PAGE_HEADER_SIZE - length (concat (take (Suc i) rows))"
proof -
  have n: "pg_page_size p - PAGE_HEADER_SIZE \<le> 65535" using inv by (auto simp: page_inv_def)
  have "length (rows ! i) \<le> 65535"
    using length_concat_take [OF i] page_inv_size [OF inv] n by simp
  then show "unat (of_nat (length (rows ! i)) :: u16) = length (rows ! i)"
    by (simp add: unat_of_nat)
  show "unat (of_nat (pg_page_size p - PAGE_HEADER_SIZE - length (concat (take (Suc i) rows))) :: u16) =
      pg_page_size p - PAGE_HEADER_SIZE - length (concat (take (Suc i) rows))"
    using n by (simp add: unat_of_nat)
qed

lemma read_slot_inv:
  assumes inv: "page_inv p rows" and i: "i < length rows"
  shows "read_slot p (of_nat i) = Inr (rows ! i)"
proof -
  let ?n = "pg_page_size p - PAGE_HEADER_SIZE" and ?s = "length (concat (take (Suc i) rows))"
  from inv obtain mid where body: "drop PAGE_HEADER_SIZE (pg_buf p) = slot_dir ?n rows @ mid @ concat (rev rows)"
    by (auto simp: page_inv_def)
  have "unat (ph_slot_count (pg_header p)) = length rows" using inv by (simp add: page_inv_def)
  then have "length rows < 65536"
    using unsigned_less [of "ph_slot_count (pg_header p)", where 'a = nat] by simp
  then have ui: "unat (of_nat i :: u16) = i" using i by (simp add: unat_of_nat)
  have suc: "take (Suc i) rows = take i rows @ [rows ! i]" using i by (rule take_Suc_conv_app_nth)
  have "concat (rev rows) = concat (rev (drop (Suc i) rows)) @ rows ! i @ concat (rev (take i rows))"
    by (subst id_take_nth_drop [OF i]) simp
  with body have b: "drop PAGE_HEADER_SIZE (pg_buf p) =
      (slot_dir ?n rows @ mid @ concat (rev (drop (Suc i) rows))) @ rows ! i @ concat (rev (take i rows))"
    by simp
  have len: "length (drop PAGE_HEADER_SIZE (pg_buf p)) = ?n" using inv by (auto simp: page_inv_def)
  have pre: "length (slot_dir ?n rows @ mid @ concat (rev (drop (Suc i) rows))) = ?n - ?s"
    using arg_cong [OF b, of length] len by (simp add: suc)
  have "drop (PAGE_HEADER_SIZE + (?n - ?s)) (pg_buf p) = drop (?n - ?s) (drop PAGE_HEADER_SIZE (pg_buf p))"
    by (simp add: add.commute)
  also have "\<dots> = rows ! i @ concat (rev (take i rows))"
    unfolding b using pre by simp
  finally show ?thesis
    using read_slot_entry_inv [OF inv i] slot_bounds [OF inv i] by (simp add: read_slot_def ui)
qed

lemma slot_lengths:
  assumes "page_inv p rows"
  shows "sum_list (map (slot_length p) [0..<length rows]) = length (concat rows)"
proof -
  have "slot_length p i = length (rows ! i)" if "i < length rows" for i
    using read_slot_entry_inv [OF assms that] slot_bounds(1) [OF assms that] by (simp add: slot_length_def)
  then have "map (slot_length p) [0..<length rows] = map (length \<circ> (!) rows) [0..<length rows]"
    by (intro map_cong refl) simp
  also have "\<dots> = map length (map ((!) rows) [0..<length rows])" by (simp only: map_map)
  also have "\<dots> = map length rows" by (simp only: map_nth)
  finally show ?thesis by (simp add: length_concat)
qed

lemma page_inv_room:
  assumes inv: "page_inv p rows" and room: "4 + length data \<le> unat (ph_free_bytes (pg_header p))"
  obtains hd mid m0 m1 m2 where "pg_buf p = hd @ slot_dir (pg_page_size p - PAGE_HEADER_SIZE) rows @
      m0 @ m1 @ m2 @ concat (rev rows)" "length hd = PAGE_HEADER_SIZE" "length m0 = 4"
    "length m2 = length data" "length m1 = unat (ph_free_bytes (pg_header p)) - 4 - length data"
proof -
  from inv obtain mid where mid: "length mid = unat (ph_free_bytes (pg_header p))"
    "drop PAGE_HEADER_SIZE (pg_buf p) =
       slot_dir (pg_page_size p - PAGE_HEADER_SIZE) rows @ mid @ concat (rev rows)"
    and len: "PAGE_HEADER_SIZE \<le> length (pg_buf p)" by (auto simp: page_inv_def)
  let ?hd = "take PAGE_HEADER_SIZE (pg_buf p)"
  let ?m0 = "take 4 mid" and ?r = "drop 4 mid"
  let ?m1 = "take (length mid - 4 - length data) ?r" and ?m2 = "drop (length mid - 4 - length data) ?r"
  have "pg_buf p = ?hd @ slot_dir (pg_page_size p - PAGE_HEADER_SIZE) rows @ ?m0 @ ?m1 @ ?m2 @ concat (rev rows)"
  proof -
    have "?m0 @ ?m1 @ ?m2 = mid" by (simp only: append_take_drop_id)
    then have "slot_dir (pg_page_size p - PAGE_HEADER_SIZE) rows @ (?m0 @ ?m1 @ ?m2) @ concat (rev rows) =
        drop PAGE_HEADER_SIZE (pg_buf p)" using mid(2) by (simp only:)
    then have "slot_dir (pg_page_size p - PAGE_HEADER_SIZE) rows @ ?m0 @ ?m1 @ ?m2 @ concat (rev rows) =
        drop PAGE_HEADER_SIZE (pg_buf p)" by (simp only: append.assoc)
    then show ?thesis by (simp only: append_take_drop_id)
  qed
  then show thesis
    by (rule that [OF _ _ _ _ _]) (use mid(1) len room in auto)
qed

lemma write_slot_inv:
  assumes inv: "page_inv p rows" and open_page: "\<not> pg_sealed p"
    and room: "4 + length data \<le> unat (ph_free_bytes (pg_header p))"
  shows "\<exists>p'. write_slot p data = (p', Inr (of_nat (length rows))) \<and> page_inv p' (rows @ [data]) \<and>
     pg_sealed p' = False \<and> pg_page_size p' = pg_page_size p \<and>
     (\<exists>c f. pg_header p' = (pg_header p)\<lparr>ph_slot_count := c, ph_free_bytes := f\<rparr>)"
proof -
  let ?n = "pg_page_size p - PAGE_HEADER_SIZE" and ?h = "pg_header p"
  let ?L = "length (concat rows)" and ?d = "length data"
  from page_inv_room [OF inv room] obtain hd m0 m1 m2 where
    buf: "pg_buf p = hd @ slot_dir ?n rows @ m0 @ m1 @ m2 @ concat (rev rows)"
    and len: "length hd = PAGE_HEADER_SIZE" "length m0 = 4" "length m2 = ?d"
    "length m1 = unat (ph_free_bytes ?h) - 4 - ?d" by metis
  note size = page_inv_size [OF inv]
  have n: "?n \<le> 65535" and ps: "pg_page_size p = PAGE_HEADER_SIZE + ?n"
    and cnt: "unat (ph_slot_count ?h) = length rows" and lp: "pg_page_size p = length (pg_buf p)"
    using inv by (auto simp: page_inv_def)
  let ?off = "?n - ?L - ?d"
  let ?e1 = "le_bytes 2 ?off" and ?e2 = "le_bytes 2 ?d"
  let ?buf = "hd @ slot_dir ?n rows @ (?e1 @ ?e2) @ m1 @ data @ concat (rev rows)"
  let ?p' = "p\<lparr>pg_buf := ?buf, pg_header := ?h\<lparr>ph_slot_count := ph_slot_count ?h + 1,
      ph_free_bytes := ph_free_bytes ?h - of_nat (4 + ?d)\<rparr>\<rparr>"
  have start: "pg_page_size p - ?L - ?d = length (hd @ slot_dir ?n rows @ m0 @ m1)"
    using size len room ps by simp
  have dir: "PAGE_HEADER_SIZE + length rows * 4 = length (hd @ slot_dir ?n rows)" by (simp add: len)
  have "pg_page_size p - ?L - ?d - PAGE_HEADER_SIZE = ?off" by simp
  moreover have "unat (of_nat ?off :: u16) = ?off"
    using n by (intro u16_id) simp
  ultimately have off: "unat (of_nat (pg_page_size p - ?L - ?d - PAGE_HEADER_SIZE) :: u16) = ?off"
    by (simp only:)
  have dl: "unat (of_nat ?d :: u16) = ?d"
    using n size room by (intro u16_id) simp
  have b1: "put_slice (pg_buf p) (pg_page_size p - ?L - ?d) data =
      hd @ slot_dir ?n rows @ m0 @ m1 @ data @ concat (rev rows)"
    using put_slice_middle [of data m2 "pg_page_size p - ?L - ?d" "hd @ slot_dir ?n rows @ m0 @ m1" "concat (rev rows)"]
      start len by (simp add: buf)
  obtain a b where m0: "m0 = a @ b" "length a = 2" "length b = 2"
    by (rule that [of "take 2 m0" "drop 2 m0"]) (use len in simp_all)
  have b2: "put_slice (hd @ slot_dir ?n rows @ m0 @ m1 @ data @ concat (rev rows)) (PAGE_HEADER_SIZE + length rows * 4) ?e1 =
      hd @ slot_dir ?n rows @ ?e1 @ b @ m1 @ data @ concat (rev rows)"
    unfolding m0(1) dir by (simp add: put_slice_def m0(2))
  have b3: "put_slice (hd @ slot_dir ?n rows @ ?e1 @ b @ m1 @ data @ concat (rev rows))
      (PAGE_HEADER_SIZE + length rows * 4 + 2) ?e2 = ?buf"
    unfolding dir by (simp add: put_slice_def m0(3))
  have "write_slot p data = (?p', Inr (of_nat (length rows)))"
    unfolding write_slot_def Let_def SLOT_DIR_ENTRY_SIZE_def cnt slot_lengths [OF inv] off dl
    unfolding b1 unfolding b2 unfolding b3 using open_page room by simp
  moreover have "page_inv ?p' (rows @ [data])"
  proof -
    have k: "unat (of_nat (4 + ?d) :: u16) = 4 + ?d" using n size room by (intro u16_id) simp
    then have "of_nat (4 + ?d) \<le> ph_free_bytes ?h" using room by (simp only: word_le_nat_alt)
    then have free: "unat (ph_free_bytes ?h - of_nat (4 + ?d)) = unat (ph_free_bytes ?h) - (4 + ?d)"
      by (simp only: unat_sub k)
    have cnt1: "unat (ph_slot_count ?h + 1) = length (rows @ [data])"
      using cnt size n room by (simp add: unat_word_ariths)
    have lb: "length ?buf = length (pg_buf p)" by (simp add: buf len)
    have "drop PAGE_HEADER_SIZE ?buf =
        slot_dir ?n (rows @ [data]) @ m1 @ concat (rev (rows @ [data]))"
      by (simp add: len slot_dir_snoc)
    then show ?thesis
      using inv free cnt1 lb len(4) by (auto simp: page_inv_def)
  qed
  ultimately show ?thesis using open_page by (intro exI [of _ ?p']) auto
qed

subsection \<open>Sealing and loading\<close>

lemma page_codec_okD:
  assumes "page_codec_ok P"
  shows "length (enc_page_header P h) = PAGE_HEADER_SIZE"
    and "dec_page_header P (enc_page_header P h) = Inr h"
    and "take (PAGE_HEADER_SIZE - 4) (enc_page_header P (h\<lparr>ph_crc32 := c\<rparr>)) =
      take (PAGE_HEADER_SIZE - 4) (enc_page_header P h)"
  using assms by (simp_all add: page_codec_ok_def)

lemma flush_header_buf:
  assumes "page_codec_ok P"
  shows "pg_buf (flush_header P p) = enc_page_header P (pg_header p) @ drop PAGE_HEADER_SIZE (pg_buf p)"
  by (simp add: flush_header_def put_slice_def page_codec_okD [OF assms])

lemma flush_header_fields [simp]:
  "pg_header (flush_header P p) = pg_header p" "pg_sealed (flush_header P p) = pg_sealed p"
  "pg_page_size (flush_header P p) = pg_page_size p"
  by (simp_all add: flush_header_def)

lemma blank_page_inv:
  assumes "page_codec_ok P" "PAGE_HEADER_SIZE \<le> n" "n \<le> PAGE_HEADER_SIZE + 65535"
  shows "page_inv (blank_page P page_id table_id n) []" "\<not> pg_sealed (blank_page P page_id table_id n)"
proof -
  let ?p = "blank_page P page_id table_id n"
  have "unat (of_nat (n - PAGE_HEADER_SIZE) :: u16) = n - PAGE_HEADER_SIZE"
    using assms(3) by (intro u16_id) simp
  moreover have "length (pg_buf ?p) = n" "drop PAGE_HEADER_SIZE (pg_buf ?p) = replicate (n - PAGE_HEADER_SIZE) 0"
    using assms by (simp_all add: blank_page_def flush_header_buf page_codec_okD)
  ultimately show "page_inv ?p []"
    using assms by (auto simp: page_inv_def blank_page_def page_header_new_def)
  show "\<not> pg_sealed ?p" by (simp add: blank_page_def)
qed

lemma write_slots_inv:
  assumes "page_inv p rows" "\<not> pg_sealed p" "app_all write_slot p datas = (p', Inr ids)"
  shows "page_inv p' (rows @ datas) \<and> \<not> pg_sealed p' \<and>
     ids = map of_nat [length rows..<length rows + length datas] \<and>
     (\<exists>c f. pg_header p' = (pg_header p)\<lparr>ph_slot_count := c, ph_free_bytes := f\<rparr>)"
  using assms
proof (induction datas arbitrary: p rows ids)
  case Nil
  have "pg_header p = (pg_header p)\<lparr>ph_slot_count := ph_slot_count (pg_header p),
      ph_free_bytes := ph_free_bytes (pg_header p)\<rparr>" by simp
  then have "\<exists>c f. pg_header p = (pg_header p)\<lparr>ph_slot_count := c, ph_free_bytes := f\<rparr>" by blast
  with Nil show ?case by simp
next
  case (Cons data datas)
  from Cons.prems(3) obtain p1 id1 ids' where w: "write_slot p data = (p1, Inr id1)"
    and rest: "app_all write_slot p1 datas = (p', Inr ids')" and ids: "ids = id1 # ids'"
    by (auto simp: and_then_Inr_iff)
  have room: "4 + length data \<le> unat (ph_free_bytes (pg_header p))"
    using w Cons.prems(2) by (auto simp: write_slot_def Let_def SLOT_DIR_ENTRY_SIZE_def split: if_splits)
  from write_slot_inv [OF Cons.prems(1,2) room] w obtain c f where
    p1: "id1 = of_nat (length rows)" "page_inv p1 (rows @ [data])" "\<not> pg_sealed p1"
    and h1: "pg_header p1 = (pg_header p)\<lparr>ph_slot_count := c, ph_free_bytes := f\<rparr>" by auto
  from Cons.IH [OF p1(2,3) rest] obtain c' f' where IH: "page_inv p' (rows @ data # datas)" "\<not> pg_sealed p'"
    "ids' = map of_nat [Suc (length rows)..<Suc (length rows) + length datas]"
    and h': "pg_header p' = (pg_header p1)\<lparr>ph_slot_count := c', ph_free_bytes := f'\<rparr>"
    by (auto simp del: upt_Suc)
  have "ids = map of_nat [length rows..<length rows + length (data # datas)]"
    using ids p1(1) IH(3) by (simp add: upt_conv_Cons del: upt_Suc)
  moreover have "pg_header p' = (pg_header p)\<lparr>ph_slot_count := c', ph_free_bytes := f'\<rparr>"
    using h1 h' by simp
  ultimately show ?case using IH(1,2) by blast
qed

lemma write_slots_ok:
  assumes "page_inv p rows" "\<not> pg_sealed p"
    "4 * length datas + length (concat datas) \<le> unat (ph_free_bytes (pg_header p))"
  shows "\<exists>p' ids. app_all write_slot p datas = (p', Inr ids)"
  using assms
proof (induction datas arbitrary: p rows)
  case (Cons data datas)
  from Cons.prems(3) have room: "4 + length data \<le> unat (ph_free_bytes (pg_header p))" by simp
  from write_slot_inv [OF Cons.prems(1,2) room] obtain p1 where
    w: "write_slot p data = (p1, Inr (of_nat (length rows)))" "page_inv p1 (rows @ [data])"
    "\<not> pg_sealed p1" "pg_page_size p1 = pg_page_size p" by auto
  have "4 * length datas + length (concat datas) \<le> unat (ph_free_bytes (pg_header p1))"
    using page_inv_size [OF w(2)] page_inv_size [OF Cons.prems(1)] w(4) Cons.prems(3) by simp
  from Cons.IH [OF w(2,3) this] w(1) show ?case by auto
qed simp

lemma seal_props:
  fixes X :: ext and p :: page
  assumes P: "page_codec_ok P"
  defines "q \<equiv> seal X P p"
  shows "drop PAGE_HEADER_SIZE (pg_buf q) = drop PAGE_HEADER_SIZE (pg_buf p)"
    and "take PAGE_HEADER_SIZE (pg_buf q) = enc_page_header P (pg_header q)"
    and "ph_content_hash (pg_header q) = blake3 X (drop PAGE_HEADER_SIZE (pg_buf p))"
    and "ph_crc32 (pg_header q) = page_crc X (pg_buf q)"
    and "\<exists>ch c. pg_header q = (pg_header p)\<lparr>ph_content_hash := ch, ph_crc32 := c\<rparr>"
    and "pg_sealed q" "pg_page_size q = pg_page_size p"
proof -
  let ?h = "(pg_header p)\<lparr>ph_content_hash := blake3 X (drop PAGE_HEADER_SIZE (pg_buf p)), ph_crc32 := 0\<rparr>"
  let ?b2 = "enc_page_header P ?h @ drop PAGE_HEADER_SIZE (pg_buf p)"
  let ?h3 = "?h\<lparr>ph_crc32 := page_crc X ?b2\<rparr>"
  have q: "pg_buf q = enc_page_header P ?h3 @ drop PAGE_HEADER_SIZE (pg_buf p)" "pg_header q = ?h3"
    "pg_sealed q" "pg_page_size q = pg_page_size p"
    by (simp_all add: q_def seal_def Let_def flush_header_buf [OF P] page_codec_okD [OF P])
  then show "drop PAGE_HEADER_SIZE (pg_buf q) = drop PAGE_HEADER_SIZE (pg_buf p)"
    "take PAGE_HEADER_SIZE (pg_buf q) = enc_page_header P (pg_header q)"
    "ph_content_hash (pg_header q) = blake3 X (drop PAGE_HEADER_SIZE (pg_buf p))"
    "pg_sealed q" "pg_page_size q = pg_page_size p"
    by (simp_all add: page_codec_okD [OF P])
  show "\<exists>ch c. pg_header q = (pg_header p)\<lparr>ph_content_hash := ch, ph_crc32 := c\<rparr>"
    by (rule exI, rule exI) (simp only: q(2), simp)
  have "page_crc X (pg_buf q) = page_crc X ?b2"
    using page_codec_okD(3) [OF P, where h = ?h and c = "page_crc X ?b2"]
    by (simp add: page_crc_def q(1) page_codec_okD(1) [OF P])
  then show "ph_crc32 (pg_header q) = page_crc X (pg_buf q)" by (simp add: q(2))
qed

lemma from_bytes_seal:
  assumes P: "page_codec_ok P" and inv: "page_inv p rows" and magic: "validate_magic (pg_header p)"
  shows "page_from_bytes X P (pg_buf (seal X P p)) = Inr (seal X P p)" "page_inv (seal X P p) rows"
proof -
  let ?q = "seal X P p"
  note q = seal_props [OF P, where X = X and p = p]
  from q(5) obtain ch c where h: "pg_header ?q = (pg_header p)\<lparr>ph_content_hash := ch, ph_crc32 := c\<rparr>" by blast
  have len: "length (pg_buf ?q) = length (pg_buf p)"
    using arg_cong [OF q(1), of length] arg_cong [OF q(2), of length] inv page_codec_okD(1) [OF P]
    by (simp add: page_inv_def min_def split: if_splits)
  then show "page_inv ?q rows"
    using inv q(1,7) h by (auto simp: page_inv_def)
  have "\<lparr> pg_buf = pg_buf ?q, pg_header = pg_header ?q, pg_sealed = True, pg_page_size = length (pg_buf ?q) \<rparr> = ?q"
    using q(6,7) len inv by (simp add: page_inv_def)
  then show "page_from_bytes X P (pg_buf ?q) = Inr ?q"
    using q(1-4) len inv magic h
    by (auto simp: page_from_bytes_def Let_def page_codec_okD [OF P] verify_checksum_def
        verify_content_hash_def validate_magic_def page_inv_def split: sum.splits)
qed

subsection \<open>A concrete header codec\<close>

definition s_enc_page_header :: "page_header \<Rightarrow> bytes" where
  "s_enc_page_header h = u32_le (ph_magic h) @ [ph_version h] @ [ph_flags h] @ u64_le (ph_page_id h) @
     u32_le (ph_table_id h) @ u64_le (ph_prev_page_id h) @ u16_le (ph_slot_count h) @
     u16_le (ph_free_bytes h) @ hash_raw (ph_content_hash h) @ u32_le (ph_crc32 h)"

definition s_dec_page_header :: "bytes \<Rightarrow> string + page_header" where
  "s_dec_page_header bs = Inr
     \<lparr> ph_magic = u32_of_le (take 4 bs), ph_version = bs ! 4, ph_flags = bs ! 5,
       ph_page_id = u64_of_le (take 8 (drop 6 bs)), ph_table_id = u32_of_le (take 4 (drop 14 bs)),
       ph_prev_page_id = u64_of_le (take 8 (drop 18 bs)), ph_slot_count = u16_of_le (take 2 (drop 26 bs)),
       ph_free_bytes = u16_of_le (take 2 (drop 28 bs)), ph_content_hash = hash_of_raw (take 32 (drop 30 bs)),
       ph_crc32 = u32_of_le (take 4 (drop 62 bs)) \<rparr>"

definition sample_page_codec :: page_codec where
  "sample_page_codec = \<lparr> enc_page_header = s_enc_page_header, dec_page_header = s_dec_page_header \<rparr>"

lemma sample_page_codec_ok: "page_codec_ok sample_page_codec"
  by (simp add: page_codec_ok_def sample_page_codec_def s_enc_page_header_def s_dec_page_header_def
      PAGE_HEADER_SIZE_def nth_append)

subsection \<open>Properties\<close>

text \<open>
  Pages keep their rows.  Rows written into a fresh page get the slots 0, 1, 2, \<dots>; the
  sealed page passes the checks of \<^verbatim>\<open>from_bytes\<close>, and every slot of the loaded page returns
  the row written to it, for every page size up to 65601 bytes.
\<close>

theorem page_roundtrip:
  assumes "page_codec_ok P" and "page_with_size P page_id table_id n = Some p0" and "n \<le> PAGE_HEADER_SIZE + 65535"
    and "app_all write_slot p0 rows = (p, Inr ids)"
  shows "ids = map of_nat [0..<length rows] \<and>
     (\<exists>q. page_from_bytes X P (pg_buf (seal X P p)) = Inr q \<and>
        (\<forall>i < length rows. read_slot q (ids ! i) = Inr (rows ! i)))"
proof -
  from assms(2) have p0: "p0 = blank_page P page_id table_id n" "PAGE_HEADER_SIZE \<le> n"
    by (auto simp: page_with_size_def split: if_splits)
  note fresh = blank_page_inv [OF assms(1) p0(2) assms(3), of page_id table_id]
  from write_slots_inv [OF fresh assms(4) [unfolded p0(1)]] obtain c f where inv: "page_inv p rows"
    and ids: "ids = map of_nat [0..<length rows]"
    and h: "pg_header p = (pg_header (blank_page P page_id table_id n))\<lparr>ph_slot_count := c, ph_free_bytes := f\<rparr>"
    by auto
  have "validate_magic (pg_header p)"
    by (simp add: h validate_magic_def blank_page_def page_header_new_def)
  from from_bytes_seal [OF assms(1) inv this, of X] read_slot_inv [of "seal X P p" rows] ids show ?thesis
    by auto
qed

theorem page_roundtrip_witness:
  "\<exists>p0 p ids q. page_with_size sample_page_codec 7 1 130 = Some p0 \<and> app_all write_slot p0 [[1, 2], [3]] = (p, Inr ids) \<and>
     page_from_bytes sample_ext sample_page_codec (pg_buf (seal sample_ext sample_page_codec p)) = Inr q \<and>
     read_slot q 1 = Inr [3]"
proof -
  note inv = blank_page_inv [OF sample_page_codec_ok, of 130 7 1]
  have "unat (ph_free_bytes (pg_header (blank_page sample_page_codec 7 1 130))) = 64"
    by (simp add: blank_page_def page_header_new_def PAGE_HEADER_SIZE_def)
  with write_slots_ok [of "blank_page sample_page_codec 7 1 130" "[]" "[[1, 2], [3]]"] inv
  obtain p ids where w: "app_all write_slot (blank_page sample_page_codec 7 1 130) [[1, 2], [3]] = (p, Inr ids)"
    by (auto simp: PAGE_HEADER_SIZE_def)
  have p0: "page_with_size sample_page_codec 7 1 130 = Some (blank_page sample_page_codec 7 1 130)"
    by (simp add: page_with_size_def PAGE_HEADER_SIZE_def)
  from page_roundtrip [OF sample_page_codec_ok p0 _ w, of sample_ext] obtain q where
    ids: "ids = [0, 1]" and q: "page_from_bytes sample_ext sample_page_codec
      (pg_buf (seal sample_ext sample_page_codec p)) = Inr q"
    "\<forall>i < Suc (Suc 0). read_slot q (ids ! i) = Inr ([[1, 2], [3]] ! i)"
    by (auto simp: PAGE_HEADER_SIZE_def)
  from q(2) [rule_format, of 1] ids have "read_slot q 1 = Inr [3]" by simp
  with p0 w q show ?thesis by blast
qed

lemma write_slot_fresh:
  assumes "page_codec_ok P"
  shows "\<exists>p. write_slot (page_new P page_id table_id) data = (p,
     if length data \<le> 8122 then Inr 0 else Inl (PageFull page_id 8126 (4 + length data)))"
proof -
  let ?p = "page_new P page_id table_id"
  have h: "ph_free_bytes (pg_header ?p) = 8126" "ph_page_id (pg_header ?p) = page_id" "\<not> pg_sealed ?p"
    by (simp_all add: page_new_def blank_page_def page_header_new_def DEFAULT_PAGE_SIZE_def PAGE_HEADER_SIZE_def)
  have inv: "page_inv ?p []"
    unfolding page_new_def using blank_page_inv [OF assms]
    by (simp add: DEFAULT_PAGE_SIZE_def PAGE_HEADER_SIZE_def)
  show ?thesis
  proof (cases "length data \<le> 8122")
    case True
    then have "4 + length data \<le> unat (ph_free_bytes (pg_header ?p))" by (simp add: h)
    from write_slot_inv [OF inv h(3) this] True show ?thesis by auto
  next
    case False
    with h show ?thesis by (simp add: write_slot_def Let_def SLOT_DIR_ENTRY_SIZE_def)
  qed
qed

text \<open>
  The capacity of a page.  A row fits a fresh page of the default size exactly when it
  has at most 8122 bytes; a longer row is refused with \<^verbatim>\<open>PageFull\<close>.
\<close>

theorem page_capacity:
  assumes "page_codec_ok P"
  shows "snd (write_slot (page_new P page_id table_id) data) =
     (if length data \<le> 8122 then Inr 0 else Inl (PageFull page_id 8126 (4 + length data)))"
  using write_slot_fresh [OF assms, of page_id table_id data] by auto

theorem page_capacity_witness:
  "snd (write_slot (page_new sample_page_codec 3 1) [7]) = Inr 0"
  using page_capacity [OF sample_page_codec_ok, of 3 1 "[7]"] by simp

text \<open>
  C40: damage to a sealed page is detected.  The sealed bytes load; a buffer of the same length is rejected when
  its header still carries the checksum of the sealed page while the CRC-32 over the bytes it covers is
  another, and when its header still carries the content hash of the sealed page while its body differs and
  BLAKE3 does not collide on the two bodies.  Both fields are unkeyed: whoever recomputes them
  makes a page that loads.
\<close>

theorem page_damage_detected:
  assumes "page_codec_ok P" and "page_inv p rows" and "validate_magic (pg_header p)"
    and "length bs = length (pg_buf (seal X P p))" and "dec_page_header P (take PAGE_HEADER_SIZE bs) = Inr h"
    and "ph_crc32 h = ph_crc32 (pg_header (seal X P p)) \<and> page_crc X bs \<noteq> page_crc X (pg_buf (seal X P p)) \<or>
      ph_content_hash h = ph_content_hash (pg_header (seal X P p)) \<and>
      drop PAGE_HEADER_SIZE bs \<noteq> drop PAGE_HEADER_SIZE (pg_buf (seal X P p)) \<and>
      inj_on (blake3 X) {drop PAGE_HEADER_SIZE bs, drop PAGE_HEADER_SIZE (pg_buf (seal X P p))}"
  shows "page_from_bytes X P (pg_buf (seal X P p)) = Inr (seal X P p) \<and> (\<exists>err. page_from_bytes X P bs = Inl err)"
proof -
  let ?q = "seal X P p"
  note q = seal_props [OF assms(1), where X = X and p = p]
  have "page_crc X bs \<noteq> ph_crc32 h \<or> blake3 X (drop PAGE_HEADER_SIZE bs) \<noteq> ph_content_hash h"
    using assms(6) q(1,3,4) by (auto dest: inj_onD)
  then have "\<exists>err. page_from_bytes X P bs = Inl err"
    using assms(5) by (auto simp: page_from_bytes_def Let_def verify_checksum_def verify_content_hash_def)
  with from_bytes_seal(1) [OF assms(1-3), of X] show ?thesis by blast
qed

theorem page_damage_detected_witness:
  "\<exists>p bs err. page_inv p [[1, 2]] \<and> length bs = 8192 \<and> bs \<noteq> pg_buf (seal sample_ext sample_page_codec p) \<and>
     page_from_bytes sample_ext sample_page_codec bs = Inl err"
proof -
  let ?p = "page_new sample_page_codec 7 1"
  obtain p where w: "write_slot ?p [1, 2] = (p, Inr 0)"
    using write_slot_fresh [OF sample_page_codec_ok, of 7 1 "[1, 2]"] by auto
  have n: "page_inv ?p []" "\<not> pg_sealed ?p" "validate_magic (pg_header ?p)" "pg_page_size ?p = 8192"
    using blank_page_inv [OF sample_page_codec_ok, of DEFAULT_PAGE_SIZE 7 1]
    by (simp_all add: page_new_def PAGE_HEADER_SIZE_def DEFAULT_PAGE_SIZE_def blank_page_def
        page_header_new_def validate_magic_def)
  with write_slots_inv [of ?p "[]" "[[1, 2]]" p "[0]"] w
  have inv: "page_inv p [[1, 2]]" and magic: "validate_magic (pg_header p)"
    by (auto simp: validate_magic_def)
  have size: "pg_page_size p = 8192"
    using w n(4) by (auto simp: write_slot_def Let_def split: if_splits)
  let ?q = "seal sample_ext sample_page_codec p"
  note q = seal_props [OF sample_page_codec_ok, where X = sample_ext and p = p]
  have len: "length (pg_buf ?q) = 8192"
    using from_bytes_seal(2) [OF sample_page_codec_ok inv magic, of sample_ext] q(7) size by (simp add: page_inv_def)
  obtain b body where body: "drop PAGE_HEADER_SIZE (pg_buf ?q) = b # body"
    using len by (cases "drop PAGE_HEADER_SIZE (pg_buf ?q)") (simp_all add: PAGE_HEADER_SIZE_def)
  let ?bs = "take PAGE_HEADER_SIZE (pg_buf ?q) @ (b + 1) # body"
  have d: "drop PAGE_HEADER_SIZE ?bs = (b + 1) # body" "length ?bs = length (pg_buf ?q)"
    "take PAGE_HEADER_SIZE ?bs = take PAGE_HEADER_SIZE (pg_buf ?q)"
    using len arg_cong [OF body, of length] by (simp_all add: PAGE_HEADER_SIZE_def)
  have h: "dec_page_header sample_page_codec (take PAGE_HEADER_SIZE ?bs) = Inr (pg_header ?q)"
    using d(3) q(2) page_codec_okD(2) [OF sample_page_codec_ok] by simp
  have ne: "drop PAGE_HEADER_SIZE ?bs \<noteq> drop PAGE_HEADER_SIZE (pg_buf ?q)" using d(1) body by simp
  have u: "unat (of_nat (unat x) :: hash) = unat x" for x :: byte
  proof -
    have "unat x < 2 ^ LENGTH(8)" by (rule unsigned_less)
    then have "unat x mod 2 ^ LENGTH(256) = unat x" by simp
    then show ?thesis by (simp only: unat_of_nat)
  qed
  have "(of_nat (unat (b + 1)) :: hash) \<noteq> of_nat (unat b)"
  proof
    assume "(of_nat (unat (b + 1)) :: hash) = of_nat (unat b)"
    from arg_cong [OF this, of unat] have "unat (b + 1) = unat b" by (simp only: u)
    then have "b + 1 = b" by (simp only: word_unat_eq_iff)
    then show False by simp
  qed
  then have "blake3 sample_ext ((b + 1) # body) \<noteq> blake3 sample_ext (b # body)"
    by (simp add: sample_ext_def)
  then have "inj_on (blake3 sample_ext) {drop PAGE_HEADER_SIZE ?bs, drop PAGE_HEADER_SIZE (pg_buf ?q)}"
    unfolding d(1) body by (simp add: inj_on_def)
  with page_damage_detected [OF sample_page_codec_ok inv magic d(2) h] ne
  obtain err where "page_from_bytes sample_ext sample_page_codec ?bs = Inl err" by blast
  moreover have "?bs \<noteq> pg_buf ?q" using ne by metis
  ultimately show ?thesis using inv d(2) len by (intro exI [of _ p] exI [of _ ?bs] exI [of _ err]) simp
qed

end
