(* ===== verification/Page_Store.thy ===== *)
theory Page_Store
  imports Pages
begin

text \<open>
  \<^verbatim>\<open>crates/vledger-pages/src/store.rs\<close>: one file of fixed-size records per table, plain
  (\<^verbatim>\<open>.pages\<close>) or encrypted (\<^verbatim>\<open>.epages\<close>) when the table has a key.

  The directory maps files to their bytes.  \<open>ps_faults\<close> lists the outcomes of the fallible
  I/O calls to come (opening, writing, reading, metadata, syncing), as in the log's disk; a
  failing write leaves a prefix.  \<open>ps_handles\<close> is the table of open files, keyed as in the
  code.  A failed \<^verbatim>\<open>assert!\<close> is the error \<open>PagePanic\<close>.
\<close>

subsection \<open>Files\<close>

datatype page_file = PagesFile u32 | EPagesFile u32

record page_store =
  ps_page_size :: nat
  ps_files :: "(page_file \<times> bytes) list"
  ps_handles :: "(u32 \<times> page_file) list"
  ps_table_keys :: "(u32 \<times> bytes) list"
  ps_dirty :: bool
  ps_faults :: "io_outcome list"
  ps_rng :: "nat \<Rightarrow> bytes"
  ps_tick :: nat

definition GCM_OVERHEAD :: nat where "GCM_OVERHEAD = 32"

definition ps_io :: "page_store \<Rightarrow> page_store \<times> io_outcome" where
  "ps_io s = (case ps_faults s of [] \<Rightarrow> (s, IoOk) | f # fs \<Rightarrow> (s\<lparr>ps_faults := fs\<rparr>, f))"

definition ps_nonce :: "page_store \<Rightarrow> page_store \<times> bytes" where
  "ps_nonce s = (s\<lparr>ps_tick := ps_tick s + 1\<rparr>, take 12 (ps_rng s (ps_tick s) @ replicate 12 0))"

definition file_bytes :: "page_store \<Rightarrow> page_file \<Rightarrow> bytes" where
  "file_bytes s f = (case map_of (ps_files s) f of None \<Rightarrow> [] | Some bs \<Rightarrow> bs)"

text \<open>Writing at an offset; a gap before it reads as zeros.\<close>

definition write_at :: "bytes \<Rightarrow> nat \<Rightarrow> bytes \<Rightarrow> bytes" where
  "write_at old off bs = take off (old @ replicate (off - length old) 0) @ bs @ drop (off + length bs) old"

definition page_store_open :: "nat \<Rightarrow> (page_file \<times> bytes) list \<Rightarrow> io_outcome list \<Rightarrow> (nat \<Rightarrow> bytes) \<Rightarrow>
    page_error + page_store" where
  "page_store_open page_size files faults rng =
     (let s = \<lparr> ps_page_size = page_size, ps_files = files, ps_handles = [], ps_table_keys = [],
                ps_dirty = False, ps_faults = faults, ps_rng = rng, ps_tick = 0 \<rparr>
      in case ps_io s of (s1, IoOk) \<Rightarrow> Inr s1 | (_, IoErr _) \<Rightarrow> Inl PageIo)"

definition register_table_key :: "u32 \<Rightarrow> bytes \<Rightarrow> page_store \<Rightarrow> page_store" where
  "register_table_key table_id key s = s\<lparr>ps_table_keys := AList.update table_id key (ps_table_keys s)\<rparr>"

definition table_is_encrypted :: "page_store \<Rightarrow> u32 \<Rightarrow> bool" where
  "table_is_encrypted s table_id \<longleftrightarrow> map_of (ps_table_keys s) table_id \<noteq> None"

definition open_handle :: "u32 \<Rightarrow> page_file \<Rightarrow> page_store \<Rightarrow> page_store \<times> (page_error + page_file)" where
  "open_handle key f s = (case map_of (ps_handles s) key of
       Some g \<Rightarrow> (s, Inr g)
     | None \<Rightarrow> (case ps_io s of
           (s1, IoErr _) \<Rightarrow> (s1, Inl PageIo)
         | (s1, IoOk) \<Rightarrow>
             (s1\<lparr>ps_files := (if map_of (ps_files s1) f = None then (f, []) # ps_files s1 else ps_files s1),
                 ps_handles := AList.update key f (ps_handles s1)\<rparr>, Inr f)))"

definition file_for_table :: "u32 \<Rightarrow> page_store \<Rightarrow> page_store \<times> (page_error + page_file)" where
  "file_for_table table_id s = open_handle table_id (PagesFile table_id) s"

definition efile_for_table :: "u32 \<Rightarrow> page_store \<Rightarrow> page_store \<times> (page_error + page_file)" where
  "efile_for_table table_id s = open_handle (table_id + 0x80000000) (EPagesFile table_id) s"

definition ps_write :: "page_file \<Rightarrow> nat \<Rightarrow> bytes \<Rightarrow> page_store \<Rightarrow> page_store \<times> (page_error + unit)" where
  "ps_write f off bs s = (case ps_io s of
       (s1, IoOk) \<Rightarrow> (s1\<lparr>ps_files := AList.update f (write_at (file_bytes s1 f) off bs) (ps_files s1)\<rparr>, Inr ())
     | (s1, IoErr k) \<Rightarrow>
         (s1\<lparr>ps_files := AList.update f (write_at (file_bytes s1 f) off (take k bs)) (ps_files s1)\<rparr>, Inl PageIo))"

definition ps_read :: "page_file \<Rightarrow> nat \<Rightarrow> nat \<Rightarrow> page_store \<Rightarrow> page_store \<times> (page_error + bytes)" where
  "ps_read f off n s = (case ps_io s of
       (s1, IoErr _) \<Rightarrow> (s1, Inl PageIo)
     | (s1, IoOk) \<Rightarrow>
         if length (file_bytes s1 f) < off + n then (s1, Inl PageIo)
         else (s1, Inr (take n (drop off (file_bytes s1 f)))))"

definition ps_len :: "page_file \<Rightarrow> page_store \<Rightarrow> page_store \<times> (page_error + nat)" where
  "ps_len f s = (case ps_io s of
       (s1, IoErr _) \<Rightarrow> (s1, Inl PageIo)
     | (s1, IoOk) \<Rightarrow> (s1, Inr (length (file_bytes s1 f))))"

subsection \<open>Operations\<close>

definition make_aad :: "u32 \<Rightarrow> u64 \<Rightarrow> bytes" where
  "make_aad table_id page_id = le_bytes 4 (unat table_id) @ le_bytes 8 (unat page_id)"

definition encrypt_bytes :: "ext \<Rightarrow> bytes \<Rightarrow> bytes \<Rightarrow> bytes \<Rightarrow> bytes \<Rightarrow> bytes" where
  "encrypt_bytes X key plaintext aad nonce = nonce @ aes_encrypt X key nonce aad plaintext"

definition decrypt_bytes :: "ext \<Rightarrow> bytes \<Rightarrow> bytes \<Rightarrow> bytes \<Rightarrow> crypto_error + bytes" where
  "decrypt_bytes X key ciphertext aad =
     (if length ciphertext < 12 then Inl DecryptionFailed
      else case aes_decrypt X key (take 12 ciphertext) aad (drop 12 ciphertext) of
          None \<Rightarrow> Inl DecryptionFailed
        | Some m \<Rightarrow> Inr m)"

definition record_size :: "page_store \<Rightarrow> u32 \<Rightarrow> nat" where
  "record_size s table_id =
     (if table_is_encrypted s table_id then ps_page_size s + GCM_OVERHEAD else ps_page_size s)"

definition record_offset :: "page_store \<Rightarrow> u32 \<Rightarrow> u64 \<Rightarrow> nat" where
  "record_offset s table_id page_id = unat (page_id * of_nat (record_size s table_id))"

definition table_file :: "u32 \<Rightarrow> page_store \<Rightarrow> page_store \<times> (page_error + page_file)" where
  "table_file table_id s =
     (if table_is_encrypted s table_id then efile_for_table table_id s else file_for_table table_id s)"

definition write_page :: "ext \<Rightarrow> page \<Rightarrow> page_store \<Rightarrow> page_store \<times> (page_error + unit)" where
  "write_page X p s =
     (let table_id = ph_table_id (pg_header p); page_id = ph_page_id (pg_header p);
          offset = record_offset s table_id page_id
      in if \<not> pg_sealed p then (s, Inl PagePanic)
         else and_then
           (case map_of (ps_table_keys s) table_id of
              Some key \<Rightarrow>
                (let (s1, nonce) = ps_nonce s;
                     blob = encrypt_bytes X key (pg_buf p) (make_aad table_id page_id) nonce @
                       u32_le (of_nat (ps_page_size s))
                 in and_then (efile_for_table table_id s1) (\<lambda>s2 f. ps_write f offset blob s2))
            | None \<Rightarrow> and_then (file_for_table table_id s) (\<lambda>s2 f. ps_write f offset (pg_buf p) s2))
           (\<lambda>s3 _. (s3\<lparr>ps_dirty := True\<rparr>, Inr ())))"

definition ps_sync :: "page_store \<Rightarrow> page_store \<times> (page_error + unit)" where
  "ps_sync s =
     (if \<not> ps_dirty s then (s, Inr ())
      else and_then
        (foldl (\<lambda>r _. and_then r (\<lambda>s1 _. case ps_io s1 of
             (s2, IoOk) \<Rightarrow> (s2, Inr ()) | (s2, IoErr _) \<Rightarrow> (s2, Inl PageIo)))
           (s, Inr ()) (ps_handles s))
        (\<lambda>s1 _. (s1\<lparr>ps_dirty := False\<rparr>, Inr ())))"

definition read_page :: "ext \<Rightarrow> page_codec \<Rightarrow> u32 \<Rightarrow> u64 \<Rightarrow> page_store \<Rightarrow> page_store \<times> (page_error + page)" where
  "read_page X P table_id page_id s =
     (let offset = record_offset s table_id page_id in
      case map_of (ps_table_keys s) table_id of
        Some key \<Rightarrow>
          (let n = ps_page_size s + GCM_OVERHEAD in
           and_then (efile_for_table table_id s) (\<lambda>s1 f.
           and_then (ps_read f offset n s1) (\<lambda>s2 blob.
             case decrypt_bytes X key (take (n - 4) blob) (make_aad table_id page_id) of
               Inl e \<Rightarrow> (s2, Inl (PageCrypto e))
             | Inr plaintext \<Rightarrow> (s2, page_from_bytes X P plaintext))))
      | None \<Rightarrow>
          and_then (file_for_table table_id s) (\<lambda>s1 f.
          and_then (ps_read f offset (ps_page_size s) s1) (\<lambda>s2 buf.
            (s2, page_from_bytes X P buf))))"

definition page_count :: "u32 \<Rightarrow> page_store \<Rightarrow> page_store \<times> (page_error + nat)" where
  "page_count table_id s =
     and_then (table_file table_id s) (\<lambda>s1 f.
     and_then (ps_len f s1) (\<lambda>s2 n. (s2, Inr (n div record_size s table_id))))"

fun read_records :: "u32 \<Rightarrow> nat \<Rightarrow> nat list \<Rightarrow> page_store \<Rightarrow> page_store \<times> (page_error + bytes list)" where
  "read_records table_id n [] s = (s, Inr [])"
| "read_records table_id n (pid # pids) s =
     and_then (table_file table_id s) (\<lambda>s1 f.
     and_then (ps_read f (pid * n) n s1) (\<lambda>s2 buf.
     and_then (read_records table_id n pids s2) (\<lambda>s3 bufs. (s3, Inr (buf # bufs)))))"

definition table_merkle_root :: "ext \<Rightarrow> u32 \<Rightarrow> page_store \<Rightarrow> page_store \<times> (page_error + hash)" where
  "table_merkle_root X table_id s =
     and_then (page_count table_id s) (\<lambda>s1 n.
       if n = 0 then (s1, Inr ZERO_HASH)
       else and_then (read_records table_id (record_size s table_id) [0..<n] s1) (\<lambda>s2 records.
         (s2, Inr (merkle_root (blake3 X) records))))"

subsection \<open>Open files\<close>

text \<open>Tables below \<open>2 ^ 31\<close>: the key of a handle determines its file.\<close>

definition handles_ok :: "page_store \<Rightarrow> bool" where
  "handles_ok s \<longleftrightarrow> (\<forall>k f. map_of (ps_handles s) k = Some f \<longrightarrow>
     f = (if k < 0x80000000 then PagesFile k else EPagesFile (k - 0x80000000)))"

definition file_of :: "page_store \<Rightarrow> u32 \<Rightarrow> page_file" where
  "file_of s t = (if table_is_encrypted s t then EPagesFile t else PagesFile t)"

text \<open>What the operations leave alone.\<close>

definition same_store :: "page_store \<Rightarrow> page_store \<Rightarrow> bool" where
  "same_store s s' \<longleftrightarrow> ps_page_size s' = ps_page_size s \<and> ps_table_keys s' = ps_table_keys s \<and>
     (\<forall>f. file_bytes s' f = file_bytes s f) \<and> (handles_ok s \<longrightarrow> handles_ok s') \<and>
     (ps_faults s = [] \<longrightarrow> ps_faults s' = [])"

lemma same_store_refl [simp]: "same_store s s"
  by (simp add: same_store_def)

lemma same_store_trans: "same_store s t \<Longrightarrow> same_store t u \<Longrightarrow> same_store s u"
  by (simp add: same_store_def)

lemma ps_io_same: "ps_io s = (s', r) \<Longrightarrow> same_store s s' \<and> (ps_faults s = [] \<longrightarrow> r = IoOk)"
  by (auto simp: ps_io_def same_store_def file_bytes_def handles_ok_def split: list.splits)

lemma open_handle_same:
  assumes "open_handle key f s = (s', r)" "f = (if key < 0x80000000 then PagesFile key else EPagesFile (key - 0x80000000))"
  shows "same_store s s' \<and> (handles_ok s \<longrightarrow> (\<forall>g. r = Inr g \<longrightarrow> g = f)) \<and>
     (ps_faults s = [] \<longrightarrow> (\<exists>g. r = Inr g))"
proof (cases "map_of (ps_handles s) key")
  case (Some g)
  with assms show ?thesis by (auto simp: open_handle_def handles_ok_def)
next
  case None
  obtain s1 o1 where io: "ps_io s = (s1, o1)" by force
  note s1 = ps_io_same [OF io]
  show ?thesis
  proof (cases o1)
    case IoOk
    with assms(1) None io have s': "s' = s1\<lparr>ps_files := (if map_of (ps_files s1) f = None then (f, []) # ps_files s1
          else ps_files s1), ps_handles := AList.update key f (ps_handles s1)\<rparr>" "r = Inr f"
      by (simp_all add: open_handle_def)
    have "same_store s1 s'"
      using assms(2) by (auto simp: s' same_store_def file_bytes_def handles_ok_def)
    with s1 s'(2) show ?thesis using same_store_trans by blast
  next
    case (IoErr k)
    with assms(1) None io s1 show ?thesis by (auto simp: open_handle_def)
  qed
qed

lemma high_table: "t < 0x80000000 \<Longrightarrow> \<not> t + 0x80000000 < (0x80000000 :: u32)"
  by (simp add: word_less_nat_alt unat_word_ariths)

lemma table_file_same:
  assumes "table_file t s = (s', r)" "t < 0x80000000"
  shows "same_store s s' \<and> (handles_ok s \<longrightarrow> (\<forall>g. r = Inr g \<longrightarrow> g = file_of s t)) \<and>
     (ps_faults s = [] \<longrightarrow> (\<exists>g. r = Inr g))"
proof (cases "table_is_encrypted s t")
  case True
  with assms(1) have o: "open_handle (t + 0x80000000) (EPagesFile t) s = (s', r)"
    by (simp add: table_file_def efile_for_table_def)
  from open_handle_same [OF this] high_table [OF assms(2)] True show ?thesis by (simp add: file_of_def)
next
  case False
  with assms(1) have o: "open_handle t (PagesFile t) s = (s', r)"
    by (simp add: table_file_def file_for_table_def)
  from open_handle_same [OF this] assms(2) False show ?thesis by (simp add: file_of_def)
qed

subsection \<open>Records\<close>

definition parse_record :: "ext \<Rightarrow> page_codec \<Rightarrow> page_store \<Rightarrow> u32 \<Rightarrow> u64 \<Rightarrow> bytes \<Rightarrow> page_error + page" where
  "parse_record X P s t page_id blob = (case map_of (ps_table_keys s) t of
       None \<Rightarrow> page_from_bytes X P blob
     | Some key \<Rightarrow> (case decrypt_bytes X key (take (ps_page_size s + GCM_OVERHEAD - 4) blob) (make_aad t page_id) of
         Inl e \<Rightarrow> Inl (PageCrypto e)
       | Inr m \<Rightarrow> page_from_bytes X P m))"

definition read_spec :: "ext \<Rightarrow> page_codec \<Rightarrow> page_store \<Rightarrow> u32 \<Rightarrow> u64 \<Rightarrow> page_error + page" where
  "read_spec X P s t page_id =
     (let bs = file_bytes s (file_of s t); off = record_offset s t page_id; n = record_size s t
      in if length bs < off + n then Inl PageIo else parse_record X P s t page_id (take n (drop off bs)))"

lemma record_size_cases:
  "map_of (ps_table_keys s) t = None \<Longrightarrow> record_size s t = ps_page_size s"
  "map_of (ps_table_keys s) t = Some k \<Longrightarrow> record_size s t = ps_page_size s + GCM_OVERHEAD"
  by (simp_all add: record_size_def table_is_encrypted_def)

lemma ps_read_ok:
  assumes "ps_faults s = []"
  shows "\<exists>s'. ps_read f off n s = (s', if length (file_bytes s f) < off + n then Inl PageIo
     else Inr (take n (drop off (file_bytes s f)))) \<and> same_store s s'"
  using assms by (simp add: ps_read_def ps_io_def)

lemma read_page_spec:
  assumes "handles_ok s" "t < 0x80000000" "ps_faults s = []"
  shows "\<exists>s'. read_page X P t page_id s = (s', read_spec X P s t page_id) \<and> same_store s s'"
proof -
  obtain s1 r where tf: "table_file t s = (s1, r)" by force
  note t1 = table_file_same [OF tf assms(2)]
  with assms have r: "r = Inr (file_of s t)" and same: "same_store s s1" by auto
  then have s1: "ps_faults s1 = []" "\<And>f. file_bytes s1 f = file_bytes s f"
    using assms(3) by (auto simp: same_store_def)
  from ps_read_ok [OF s1(1), of "file_of s t" "record_offset s t page_id" "record_size s t"] obtain s2 where
    rd: "ps_read (file_of s t) (record_offset s t page_id) (record_size s t) s1 =
      (s2, if length (file_bytes s (file_of s t)) < record_offset s t page_id + record_size s t then Inl PageIo
       else Inr (take (record_size s t) (drop (record_offset s t page_id) (file_bytes s (file_of s t)))))"
    and same2: "same_store s1 s2" by (auto simp: s1(2))
  have "read_page X P t page_id s = (s2, read_spec X P s t page_id)"
  proof (cases "map_of (ps_table_keys s) t")
    case None
    with tf r rd show ?thesis
      by (simp add: read_page_def read_spec_def Let_def table_file_def table_is_encrypted_def parse_record_def
          record_size_cases)
  next
    case (Some k)
    with tf r rd show ?thesis
      by (simp add: read_page_def read_spec_def Let_def table_file_def table_is_encrypted_def parse_record_def
          record_size_cases split: sum.splits)
  qed
  with same same2 show ?thesis using same_store_trans by blast
qed

lemma write_at_length: "length (write_at old off bs) = max (length old) (off + length bs)"
  by (simp add: write_at_def)

lemma write_at_same: "take (length bs) (drop off (write_at old off bs)) = bs"
  by (simp add: write_at_def)

lemma write_at_nth:
  assumes "i < length old"
  shows "write_at old off bs ! i = (if off \<le> i \<and> i < off + length bs then bs ! (i - off) else old ! i)"
  using assms by (auto simp: write_at_def nth_append min_def)

lemma write_at_other:
  assumes "off' + n \<le> length old" "off' + n \<le> off \<or> off + length bs \<le> off'"
  shows "take n (drop off' (write_at old off bs)) = take n (drop off' old)"
proof (rule nth_equalityI)
  show "length (take n (drop off' (write_at old off bs))) = length (take n (drop off' old))"
    using assms(1) by (simp add: write_at_length)
  fix i assume "i < length (take n (drop off' (write_at old off bs)))"
  then have i: "i < n" by simp
  with assms show "take n (drop off' (write_at old off bs)) ! i = take n (drop off' old) ! i"
    by (auto simp: write_at_length write_at_nth)
qed

text \<open>The record a page is stored as, under the nonce that was drawn.\<close>

definition page_record :: "ext \<Rightarrow> page_store \<Rightarrow> page \<Rightarrow> bytes \<Rightarrow> bytes" where
  "page_record X s p nonce =
     (let t = ph_table_id (pg_header p) in
      case map_of (ps_table_keys s) t of
        None \<Rightarrow> pg_buf p
      | Some key \<Rightarrow> encrypt_bytes X key (pg_buf p) (make_aad t (ph_page_id (pg_header p))) nonce @
          u32_le (of_nat (ps_page_size s)))"

lemma parse_page_record:
  assumes "ext_ok X" "length (pg_buf p) = ps_page_size s" "length nonce = 12"
  shows "length (page_record X s p nonce) = record_size s (ph_table_id (pg_header p))"
    and "parse_record X P s (ph_table_id (pg_header p)) (ph_page_id (pg_header p)) (page_record X s p nonce) =
      page_from_bytes X P (pg_buf p)"
proof -
  let ?t = "ph_table_id (pg_header p)"
  show "length (page_record X s p nonce) = record_size s ?t"
    using assms by (cases "map_of (ps_table_keys s) ?t")
      (simp_all add: page_record_def Let_def record_size_cases encrypt_bytes_def ext_okD GCM_OVERHEAD_def)
  show "parse_record X P s ?t (ph_page_id (pg_header p)) (page_record X s p nonce) =
      page_from_bytes X P (pg_buf p)"
    using assms by (cases "map_of (ps_table_keys s) ?t")
      (simp_all add: parse_record_def page_record_def Let_def encrypt_bytes_def ext_okD GCM_OVERHEAD_def
        decrypt_bytes_def)
qed

lemma ps_write_ok:
  assumes "ps_write f off bs s = (s', Inr ())"
  shows "file_bytes s' g = (if g = f then write_at (file_bytes s f) off bs else file_bytes s g)"
    and "ps_page_size s' = ps_page_size s" "ps_table_keys s' = ps_table_keys s" "handles_ok s' = handles_ok s"
  using assms
  by (auto simp: ps_write_def ps_io_def file_bytes_def handles_ok_def split: list.splits io_outcome.splits prod.splits)

lemma ps_nonce_same: "ps_nonce s = (s', n) \<Longrightarrow> same_store s s' \<and> length n = 12"
  by (auto simp: ps_nonce_def same_store_def file_bytes_def handles_ok_def)

lemma write_page_spec:
  assumes "handles_ok s" "t < 0x80000000" "t = ph_table_id (pg_header p)" "write_page X p s = (s', Inr ())"
  shows "\<exists>nonce. length nonce = 12 \<and> pg_sealed p \<and>
     (\<forall>g. file_bytes s' g = (if g = file_of s t
        then write_at (file_bytes s g) (record_offset s t (ph_page_id (pg_header p))) (page_record X s p nonce)
        else file_bytes s g)) \<and>
     ps_page_size s' = ps_page_size s \<and> ps_table_keys s' = ps_table_keys s \<and> handles_ok s'"
proof -
  obtain s1 nonce where n: "ps_nonce s = (s1, nonce)" by force
  define s0 where "s0 = (if map_of (ps_table_keys s) t = None then s else s1)"
  have same0: "same_store s s0" "length nonce = 12" using ps_nonce_same [OF n] by (simp_all add: s0_def)
  have keys: "map_of (ps_table_keys s0) t = map_of (ps_table_keys s) t" using same0 by (simp add: same_store_def)
  obtain s2 r where tf: "table_file t s0 = (s2, r)" by force
  let ?off = "record_offset s t (ph_page_id (pg_header p))" and ?blob = "page_record X s p nonce"
  have seal: "pg_sealed p" using assms(4) by (auto simp: write_page_def Let_def split: if_splits)
  have "write_page X p s = and_then (and_then (table_file t s0) (\<lambda>s2 f. ps_write f ?off ?blob s2))
      (\<lambda>s3 _. (s3\<lparr>ps_dirty := True\<rparr>, Inr ()))"
  proof (cases "map_of (ps_table_keys s) t")
    case None
    with seal assms(3) show ?thesis
      by (simp add: write_page_def Let_def table_file_def table_is_encrypted_def s0_def page_record_def)
  next
    case (Some k)
    with keys have "table_is_encrypted s0 t" "s0 = s1" by (simp_all add: table_is_encrypted_def s0_def)
    with Some seal assms(3) n show ?thesis
      by (simp add: write_page_def Let_def table_file_def page_record_def)
  qed
  with assms(4) tf obtain f s3 where r: "r = Inr f" and w: "ps_write f ?off ?blob s2 = (s3, Inr ())"
    and s': "s' = s3\<lparr>ps_dirty := True\<rparr>"
    by (auto simp: and_then_Inr_iff)
  note t2 = table_file_same [OF tf assms(2)]
  have "handles_ok s0" using same0 assms(1) by (simp add: same_store_def)
  with t2 r have f: "f = file_of s0 t" and same2: "same_store s s2"
    using same_store_trans [OF same0(1)] by auto
  have "file_of s0 t = file_of s t" using keys by (simp add: file_of_def table_is_encrypted_def)
  with f have f: "f = file_of s t" by simp
  have "file_bytes s' g = file_bytes s3 g" "handles_ok s' = handles_ok s3" for g
    by (simp_all add: s' file_bytes_def handles_ok_def)
  with f ps_write_ok [OF w] same2 same0(2) seal assms(1) show ?thesis
    by (intro exI [of _ nonce]) (simp add: s' same_store_def)
qed

lemma record_offset_disjoint:
  assumes "a \<noteq> b" "unat a * record_size s t < 2 ^ 64" "unat b * record_size s t < 2 ^ 64"
    and "n = record_size s t"
  shows "record_offset s t a + n \<le> record_offset s t b \<or> record_offset s t b + n \<le> record_offset s t a"
proof -
  have *: "record_offset s t x = unat x * record_size s t" if "unat x * record_size s t < 2 ^ 64" for x
  proof (cases "unat x = 0")
    case False
    with that have "record_size s t < 2 ^ 64" by (cases "unat x") auto
    with that show ?thesis by (simp add: record_offset_def unat_word_ariths unat_of_nat)
  qed (simp add: record_offset_def unat_eq_0)
  from assms(1) have "unat a < unat b \<or> unat b < unat a" by (metis nat_neq_iff word_unat_eq_iff)
  then show ?thesis
  proof
    assume "unat a < unat b"
    then have "Suc (unat a) * n \<le> unat b * n" by (intro mult_le_mono1) simp
    then show ?thesis using * assms by simp
  next
    assume "unat b < unat a"
    then have "Suc (unat b) * n \<le> unat a * n" by (intro mult_le_mono1) simp
    then show ?thesis using * assms by simp
  qed
qed

subsection \<open>Properties\<close>

lemma page_store_open_ok:
  "page_store_open n files faults rng = Inr s \<Longrightarrow> handles_ok s"
  by (auto simp: page_store_open_def Let_def ps_io_def handles_ok_def split: list.splits io_outcome.splits prod.splits)

lemma store_cong:
  assumes "ps_table_keys s' = ps_table_keys s" "ps_page_size s' = ps_page_size s"
  shows "file_of s' t = file_of s t" "record_size s' t = record_size s t"
    "record_offset s' t i = record_offset s t i" "parse_record X P s' t i b = parse_record X P s t i b"
  unfolding file_of_def record_size_def record_offset_def table_is_encrypted_def parse_record_def assms
  by (rule refl)+

lemma read_spec_written:
  assumes X: "ext_ok X" and t: "t = ph_table_id (pg_header p)" and len: "length (pg_buf p) = ps_page_size s"
    and nonce: "length nonce = 12" and keys: "ps_table_keys s' = ps_table_keys s" "ps_page_size s' = ps_page_size s"
    and f: "file_bytes s' (file_of s t) = write_at (file_bytes s (file_of s t))
      (record_offset s t (ph_page_id (pg_header p))) (page_record X s p nonce)"
  shows "read_spec X P s' t (ph_page_id (pg_header p)) = page_from_bytes X P (pg_buf p)"
proof -
  let ?id = "ph_page_id (pg_header p)"
  note r = parse_page_record [OF X len nonce] and same = store_cong [OF keys]
  have "take (record_size s t) (drop (record_offset s t ?id) (file_bytes s' (file_of s t))) = page_record X s p nonce"
    using f r(1) t write_at_same by metis
  moreover have "record_offset s t ?id + record_size s t \<le> length (file_bytes s' (file_of s t))"
    using f r(1) t by (simp add: write_at_length)
  ultimately show ?thesis using r(2) t by (simp add: read_spec_def Let_def same)
qed

text \<open>
  C39: the page store returns what was written.  After a successful \<^verbatim>\<open>write_page\<close> of a sealed
  page, \<^verbatim>\<open>read_page\<close> returns that page, plain or encrypted; a page read successfully before
  under another table or another id is still read with the same result.  Tables are below
  \<open>2 ^ 31\<close> and offsets below \<open>2 ^ 64\<close>.
\<close>

theorem page_store_read_write:
  assumes "ext_ok X" and "handles_ok s" and "ph_table_id (pg_header p) < 0x80000000"
    and "length (pg_buf p) = ps_page_size s" and "page_from_bytes X P (pg_buf p) = Inr p"
    and "write_page X p s = (s', Inr ())" and "ps_faults s' = []"
  shows "snd (read_page X P (ph_table_id (pg_header p)) (ph_page_id (pg_header p)) s') = Inr p \<and>
     (\<forall>t id q. t < 0x80000000 \<and> (t, id) \<noteq> (ph_table_id (pg_header p), ph_page_id (pg_header p)) \<and>
        unat id * record_size s t < 2 ^ 64 \<and> unat (ph_page_id (pg_header p)) * record_size s t < 2 ^ 64 \<and>
        snd (read_page X P t id (s\<lparr>ps_faults := []\<rparr>)) = Inr q \<longrightarrow>
        snd (read_page X P t id s') = Inr q)"
proof (intro conjI allI impI)
  let ?t = "ph_table_id (pg_header p)" and ?id = "ph_page_id (pg_header p)"
  from write_page_spec [OF assms(2,3) refl assms(6)] obtain nonce where w: "length nonce = 12"
    "\<And>g. file_bytes s' g = (if g = file_of s ?t
        then write_at (file_bytes s g) (record_offset s ?t ?id) (page_record X s p nonce) else file_bytes s g)"
    "ps_page_size s' = ps_page_size s" "ps_table_keys s' = ps_table_keys s" "handles_ok s'" by blast
  note rd = read_page_spec [OF w(5) _ assms(7)]
  show "snd (read_page X P ?t ?id s') = Inr p"
    using rd [OF assms(3), of X P ?id] read_spec_written [OF assms(1) refl assms(4) w(1,4,3), of P] w(2) assms(5)
    by auto
  fix t id q
  assume a: "t < 0x80000000 \<and> (t, id) \<noteq> (?t, ?id) \<and>
      unat id * record_size s t < 2 ^ 64 \<and> unat ?id * record_size s t < 2 ^ 64 \<and>
      snd (read_page X P t id (s\<lparr>ps_faults := []\<rparr>)) = Inr q"
  let ?s = "s\<lparr>ps_faults := []\<rparr>"
  have "handles_ok ?s" using assms(2) by (simp add: handles_ok_def)
  with read_page_spec [of ?s t X P id] a have "read_spec X P ?s t id = Inr q" by auto
  moreover have "read_spec X P ?s t id = read_spec X P s t id"
    using store_cong [of ?s s] by (simp add: read_spec_def Let_def file_bytes_def)
  ultimately have old: "read_spec X P s t id = Inr q" by simp
  note same = store_cong [OF w(4,3)]
  let ?n = "record_size s t" and ?off = "record_offset s t id" and ?old = "file_bytes s (file_of s t)"
  have in_old: "?off + ?n \<le> length ?old" using old by (auto simp: read_spec_def Let_def split: if_splits)
  have "?off + ?n \<le> length (file_bytes s' (file_of s t)) \<and>
      take ?n (drop ?off (file_bytes s' (file_of s t))) = take ?n (drop ?off ?old)"
  proof (cases "t = ?t")
    case True
    then have "id \<noteq> ?id" using a by auto
    from record_offset_disjoint [OF this, of s t] a True parse_page_record(1) [OF assms(1,4) w(1)]
    have "?off + ?n \<le> record_offset s t ?id \<or> record_offset s t ?id + length (page_record X s p nonce) \<le> ?off"
      by auto
    with write_at_other [OF in_old] in_old True w(2) show ?thesis by (simp add: write_at_length)
  next
    case False
    then have "file_of s t \<noteq> file_of s ?t" by (simp add: file_of_def)
    with w(2) in_old show ?thesis by simp
  qed
  with old have "read_spec X P s' t id = Inr q" using in_old by (simp add: read_spec_def Let_def same)
  with rd [of t X P id] a show "snd (read_page X P t id s') = Inr q" by auto
qed

lemma sample_sealed_page:
  "\<exists>p. page_from_bytes sample_ext sample_page_codec (pg_buf p) = Inr p \<and> pg_sealed p \<and>
     length (pg_buf p) = 130 \<and> ph_table_id (pg_header p) = 1 \<and> ph_page_id (pg_header p) = 7"
proof -
  let ?p = "blank_page sample_page_codec 7 1 130"
  have inv: "page_inv ?p []" and magic: "validate_magic (pg_header ?p)"
    using blank_page_inv [OF sample_page_codec_ok, of 130 7 1]
    by (simp_all add: PAGE_HEADER_SIZE_def blank_page_def page_header_new_def validate_magic_def)
  note q = from_bytes_seal [OF sample_page_codec_ok inv magic, of sample_ext]
    and f = seal_props [OF sample_page_codec_ok, where X = sample_ext and p = ?p]
  have "length (pg_buf (seal sample_ext sample_page_codec ?p)) = 130"
    using q(2) f(7) by (simp add: page_inv_def blank_page_def)
  moreover have "ph_table_id (pg_header (seal sample_ext sample_page_codec ?p)) = 1"
    "ph_page_id (pg_header (seal sample_ext sample_page_codec ?p)) = 7"
    using f(5) by (auto simp: blank_page_def page_header_new_def)
  ultimately show ?thesis using q(1) f(6) by blast
qed

theorem page_store_read_write_witness:
  "\<exists>s s' p. page_store_open 130 [] [] (\<lambda>_. []) = Inr s \<and> write_page sample_ext p s = (s', Inr ()) \<and>
     snd (read_page sample_ext sample_page_codec 1 7 s') = Inr p"
proof -
  obtain p where p: "page_from_bytes sample_ext sample_page_codec (pg_buf p) = Inr p" "pg_sealed p"
    "length (pg_buf p) = 130" "ph_table_id (pg_header p) = 1" "ph_page_id (pg_header p) = 7"
    using sample_sealed_page by blast
  obtain s where s: "page_store_open 130 [] [] (\<lambda>_. []) = Inr s" "ps_faults s = []" "ps_page_size s = 130"
    "ps_table_keys s = []" "ps_handles s = []"
    by (simp add: page_store_open_def Let_def ps_io_def)
  obtain s' where w: "write_page sample_ext p s = (s', Inr ())" "ps_faults s' = []"
    using s p(2) by (simp add: write_page_def Let_def file_for_table_def open_handle_def ps_io_def ps_write_def)
  from page_store_read_write [OF sample_ext_ok page_store_open_ok [OF s(1)] _ _ p(1) w] p s w show ?thesis
    by auto
qed

end
