(* ===== verification/Ledger_Types.thy ===== *)
theory Ledger_Types
  imports Transaction Page_Store
begin

text \<open>
  The value types of \<^verbatim>\<open>crates/vledger-ledger\<close>: amounts (\<^verbatim>\<open>amount.rs\<close>), currencies
  (\<^verbatim>\<open>currency.rs\<close>), the chart of accounts (\<^verbatim>\<open>account.rs\<close>) and errors (\<^verbatim>\<open>error.rs\<close>).

  An \<^verbatim>\<open>i64\<close> is a 64-bit word read with \<open>sint\<close>.  Sums in \<^verbatim>\<open>i128\<close> are integers: a sum of fewer
  than \<open>2 ^ 63\<close> amounts cannot leave the range of \<^verbatim>\<open>i128\<close>.  \<^verbatim>\<open>to_uppercase\<close> is the ASCII
  conversion of the prelude.  The UUIDs that the code formats into error messages stay UUIDs.
\<close>

type_synonym i64 = "64 word"
type_synonym account_id = uuid

subsection \<open>Amounts\<close>

datatype amount = Amount (amount_raw: i64)

definition amount_new :: "i64 \<Rightarrow> amount option" where
  "amount_new minor_units = (if minor_units = 0 then None else Some (Amount minor_units))"

definition amount_zero :: amount where
  "amount_zero = Amount 0"

definition amount_as_i64 :: "amount \<Rightarrow> int" where
  "amount_as_i64 a = sint (amount_raw a)"

definition amount_as_i128 :: "amount \<Rightarrow> int" where
  "amount_as_i128 a = sint (amount_raw a)"

text \<open>\<^verbatim>\<open>i64::abs\<close> in a release build: the least value is its own absolute value.\<close>

definition i64_abs :: "i64 \<Rightarrow> i64" where
  "i64_abs x = (if sint x < 0 then - x else x)"

definition amount_abs :: "amount \<Rightarrow> amount" where
  "amount_abs a = Amount (i64_abs (amount_raw a))"

definition amount_is_positive :: "amount \<Rightarrow> bool" where
  "amount_is_positive a \<longleftrightarrow> sint (amount_raw a) > 0"

definition amount_is_negative :: "amount \<Rightarrow> bool" where
  "amount_is_negative a \<longleftrightarrow> sint (amount_raw a) < 0"

text \<open>Checked arithmetic; the operators \<^verbatim>\<open>-a\<close>, \<^verbatim>\<open>a + b\<close> and \<^verbatim>\<open>a - b\<close> panic (None) where
  the checked ones return \<^verbatim>\<open>None\<close>.\<close>

definition i64_checked :: "int \<Rightarrow> i64 option" where
  "i64_checked x = (if in_i64 x then Some (word_of_int x) else None)"

definition amount_checked_add :: "amount \<Rightarrow> amount \<Rightarrow> amount option" where
  "amount_checked_add a b = map_option Amount (i64_checked (sint (amount_raw a) + sint (amount_raw b)))"

definition amount_checked_sub :: "amount \<Rightarrow> amount \<Rightarrow> amount option" where
  "amount_checked_sub a b = map_option Amount (i64_checked (sint (amount_raw a) - sint (amount_raw b)))"

definition amount_neg :: "amount \<Rightarrow> amount option" where
  "amount_neg a = map_option Amount (i64_checked (- sint (amount_raw a)))"

instantiation amount :: linorder
begin

definition less_eq_amount :: "amount \<Rightarrow> amount \<Rightarrow> bool" where
  "less_eq_amount a b \<longleftrightarrow> sint (amount_raw a) \<le> sint (amount_raw b)"

definition less_amount :: "amount \<Rightarrow> amount \<Rightarrow> bool" where
  "less_amount a b \<longleftrightarrow> sint (amount_raw a) < sint (amount_raw b)"

instance
proof
  fix a b :: amount
  show "a = b" if "a \<le> b" "b \<le> a"
  proof -
    from that have "sint (amount_raw a) = sint (amount_raw b)" by (simp add: less_eq_amount_def)
    from arg_cong [OF this, of "word_of_int :: int \<Rightarrow> i64"] show ?thesis by (simp add: amount.expand)
  qed
qed (auto simp: less_eq_amount_def less_amount_def)

end

lemma sint_in_i64 [simp]: "in_i64 (sint (x :: i64))"
  using sint_greater_eq [of x] sint_less [of x] by (simp add: in_i64_def i64_min_def i64_max_def)

lemma sint_of_in_i64: "in_i64 x \<Longrightarrow> sint (word_of_int x :: i64) = x"
  by (simp add: in_i64_def i64_min_def i64_max_def signed_of_int signed_take_bit_int_eq_self)

lemma i64_checked_cases:
  "case map_option Amount (i64_checked x) of None \<Rightarrow> \<not> in_i64 x | Some c \<Rightarrow> amount_as_i64 c = x"
  using sint_of_in_i64 [of x] by (simp add: i64_checked_def amount_as_i64_def del: of_int_add of_int_diff)

text \<open>
  Checked amounts are exact.  \<^verbatim>\<open>checked_add\<close> and \<^verbatim>\<open>checked_sub\<close> return the exact sum and
  difference when it fits 64 bits and \<^verbatim>\<open>None\<close> otherwise; negation fails for the least value
  only.
\<close>

theorem amount_arith_exact:
  "(case amount_checked_add a b of
      None \<Rightarrow> \<not> in_i64 (amount_as_i64 a + amount_as_i64 b)
    | Some c \<Rightarrow> amount_as_i64 c = amount_as_i64 a + amount_as_i64 b) \<and>
   (case amount_checked_sub a b of
      None \<Rightarrow> \<not> in_i64 (amount_as_i64 a - amount_as_i64 b)
    | Some c \<Rightarrow> amount_as_i64 c = amount_as_i64 a - amount_as_i64 b) \<and>
   (case amount_neg a of
      None \<Rightarrow> amount_as_i64 a = - (2 ^ 63)
    | Some c \<Rightarrow> amount_as_i64 c = - amount_as_i64 a)"
proof (intro conjI)
  have "in_i64 (- amount_as_i64 a) \<or> amount_as_i64 a = - (2 ^ 63)"
    using sint_in_i64 [of "amount_raw a"]
    by (auto simp: amount_as_i64_def in_i64_def i64_min_def i64_max_def)
  with i64_checked_cases [of "- amount_as_i64 a"]
  show "case amount_neg a of None \<Rightarrow> amount_as_i64 a = - (2 ^ 63) | Some c \<Rightarrow> amount_as_i64 c = - amount_as_i64 a"
    unfolding amount_neg_def amount_as_i64_def [symmetric] by (auto split: option.splits)
qed (unfold amount_checked_add_def amount_checked_sub_def amount_as_i64_def [symmetric],
    (rule i64_checked_cases)+)

subsection \<open>Currencies\<close>

record currency =
  cur_code :: string
  cur_precision :: byte
  cur_name :: string
  cur_is_crypto :: bool

definition currency_new :: "string \<Rightarrow> byte \<Rightarrow> string \<Rightarrow> bool \<Rightarrow> currency" where
  "currency_new code precision name is_crypto =
     \<lparr> cur_code = to_uppercase code, cur_precision = precision, cur_name = name, cur_is_crypto = is_crypto \<rparr>"

type_synonym currency_registry = "(string \<times> currency) list"

definition currency_register :: "currency \<Rightarrow> currency_registry \<Rightarrow> currency_registry" where
  "currency_register c r = AList.update (cur_code c) c r"

definition currency_registry_new :: currency_registry where
  "currency_registry_new = foldl (\<lambda>r c. currency_register c r) []
     [currency_new ''USD'' 2 ''US Dollar'' False, currency_new ''EUR'' 2 ''Euro'' False,
      currency_new ''GBP'' 2 ''British Pound'' False, currency_new ''BTC'' 8 ''Bitcoin'' True,
      currency_new ''ETH'' 18 ''Ethereum'' True, currency_new ''USDC'' 6 ''USD Coin'' True,
      currency_new ''JPY'' 0 ''Japanese Yen'' False]"

definition currency_get :: "currency_registry \<Rightarrow> string \<Rightarrow> currency option" where
  "currency_get r code = map_of r (to_uppercase code)"

definition currency_precision :: "currency_registry \<Rightarrow> string \<Rightarrow> byte option" where
  "currency_precision r code = map_option cur_precision (currency_get r code)"

subsection \<open>Accounts\<close>

datatype account_type = Asset | Liability | Equity | Income | Expense | Contra | Suspense

fun normal_balance_sign :: "account_type \<Rightarrow> int" where
  "normal_balance_sign Asset = 1"
| "normal_balance_sign Expense = 1"
| "normal_balance_sign Liability = -1"
| "normal_balance_sign Equity = -1"
| "normal_balance_sign Income = -1"
| "normal_balance_sign Contra = -1"
| "normal_balance_sign Suspense = 1"

datatype account_status = AccountActive | AccountIsClosed | AccountFrozen

record account =
  acc_id :: account_id
  acc_code :: string
  acc_name :: string
  acc_type :: account_type
  acc_currency_code :: string
  acc_status :: account_status
  acc_require_non_negative_balance :: bool
  acc_exposure_limit :: "i64 option"
  acc_require_four_eyes :: bool
  acc_parent_id :: "account_id option"
  acc_created_at :: timestamp
  acc_domain :: string
  acc_legal_hold :: bool

definition account_new ::
  "uuid \<Rightarrow> timestamp \<Rightarrow> string \<Rightarrow> string \<Rightarrow> account_type \<Rightarrow> string \<Rightarrow> string \<Rightarrow> account" where
  "account_new uid now code name ty currency_code domain =
     \<lparr> acc_id = uid, acc_code = code, acc_name = name, acc_type = ty,
       acc_currency_code = to_uppercase currency_code, acc_status = AccountActive,
       acc_require_non_negative_balance = True, acc_exposure_limit = None, acc_require_four_eyes = False,
       acc_parent_id = None, acc_created_at = now, acc_domain = domain, acc_legal_hold = False \<rparr>"

definition acc_is_active :: "account \<Rightarrow> bool" where
  "acc_is_active a \<longleftrightarrow> acc_status a = AccountActive"

text \<open>\<^verbatim>\<open>matches!(acct.account_type, Asset | Expense)\<close>.\<close>

definition debit_normal :: "account_type \<Rightarrow> bool" where
  "debit_normal t \<longleftrightarrow> t = Asset \<or> t = Expense"

subsection \<open>Statuses and errors\<close>

datatype dr_cr = Debit | Credit

datatype entry_status = Posted | Reversed | Reversal | PendingApproval | Rejected | Pending | Settled | Failed

datatype ledger_error =
    LTransaction tx_error
  | LWal wal_error
  | LPage page_error
  | UnbalancedEntry int int
  | TooFewLines nat
  | ZeroAmount
  | InsufficientFunds account_id int int
  | AccountNotFound account_id
  | AccountClosed account_id
  | CurrencyMismatch string string
  | IdempotencyConflict string
  | EntryNotFound uuid
  | CannotReverse uuid entry_status
  | AlreadyReversed uuid uuid
  | ExposureLimitExceeded account_id int int
  | FourEyesRequired
  | AccountUnderLegalHold account_id
  | PrecisionViolation string byte int int
  | LSerialization string
  | LIo

end
