(* ===== verification/Journal_Entry.thy ===== *)
theory Journal_Entry
  imports Ledger_Types Hash_Chain
begin

text \<open>
  \<^verbatim>\<open>crates/vledger-ledger/src/entry.rs\<close>: journal lines and entries, validation, the canonical
  byte encoding, content and chain hashes, and the builder.
\<close>

subsection \<open>Entries\<close>

record journal_line =
  jl_id :: uuid
  jl_account_id :: account_id
  jl_currency_code :: string
  jl_amount :: amount
  jl_dr_cr :: dr_cr
  jl_memo :: "string option"

fun signed_amount_of :: "dr_cr \<Rightarrow> int \<Rightarrow> int" where
  "signed_amount_of Credit a = a"
| "signed_amount_of Debit a = - a"

definition signed_amount :: "journal_line \<Rightarrow> int" where
  "signed_amount l = signed_amount_of (jl_dr_cr l) (amount_as_i128 (jl_amount l))"

record journal_entry =
  je_id :: uuid
  je_sequence :: u64
  je_status :: entry_status
  je_description :: string
  je_lines :: "journal_line list"
  je_effective_at :: timestamp
  je_posted_at :: timestamp
  je_external_ref :: "string option"
  je_idempotency_key :: "string option"
  je_reverses_entry_id :: "uuid option"
  je_reversed_by_entry_id :: "uuid option"
  je_domain :: string
  je_content_hash :: hash
  je_prev_hash :: hash
  je_chain_hash :: hash
  je_approved_by :: "string option"
  je_metadata :: "string option"

text \<open>One pass over the lines with the two running totals.\<close>

fun line_totals :: "int \<Rightarrow> int \<Rightarrow> journal_line list \<Rightarrow> int \<times> int" where
  "line_totals d c [] = (d, c)"
| "line_totals d c (l # ls) = (case jl_dr_cr l of
       Debit \<Rightarrow> line_totals (d + amount_as_i128 (jl_amount l)) c ls
     | Credit \<Rightarrow> line_totals d (c + amount_as_i128 (jl_amount l)) ls)"

definition validate :: "journal_entry \<Rightarrow> ledger_error + unit" where
  "validate e =
     (if length (je_lines e) < 2 then Inl (TooFewLines (length (je_lines e)))
      else let (d, c) = line_totals 0 0 (je_lines e)
           in if d \<noteq> c then Inl (UnbalancedEntry d c) else Inr ())"

subsection \<open>Canonical bytes\<close>

definition write_bytes :: "bytes \<Rightarrow> bytes" where
  "write_bytes data = u32_le (of_nat (length data)) @ data"

fun write_opt_bytes :: "bytes option \<Rightarrow> bytes" where
  "write_opt_bytes (Some d) = write_bytes d"
| "write_opt_bytes None = u32_le 0xFFFFFFFF"

fun status_byte :: "entry_status \<Rightarrow> byte" where
  "status_byte Posted = 0"
| "status_byte Reversed = 1"
| "status_byte Reversal = 2"
| "status_byte PendingApproval = 3"
| "status_byte Rejected = 4"
| "status_byte Pending = 5"
| "status_byte Settled = 6"
| "status_byte Failed = 7"

fun dr_cr_byte :: "dr_cr \<Rightarrow> byte" where
  "dr_cr_byte Debit = 0"
| "dr_cr_byte Credit = 1"

text \<open>\<^verbatim>\<open>timestamp_nanos_opt().unwrap_or(0)\<close>.\<close>

definition nanos_or_zero :: "timestamp \<Rightarrow> int" where
  "nanos_or_zero t = (if in_i64 t then t else 0)"

fun opt_uuid_bytes :: "uuid option \<Rightarrow> bytes" where
  "opt_uuid_bytes (Some u) = uuid_raw u @ [0x01]"
| "opt_uuid_bytes None = replicate 16 0 @ [0x00]"

definition line_bytes :: "journal_line \<Rightarrow> bytes" where
  "line_bytes l = uuid_raw (jl_id l) @ uuid_raw (jl_account_id l) @
     le_bytes 8 (unat (amount_raw (jl_amount l))) @ [dr_cr_byte (jl_dr_cr l)] @
     write_bytes (str_bytes (jl_currency_code l)) @ write_opt_bytes (map_option str_bytes (jl_memo l))"

definition canonical_bytes :: "journal_entry \<Rightarrow> bytes" where
  "canonical_bytes e =
     [0x01] @ uuid_raw (je_id e) @ le_bytes 8 (unat (je_sequence e)) @ [status_byte (je_status e)] @
     i64_bytes (nanos_or_zero (je_effective_at e)) @ i64_bytes (nanos_or_zero (je_posted_at e)) @
     write_bytes (str_bytes (je_description e)) @ write_bytes (str_bytes (je_domain e)) @
     write_opt_bytes (map_option str_bytes (je_external_ref e)) @
     write_opt_bytes (map_option str_bytes (je_idempotency_key e)) @
     opt_uuid_bytes (je_reverses_entry_id e) @ opt_uuid_bytes (je_reversed_by_entry_id e) @
     write_opt_bytes (map_option str_bytes (je_approved_by e)) @
     write_opt_bytes (map_option str_bytes (je_metadata e)) @
     u32_le (of_nat (length (je_lines e))) @ concat (map line_bytes (je_lines e))"

subsection \<open>Hashes\<close>

definition precompute_content_hash :: "(bytes \<Rightarrow> hash) \<Rightarrow> journal_entry \<Rightarrow> journal_entry" where
  "precompute_content_hash b3 e = e\<lparr>je_content_hash := b3 (canonical_bytes e)\<rparr>"

definition link_msg :: "u64 \<Rightarrow> hash \<Rightarrow> hash \<Rightarrow> bytes" where
  "link_msg sq prev content = le_bytes 8 (unat sq) @ hash_raw prev @ hash_raw content"

definition finalize_chain_hash :: "(bytes \<Rightarrow> hash) \<Rightarrow> hash \<Rightarrow> journal_entry \<Rightarrow> journal_entry" where
  "finalize_chain_hash b3 prev e =
     (let e1 = (if je_content_hash e = ZERO_HASH then e\<lparr>je_content_hash := b3 (canonical_bytes e)\<rparr> else e)
      in e1\<lparr>je_prev_hash := prev, je_chain_hash := b3 (link_msg (je_sequence e1) prev (je_content_hash e1))\<rparr>)"

definition finalize_hashes :: "(bytes \<Rightarrow> hash) \<Rightarrow> hash \<Rightarrow> journal_entry \<Rightarrow> journal_entry" where
  "finalize_hashes b3 prev e = finalize_chain_hash b3 prev (precompute_content_hash b3 e)"

definition verify_hashes :: "(bytes \<Rightarrow> hash) \<Rightarrow> journal_entry \<Rightarrow> bool" where
  "verify_hashes b3 e =
     (if b3 (canonical_bytes e) \<noteq> je_content_hash e then False
      else b3 (link_msg (je_sequence e) (je_prev_hash e) (je_content_hash e)) = je_chain_hash e)"

subsection \<open>The builder\<close>

record journal_entry_builder =
  jb_description :: string
  jb_lines :: "journal_line list"
  jb_effective_at :: timestamp
  jb_external_ref :: "string option"
  jb_idempotency_key :: "string option"
  jb_domain :: string
  jb_reverses_entry_id :: "uuid option"
  jb_metadata :: "string option"

definition builder_new :: "timestamp \<Rightarrow> string \<Rightarrow> string \<Rightarrow> journal_entry_builder" where
  "builder_new now description domain =
     \<lparr> jb_description = description, jb_lines = [], jb_effective_at = now, jb_external_ref = None,
       jb_idempotency_key = None, jb_domain = domain, jb_reverses_entry_id = None, jb_metadata = None \<rparr>"

definition builder_line ::
  "dr_cr \<Rightarrow> uuid \<Rightarrow> account_id \<Rightarrow> amount \<Rightarrow> string \<Rightarrow> journal_entry_builder \<Rightarrow> journal_entry_builder" where
  "builder_line d line_id account_id amount currency b =
     b\<lparr>jb_lines := jb_lines b @ [\<lparr> jl_id = line_id, jl_account_id = account_id,
         jl_currency_code = to_uppercase currency, jl_amount = amount, jl_dr_cr = d, jl_memo = None \<rparr>]\<rparr>"

definition builder_debit ::
  "uuid \<Rightarrow> account_id \<Rightarrow> amount \<Rightarrow> string \<Rightarrow> journal_entry_builder \<Rightarrow> journal_entry_builder" where
  "builder_debit = builder_line Debit"

definition builder_credit ::
  "uuid \<Rightarrow> account_id \<Rightarrow> amount \<Rightarrow> string \<Rightarrow> journal_entry_builder \<Rightarrow> journal_entry_builder" where
  "builder_credit = builder_line Credit"

definition builder_effective_at :: "timestamp \<Rightarrow> journal_entry_builder \<Rightarrow> journal_entry_builder" where
  "builder_effective_at dt b = b\<lparr>jb_effective_at := dt\<rparr>"

definition builder_external_ref :: "string \<Rightarrow> journal_entry_builder \<Rightarrow> journal_entry_builder" where
  "builder_external_ref r b = b\<lparr>jb_external_ref := Some r\<rparr>"

definition builder_idempotency_key :: "string \<Rightarrow> journal_entry_builder \<Rightarrow> journal_entry_builder" where
  "builder_idempotency_key k b = b\<lparr>jb_idempotency_key := Some k\<rparr>"

definition builder_metadata :: "string \<Rightarrow> journal_entry_builder \<Rightarrow> journal_entry_builder" where
  "builder_metadata json b = b\<lparr>jb_metadata := Some json\<rparr>"

definition builder_reverses :: "uuid \<Rightarrow> journal_entry_builder \<Rightarrow> journal_entry_builder" where
  "builder_reverses entry_id b = b\<lparr>jb_reverses_entry_id := Some entry_id\<rparr>"

definition build :: "uuid \<Rightarrow> timestamp \<Rightarrow> journal_entry_builder \<Rightarrow> journal_entry" where
  "build uid now b =
     \<lparr> je_id = uid, je_sequence = 0,
       je_status = (if jb_reverses_entry_id b \<noteq> None then Reversal else Posted),
       je_description = jb_description b, je_lines = jb_lines b, je_effective_at = jb_effective_at b,
       je_posted_at = now, je_external_ref = jb_external_ref b, je_idempotency_key = jb_idempotency_key b,
       je_reverses_entry_id = jb_reverses_entry_id b, je_reversed_by_entry_id = None, je_domain = jb_domain b,
       je_content_hash = ZERO_HASH, je_prev_hash = ZERO_HASH, je_chain_hash = ZERO_HASH,
       je_approved_by = None, je_metadata = jb_metadata b \<rparr>"

subsection \<open>Validation\<close>

lemma line_totals_sum:
  "line_totals d c ls = (d + (\<Sum>l\<leftarrow>ls. if jl_dr_cr l = Debit then amount_as_i128 (jl_amount l) else 0),
     c + (\<Sum>l\<leftarrow>ls. if jl_dr_cr l = Credit then amount_as_i128 (jl_amount l) else 0))"
  by (induction d c ls rule: line_totals.induct) (auto split: dr_cr.splits)

lemma signed_sum:
  "(\<Sum>l\<leftarrow>ls. signed_amount l) =
     (\<Sum>l\<leftarrow>ls. if jl_dr_cr l = Credit then amount_as_i128 (jl_amount l) else 0) -
     (\<Sum>l\<leftarrow>ls. if jl_dr_cr l = Debit then amount_as_i128 (jl_amount l) else 0)"
proof (induction ls)
  case (Cons l ls)
  then show ?case by (cases "jl_dr_cr l") (simp_all add: signed_amount_def)
qed simp

lemma validate_balanced:
  "validate e = Inr () \<longleftrightarrow> 2 \<le> length (je_lines e) \<and> (\<Sum>l\<leftarrow>je_lines e. signed_amount l) = 0"
  by (auto simp: validate_def line_totals_sum signed_sum)

text \<open>
  What validation accepts.  \<^verbatim>\<open>validate\<close> accepts an entry exactly when it has at least two
  lines and its signed amounts (credits positive, debits negative) sum to zero.
\<close>

theorem validate_iff:
  "validate e = Inr () \<longleftrightarrow> 2 \<le> length (je_lines e) \<and> (\<Sum>l\<leftarrow>je_lines e. signed_amount l) = 0"
  by (rule validate_balanced)

subsection \<open>The encoding is injective\<close>

text \<open>Lengths below the sentinel and instants that have a nanosecond count.\<close>

definition str_ok :: "string \<Rightarrow> bool" where
  "str_ok s \<longleftrightarrow> length s < 2 ^ 32 - 1"

definition opt_ok :: "string option \<Rightarrow> bool" where
  "opt_ok s = (case s of None \<Rightarrow> True | Some t \<Rightarrow> str_ok t)"

definition line_ok :: "journal_line \<Rightarrow> bool" where
  "line_ok l \<longleftrightarrow> str_ok (jl_currency_code l) \<and> opt_ok (jl_memo l)"

definition entry_ok :: "journal_entry \<Rightarrow> bool" where
  "entry_ok e \<longleftrightarrow> str_ok (je_description e) \<and> str_ok (je_domain e) \<and> opt_ok (je_external_ref e) \<and>
     opt_ok (je_idempotency_key e) \<and> opt_ok (je_approved_by e) \<and> opt_ok (je_metadata e) \<and>
     in_i64 (je_effective_at e) \<and> in_i64 (je_posted_at e) \<and> length (je_lines e) < 2 ^ 32 \<and>
     (\<forall>l \<in> set (je_lines e). line_ok l)"

lemma u32_le_inject [simp]: "u32_le a = u32_le b \<longleftrightarrow> a = b"
  using u32_of_le_u32_le by metis

lemma u32_of_nat_inject: "a < 2 ^ 32 \<Longrightarrow> b < 2 ^ 32 \<Longrightarrow> (of_nat a :: u32) = of_nat b \<longleftrightarrow> a = b"
proof -
  have "unat (of_nat n :: u32) = n" if "n < 2 ^ 32" for n
    using that by (simp add: unat_of_nat)
  then show "a < 2 ^ 32 \<Longrightarrow> b < 2 ^ 32 \<Longrightarrow> ?thesis" by metis
qed

lemma write_bytes_append:
  assumes "str_ok a" "str_ok b"
  shows "write_bytes (str_bytes a) @ x = write_bytes (str_bytes b) @ y \<longleftrightarrow> a = b \<and> x = y"
proof
  assume "write_bytes (str_bytes a) @ x = write_bytes (str_bytes b) @ y"
  then have "(of_nat (length a) :: u32) = of_nat (length b)" and rest: "str_bytes a @ x = str_bytes b @ y"
    by (simp_all add: write_bytes_def)
  then have "length a = length b" using assms by (simp add: u32_of_nat_inject str_ok_def)
  with rest show "a = b \<and> x = y" by simp
qed simp

lemma write_opt_bytes_append:
  assumes "opt_ok a" "opt_ok b"
  shows "write_opt_bytes (map_option str_bytes a) @ x = write_opt_bytes (map_option str_bytes b) @ y \<longleftrightarrow>
     a = b \<and> x = y"
proof -
  have *: "(of_nat n :: u32) \<noteq> 0xFFFFFFFF" if "n < 2 ^ 32 - 1" for n
    using that u32_of_nat_inject [of n "2 ^ 32 - 1"] by simp
  have none: "write_bytes (str_bytes s) @ z \<noteq> u32_le 0xFFFFFFFF @ w" if "str_ok s" for s z w
    using * [of "length s"] that by (simp add: write_bytes_def str_ok_def)
  show ?thesis
    using assms none write_bytes_append
    by (cases a; cases b) (auto simp: opt_ok_def dest: not_sym)
qed

lemma dr_cr_byte_inject [simp]: "dr_cr_byte a = dr_cr_byte b \<longleftrightarrow> a = b"
  by (cases a; cases b) simp_all

lemma status_byte_inject [simp]: "status_byte a = status_byte b \<longleftrightarrow> a = b"
  by (cases a; cases b) simp_all

lemma length_opt_uuid_bytes [simp]: "length (opt_uuid_bytes u) = 17"
  by (cases u) simp_all

lemma opt_uuid_bytes_inject [simp]: "opt_uuid_bytes a = opt_uuid_bytes b \<longleftrightarrow> a = b"
  by (cases a; cases b) simp_all

lemma u64_bytes_inject [simp]: "le_bytes 8 (unat a) = le_bytes 8 (unat b) \<longleftrightarrow> a = b" for a b :: u64
  using unsigned_less [of a, where 'a = nat] unsigned_less [of b, where 'a = nat]
  by (simp add: le_bytes_inject word_unat_eq_iff)

lemma line_bytes_append:
  assumes "line_ok l" "line_ok m"
  shows "line_bytes l @ x = line_bytes m @ y \<longleftrightarrow> l = m \<and> x = y"
  using assms
  by (auto simp: line_bytes_def line_ok_def write_bytes_append write_opt_bytes_append
      intro: amount.expand journal_line.equality)

lemma lines_bytes_inject:
  assumes "\<forall>l \<in> set ls. line_ok l" "\<forall>l \<in> set ms. line_ok l" "length ls = length ms"
    "concat (map line_bytes ls) = concat (map line_bytes ms)"
  shows "ls = ms"
  using assms(3,1,2,4)
  by (induction ls ms rule: list_induct2) (auto simp: line_bytes_append)

lemma nanos_inject: "in_i64 a \<Longrightarrow> in_i64 b \<Longrightarrow> i64_bytes (nanos_or_zero a) = i64_bytes (nanos_or_zero b) \<Longrightarrow> a = b"
  using i64_bytes_inject by (simp add: nanos_or_zero_def)

text \<open>Everything of an entry that the canonical bytes cover: all but the three hashes.\<close>

definition no_hashes :: "journal_entry \<Rightarrow> journal_entry" where
  "no_hashes e = e\<lparr>je_content_hash := 0, je_prev_hash := 0, je_chain_hash := 0\<rparr>"

lemma canonical_bytes_inject:
  assumes "entry_ok e" "entry_ok f" "canonical_bytes e = canonical_bytes f"
  shows "no_hashes e = no_hashes f"
proof -
  let ?ls = "concat (map line_bytes (je_lines e))" and ?ms = "concat (map line_bytes (je_lines f))"
  have a: "je_id e = je_id f" "je_sequence e = je_sequence f" "je_status e = je_status f"
    "i64_bytes (nanos_or_zero (je_effective_at e)) = i64_bytes (nanos_or_zero (je_effective_at f))"
    "i64_bytes (nanos_or_zero (je_posted_at e)) = i64_bytes (nanos_or_zero (je_posted_at f))"
    "je_description e = je_description f" "je_domain e = je_domain f"
    "je_external_ref e = je_external_ref f" "je_idempotency_key e = je_idempotency_key f"
    "je_reverses_entry_id e = je_reverses_entry_id f" "je_reversed_by_entry_id e = je_reversed_by_entry_id f"
    "je_approved_by e = je_approved_by f" "je_metadata e = je_metadata f"
    "(of_nat (length (je_lines e)) :: u32) = of_nat (length (je_lines f))" "?ls = ?ms"
    using assms by (simp_all add: canonical_bytes_def entry_ok_def write_bytes_append write_opt_bytes_append)
  have "je_lines e = je_lines f"
    using assms(1,2) a(14,15) by (intro lines_bytes_inject) (simp_all add: entry_ok_def u32_of_nat_inject)
  moreover have "je_effective_at e = je_effective_at f" "je_posted_at e = je_posted_at f"
    using assms(1,2) a(4,5) nanos_inject by (simp_all add: entry_ok_def)
  ultimately show ?thesis using a by (simp add: no_hashes_def)
qed

text \<open>
  The condition on the instants is needed: an instant without a nanosecond count, before 1677 or after 2262, is hashed as 0,
  so two such instants cannot be told apart by the hashes.
\<close>

lemma far_instants_alias:
  assumes "\<not> in_i64 t" "\<not> in_i64 u"
  shows "canonical_bytes (e\<lparr>je_effective_at := t\<rparr>) = canonical_bytes (e\<lparr>je_effective_at := u\<rparr>)"
  using assms by (simp add: canonical_bytes_def nanos_or_zero_def)

definition sample_line :: "dr_cr \<Rightarrow> account_id \<Rightarrow> journal_line" where
  "sample_line d a = \<lparr> jl_id = 1, jl_account_id = a, jl_currency_code = ''USD'', jl_amount = Amount 100,
     jl_dr_cr = d, jl_memo = None \<rparr>"

definition sample_entry :: journal_entry where
  "sample_entry = (build 9 5 (builder_new 4 ''Sale'' ''test''))\<lparr>je_lines := [sample_line Debit 1, sample_line Credit 2]\<rparr>"

lemma sample_entry_ok: "entry_ok sample_entry"
  by (simp add: sample_entry_def entry_ok_def str_ok_def opt_ok_def build_def builder_new_def in_i64_def
      i64_min_def i64_max_def line_ok_def sample_line_def)

subsection \<open>The journal as a hash chain\<close>

lemma canonical_bytes_hashes [simp]:
  "canonical_bytes (e\<lparr>je_content_hash := c\<rparr>) = canonical_bytes e"
  "canonical_bytes (e\<lparr>je_prev_hash := c\<rparr>) = canonical_bytes e"
  "canonical_bytes (e\<lparr>je_chain_hash := c\<rparr>) = canonical_bytes e"
  by (simp_all add: canonical_bytes_def)

lemma finalize_verify:
  assumes "je_content_hash e = ZERO_HASH \<or> je_content_hash e = b3 (canonical_bytes e)"
  shows "verify_hashes b3 (finalize_chain_hash b3 prev e)"
  using assms by (auto simp: finalize_chain_hash_def verify_hashes_def Let_def)

lemma finalize_fields [simp]:
  "je_prev_hash (finalize_chain_hash b3 prev e) = prev"
  "je_sequence (finalize_chain_hash b3 prev e) = je_sequence e"
  "je_lines (finalize_chain_hash b3 prev e) = je_lines e"
  "je_status (finalize_chain_hash b3 prev e) = je_status e"
  "je_id (finalize_chain_hash b3 prev e) = je_id e"
  "je_idempotency_key (finalize_chain_hash b3 prev e) = je_idempotency_key e"
  "je_approved_by (finalize_chain_hash b3 prev e) = je_approved_by e"
  "je_posted_at (finalize_chain_hash b3 prev e) = je_posted_at e"
  by (simp_all add: finalize_chain_hash_def Let_def)

definition entry_link :: "journal_entry \<Rightarrow> bytes" where
  "entry_link e = link_msg (je_sequence e) (je_prev_hash e) (je_content_hash e)"

definition entry_msgs :: "journal_entry \<Rightarrow> bytes set" where
  "entry_msgs e = {canonical_bytes e, entry_link e}"

lemma link_msg_inject [simp]: "link_msg a p c = link_msg b q d \<longleftrightarrow> a = b \<and> p = q \<and> c = d"
  by (auto simp: link_msg_def)

interpretation journal: hash_chain b3 "\<lambda>e. entry_ok e \<and> verify_hashes b3 e" je_prev_hash je_chain_hash
  entry_msgs "(=)" for b3
proof (unfold_locales, goal_cases)
  case (1 e f)
  then have v: "b3 (canonical_bytes e) = je_content_hash e" "b3 (entry_link e) = je_chain_hash e"
    "b3 (canonical_bytes f) = je_content_hash f" "b3 (entry_link f) = je_chain_hash f"
    by (auto simp: verify_hashes_def entry_link_def split: if_splits)
  have "entry_link e = entry_link f"
    by (rule inj_onD [OF 1(4)]) (use v 1(3) in \<open>auto simp: entry_msgs_def\<close>)
  then have l: "je_prev_hash e = je_prev_hash f" "je_content_hash e = je_content_hash f"
    by (simp_all add: entry_link_def)
  have "canonical_bytes e = canonical_bytes f"
    by (rule inj_onD [OF 1(4)]) (use v l in \<open>auto simp: entry_msgs_def\<close>)
  then have "no_hashes e = no_hashes f" using 1 canonical_bytes_inject by blast
  with l 1(3) show ?case by (cases e; cases f) (simp add: no_hashes_def)
next
  case (2 e)
  then have "je_chain_hash e = b3 (entry_link e)" by (auto simp: verify_hashes_def entry_link_def split: if_splits)
  then show ?case by (simp add: entry_msgs_def)
qed

end
