(* ===== verification/Entry_Db.thy ===== *)
theory Entry_Db
  imports Journal_Entry
begin

text \<open>
  \<^verbatim>\<open>crates/vledger-ledger/src/entry_db.rs\<close>: the SQLite query index.

  A table is the list of its rows and a statement is what its SQL says: \<^verbatim>\<open>ORDER BY sequence\<close>
  sorts by the 64-bit signed key, \<^verbatim>\<open>INSERT OR IGNORE\<close> skips a row that violates the primary
  key, the \<^verbatim>\<open>UNIQUE\<close> or the \<^verbatim>\<open>CHECK\<close> constraint.  The \<^verbatim>\<open>data\<close> column holds the bincode of the
  entry and is represented by the entry.  Schema migrations, the full-text index and SQLite's
  own I/O errors and transactions are not represented.
\<close>

record entry_db =
  db_entries :: "journal_entry list"
  db_account_entries :: "(account_id \<times> int) list"
  db_accounts :: "(account_id \<times> account) list"

definition entry_db_empty :: entry_db where
  "entry_db_empty = \<lparr> db_entries = [], db_account_entries = [], db_accounts = [] \<rparr>"

text \<open>\<^verbatim>\<open>entry.sequence as i64\<close>.\<close>

definition db_key :: "journal_entry \<Rightarrow> int" where
  "db_key e = sint (je_sequence e)"

definition db_insert :: "journal_entry \<Rightarrow> entry_db \<Rightarrow> entry_db" where
  "db_insert e db =
     (if 0 < db_key e \<and> db_key e \<notin> db_key ` set (db_entries db) \<and>
         (je_idempotency_key e = None \<or> je_idempotency_key e \<notin> je_idempotency_key ` set (db_entries db))
      then db\<lparr>db_entries := db_entries db @ [e]\<rparr> else db)"

text \<open>\<^verbatim>\<open>SELECT data FROM entries ORDER BY sequence\<close>.\<close>

definition db_stream :: "entry_db \<Rightarrow> journal_entry list" where
  "db_stream db = sort_key db_key (db_entries db)"

text \<open>\<^verbatim>\<open>stream_all\<close> with a callback on a state; it stops at the first error.\<close>

fun stream_fold :: "('s \<Rightarrow> journal_entry \<Rightarrow> 's \<times> (ledger_error + unit)) \<Rightarrow> 's \<Rightarrow> journal_entry list \<Rightarrow>
    's \<times> (ledger_error + unit)" where
  "stream_fold f s [] = (s, Inr ())"
| "stream_fold f s (e # es) = and_then (f s e) (\<lambda>s1 _. stream_fold f s1 es)"

definition stream_all :: "('s \<Rightarrow> journal_entry \<Rightarrow> 's \<times> (ledger_error + unit)) \<Rightarrow> 's \<Rightarrow> entry_db \<Rightarrow>
    's \<times> (ledger_error + unit)" where
  "stream_all f s db = stream_fold f s (db_stream db)"

definition get_by_sequence :: "entry_db \<Rightarrow> u64 \<Rightarrow> journal_entry option" where
  "get_by_sequence db sq = find (\<lambda>e. db_key e = sint sq) (db_entries db)"

definition get_by_uuid :: "entry_db \<Rightarrow> uuid \<Rightarrow> journal_entry option" where
  "get_by_uuid db entry_id = find (\<lambda>e. je_id e = entry_id) (db_stream db)"

definition get_by_external_ref :: "entry_db \<Rightarrow> string \<Rightarrow> journal_entry option" where
  "get_by_external_ref db r = find (\<lambda>e. je_external_ref e = Some r) (db_stream db)"

definition idempotency_key_exists :: "entry_db \<Rightarrow> string \<Rightarrow> bool" where
  "idempotency_key_exists db key \<longleftrightarrow> length (filter (\<lambda>e. je_idempotency_key e = Some key) (db_entries db)) > 0"

definition sequence_for_idempotency_key :: "entry_db \<Rightarrow> string \<Rightarrow> u64 option" where
  "sequence_for_idempotency_key db key =
     map_option (\<lambda>e. word_of_int (db_key e)) (find (\<lambda>e. je_idempotency_key e = Some key) (db_entries db))"

definition db_count :: "entry_db \<Rightarrow> nat" where
  "db_count db = length (db_entries db)"

definition max_sequence :: "entry_db \<Rightarrow> u64" where
  "max_sequence db = (case db_entries db of [] \<Rightarrow> 0
     | e # es \<Rightarrow> word_of_int (foldl max (db_key e) (map db_key es)))"

definition db_chain_tip :: "entry_db \<Rightarrow> hash option" where
  "db_chain_tip db = (case rev (db_stream db) of [] \<Rightarrow> None | e # _ \<Rightarrow> Some (je_chain_hash e))"

subsection \<open>Scans\<close>

fun status_name :: "entry_status \<Rightarrow> string" where
  "status_name Posted = ''Posted''"
| "status_name Reversed = ''Reversed''"
| "status_name Reversal = ''Reversal''"
| "status_name PendingApproval = ''PendingApproval''"
| "status_name Rejected = ''Rejected''"
| "status_name Pending = ''Pending''"
| "status_name Settled = ''Settled''"
| "status_name Failed = ''Failed''"

text \<open>\<^verbatim>\<open>LIMIT ?\<close>: a negative limit is no limit.\<close>

definition sql_limit :: "nat \<Rightarrow> 'a list \<Rightarrow> 'a list" where
  "sql_limit n xs = (if as_i64 n < 0 then xs else take n xs)"

definition scan :: "entry_db \<Rightarrow> string option \<Rightarrow> string option \<Rightarrow> nat \<Rightarrow> u64 \<Rightarrow> journal_entry list" where
  "scan db domain status limit offset_seq =
     sql_limit limit (filter (\<lambda>e.
       (case domain of None \<Rightarrow> True | Some d \<Rightarrow> je_domain e = d) \<and>
       (case status of None \<Rightarrow> True | Some s \<Rightarrow> status_name (je_status e) = s) \<and>
       db_key e > sint offset_seq) (db_stream db))"

definition scan_by_domain :: "entry_db \<Rightarrow> string \<Rightarrow> nat \<Rightarrow> u64 \<Rightarrow> journal_entry list" where
  "scan_by_domain db domain limit offset_seq = scan db (Some domain) None limit offset_seq"

definition scan_by_status :: "entry_db \<Rightarrow> string \<Rightarrow> nat \<Rightarrow> u64 \<Rightarrow> journal_entry list" where
  "scan_by_status db status limit offset_seq = scan db None (Some status) limit offset_seq"

definition scan_by_external_ref :: "entry_db \<Rightarrow> string \<Rightarrow> nat \<Rightarrow> journal_entry list" where
  "scan_by_external_ref db r limit =
     sql_limit limit (filter (\<lambda>e. je_external_ref e = Some r) (db_stream db))"

definition scan_range :: "entry_db \<Rightarrow> u64 \<Rightarrow> u64 \<Rightarrow> journal_entry list" where
  "scan_range db from_seq to_seq =
     filter (\<lambda>e. sint from_seq \<le> db_key e \<and> db_key e \<le> sint to_seq) (db_stream db)"

subsection \<open>Cross references and accounts\<close>

definition insert_account_entry :: "account_id \<Rightarrow> u64 \<Rightarrow> entry_db \<Rightarrow> entry_db" where
  "insert_account_entry a sq db =
     (if (a, sint sq) \<in> set (db_account_entries db) then db
      else db\<lparr>db_account_entries := db_account_entries db @ [(a, sint sq)]\<rparr>)"

definition entries_for_account :: "entry_db \<Rightarrow> account_id \<Rightarrow> journal_entry list" where
  "entries_for_account db a = filter (\<lambda>e. (a, db_key e) \<in> set (db_account_entries db)) (db_stream db)"

definition insert_lines :: "journal_entry \<Rightarrow> entry_db \<Rightarrow> entry_db" where
  "insert_lines e db = foldl (\<lambda>d l. insert_account_entry (jl_account_id l) (je_sequence e) d) db (je_lines e)"

fun bulk_insert :: "journal_entry list \<Rightarrow> nat \<Rightarrow> entry_db \<Rightarrow> entry_db \<times> nat" where
  "bulk_insert [] n db = (db, n)"
| "bulk_insert (e # es) n db =
     (let db1 = db_insert e db
      in bulk_insert es (n + (if db_entries db1 = db_entries db then 0 else 1)) db1)"

definition bulk_insert_migration :: "journal_entry list \<Rightarrow> entry_db \<Rightarrow> entry_db \<times> nat" where
  "bulk_insert_migration es db = (if es = [] then (db, 0) else bulk_insert es 0 db)"

definition rebuild_account_entries_fast :: "entry_db \<Rightarrow> entry_db \<times> nat" where
  "rebuild_account_entries_fast db =
     (foldl (\<lambda>d e. insert_lines e d) (db\<lparr>db_account_entries := []\<rparr>) (db_stream db),
      sum_list (map (\<lambda>e. length (je_lines e)) (db_stream db)))"

definition upsert_account :: "account \<Rightarrow> entry_db \<Rightarrow> entry_db" where
  "upsert_account a db = db\<lparr>db_accounts := AList.update (acc_id a) a (db_accounts db)\<rparr>"

definition load_all_accounts :: "entry_db \<Rightarrow> account list" where
  "load_all_accounts db = map snd (db_accounts db)"

definition account_count :: "entry_db \<Rightarrow> nat" where
  "account_count db = length (db_accounts db)"

subsection \<open>Balances from the index\<close>

text \<open>\<^verbatim>\<open>matches!(entry.status, Posted | Reversal)\<close>.\<close>

definition affects_balance :: "entry_status \<Rightarrow> bool" where
  "affects_balance s \<longleftrightarrow> s = Posted \<or> s = Reversal"

fun normal_delta :: "bool \<Rightarrow> dr_cr \<Rightarrow> int \<Rightarrow> int" where
  "normal_delta True Debit a = a"
| "normal_delta True Credit a = - a"
| "normal_delta False Credit a = a"
| "normal_delta False Debit a = - a"

text \<open>The lines of one entry; an unknown account ends the entry.\<close>

fun rebuild_lines :: "(account_id \<times> account) list \<Rightarrow> journal_line list \<Rightarrow> (account_id \<times> int) list \<Rightarrow>
    (account_id \<times> int) list" where
  "rebuild_lines accts [] cache = cache"
| "rebuild_lines accts (l # ls) cache = (case map_of accts (jl_account_id l) of
       None \<Rightarrow> cache
     | Some a \<Rightarrow> rebuild_lines accts ls
         (add_at (jl_account_id l)
           (normal_delta (debit_normal (acc_type a)) (jl_dr_cr l) (amount_as_i128 (jl_amount l))) cache))"

definition rebuild_entry :: "(account_id \<times> account) list \<Rightarrow> (account_id \<times> int) list \<Rightarrow> journal_entry \<Rightarrow>
    (account_id \<times> int) list" where
  "rebuild_entry accts cache e =
     (if affects_balance (je_status e) then rebuild_lines accts (je_lines e) cache else cache)"

definition rebuild_balance_cache :: "(account_id \<times> account) list \<Rightarrow> (account_id \<times> int) list \<Rightarrow> entry_db \<Rightarrow>
    (account_id \<times> int) list" where
  "rebuild_balance_cache accts cache db = foldl (rebuild_entry accts) cache (db_stream db)"

subsection \<open>The index as a set of rows\<close>

text \<open>Distinct keys, positive keys, distinct idempotency keys.\<close>

definition db_inv :: "entry_db \<Rightarrow> bool" where
  "db_inv db \<longleftrightarrow> distinct (map db_key (db_entries db)) \<and> (\<forall>e \<in> set (db_entries db). 0 < db_key e) \<and>
     distinct (filter (\<lambda>k. k \<noteq> None) (map je_idempotency_key (db_entries db)))"

lemma db_inv_empty [simp]: "db_inv entry_db_empty"
  by (simp add: db_inv_def entry_db_empty_def)

lemma db_inv_insert: "db_inv db \<Longrightarrow> db_inv (db_insert e db)"
  by (auto simp: db_inv_def db_insert_def image_iff)

lemma db_key_inject [simp]: "db_key e = db_key f \<longleftrightarrow> je_sequence e = je_sequence f"
  unfolding db_key_def using signed_word_eqI by metis

lemma db_insert_keep: "set (db_entries db) \<subseteq> set (db_entries (db_insert e db))"
  by (auto simp: db_insert_def)

lemma db_insert_same [simp]:
  "db_account_entries (db_insert e db) = db_account_entries db" "db_accounts (db_insert e db) = db_accounts db"
  by (simp_all add: db_insert_def)

lemma insert_lines_entries [simp]:
  "db_entries (insert_lines e db) = db_entries db" "db_accounts (insert_lines e db) = db_accounts db"
proof -
  have "db_entries (foldl (\<lambda>d l. insert_account_entry (jl_account_id l) q d) db ls) = db_entries db \<and>
      db_accounts (foldl (\<lambda>d l. insert_account_entry (jl_account_id l) q d) db ls) = db_accounts db" for ls :: "journal_line list" and q
    by (induction ls arbitrary: db) (simp_all add: insert_account_entry_def)
  then show "db_entries (insert_lines e db) = db_entries db" "db_accounts (insert_lines e db) = db_accounts db"
    by (simp_all add: insert_lines_def)
qed

lemma set_insert_lines:
  "set (db_account_entries (insert_lines e db)) =
     set (db_account_entries db) \<union> {(jl_account_id l, db_key e) |l. l \<in> set (je_lines e)}"
proof -
  have "set (db_account_entries (foldl (\<lambda>d l. insert_account_entry (jl_account_id l) q d) db ls)) =
      set (db_account_entries db) \<union> {(jl_account_id l, sint q) |l. l \<in> set ls}" for ls :: "journal_line list" and q
    by (induction ls arbitrary: db) (auto simp: insert_account_entry_def)
  then show ?thesis by (simp add: insert_lines_def db_key_def)
qed

text \<open>Rows inserted in ascending order are streamed in the order of insertion.\<close>

lemma db_stream_sorted: "sorted (map db_key (db_entries db)) \<Longrightarrow> db_stream db = db_entries db"
  by (simp add: db_stream_def sort_key_id_if_sorted)

lemma stream_fold_append:
  "stream_fold f s (xs @ ys) = and_then (stream_fold f s xs) (\<lambda>s1 _. stream_fold f s1 ys)"
proof (induction xs arbitrary: s)
  case (Cons x xs)
  obtain s1 r where "f s x = (s1, r)" by force
  with Cons show ?case by (cases r) simp_all
qed simp

end
