(* ===== verification/Transaction_Props.thy ===== *)
theory Transaction_Props
  imports Transaction
begin

text \<open>
  The transaction manager as a transactional store: the reachable states with the
  history of committed transactions, and the refinement of that history by what recovery
  reads from the log after a crash.
\<close>

subsection \<open>Committing as one batch\<close>

definition commit_batch :: "ext \<Rightarrow> bytes option \<Rightarrow> transaction \<Rightarrow> u64 \<Rightarrow> append_req list" where
  "commit_batch X sk t tx_id =
     data_reqs X t tx_id @ [(tx_id, Commit, enc_commit X (commit_payload_of X sk t))]"

definition key_committed :: "transaction_manager \<Rightarrow> transaction \<Rightarrow> bool" where
  "key_committed tm t \<longleftrightarrow>
     (case t_idempotency_key t of None \<Rightarrow> False | Some k \<Rightarrow> k \<in> tm_committed_idempotency_keys tm)"

lemma tm_commit_batch:
  assumes "map_of (tm_active tm) tx_id = Some t" "\<not> key_committed tm t"
    and "app_all (append_req X) (tm_wal tm) (commit_batch X (tm_signing_key tm) t tx_id) = (w', res)"
  shows "tm_commit X tm tx_id = (case res of
       Inl e \<Rightarrow> (tm\<lparr>tm_wal := w'\<rparr>, Inl (TxWal e))
     | Inr _ \<Rightarrow> finish_commit (tm\<lparr>tm_wal := w'\<rparr>) tx_id (t_idempotency_key t))"
proof -
  obtain w1 r1 where 1: "app_all (append_req X) (tm_wal tm) (data_reqs X t tx_id) = (w1, r1)" by force
  obtain w2 r2 where 2: "wal_append X w1 tx_id Commit
      (enc_commit X (commit_payload_of X (tm_signing_key tm) t)) = (w2, r2)" by force
  from assms 1 2 show ?thesis
    by (cases r1; cases r2)
      (auto simp: tm_commit_def key_committed_def commit_batch_def app_all_append append_req_def
        lift_wal_def)
qed

lemma open_payloads_append:
  "open_payloads tx (h @ map (\<lambda>m. (t, Data, f m)) ms) =
     open_payloads tx h @ (if t = tx then map f ms else [])"
proof (induction ms rule: rev_induct)
  case (snoc m ms)
  have "open_payloads tx ((h @ map (\<lambda>m. (t, Data, f m)) ms) @ [(t, Data, f m)]) =
      (if t = tx then open_payloads tx (h @ map (\<lambda>m. (t, Data, f m)) ms) @ [f m]
       else open_payloads tx (h @ map (\<lambda>m. (t, Data, f m)) ms))"
    by (simp only: open_payloads_simps) simp
  with snoc show ?case by (cases "t = tx") simp_all
qed simp

lemma committed_spec_data:
  "committed_spec (h @ map (\<lambda>m. (t, Data, f m)) ms) = committed_spec h"
proof (induction ms rule: rev_induct)
  case (snoc m ms)
  then show ?case
    using committed_spec_snoc [of "h @ map (\<lambda>m. (t, Data, f m)) ms" "(t, Data, f m)"] by simp
qed simp

text \<open>The log after a commit: one more committed transaction, with the payloads that were
  still open for its id in front of its own.\<close>

lemma commit_batch_spec:
  "committed_spec (h @ commit_batch X sk t tx) = committed_spec h @
     [(tx, open_payloads tx h @ map (\<lambda>m. enc_data X (mutation_payload m)) (t_mutations t))]"
  using committed_spec_snoc [of "h @ data_reqs X t tx" "(tx, Commit, enc_commit X (commit_payload_of X sk t))"]
  by (simp add: commit_batch_def data_reqs_def open_payloads_append committed_spec_data)

lemma commit_batch_open:
  "open_payloads tx' (h @ commit_batch X sk t tx) = (if tx' = tx then [] else open_payloads tx' h)"
proof -
  have "open_payloads tx' ((h @ data_reqs X t tx) @ [(tx, Commit, pl)]) =
      (if tx' = tx then [] else open_payloads tx' h)" for pl
    by (simp only: open_payloads_simps) (simp add: data_reqs_def open_payloads_append)
  then show ?thesis by (simp add: commit_batch_def)
qed

subsection \<open>Reachable states\<close>

text \<open>
  \<open>tm_reach X mode sk tm h\<close>: the manager \<open>tm\<close> was opened on an empty directory and then
  executed operations that succeeded; \<open>h\<close> lists the transactions it has committed.  Records
  fit the size that the reader accepts.
\<close>

inductive tm_reach ::
  "ext \<Rightarrow> wal_sync_mode \<Rightarrow> bytes option \<Rightarrow> transaction_manager \<Rightarrow> (u64 \<times> data_payload list) list \<Rightarrow> bool"
  for X :: ext and mode :: wal_sync_mode and sk :: "bytes option" where
  reach_open: "os_files d = [] \<Longrightarrow> tm_open X d sk mode = (d', Inr tm) \<Longrightarrow> tm_reach X mode sk tm []"
| reach_begin: "tm_reach X mode sk tm h \<Longrightarrow> payload_fits None (enc_begin X descr) \<Longrightarrow>
    tm_begin X tm now descr = (tm', Inr tx_id) \<Longrightarrow> tm_reach X mode sk tm' h"
| reach_add: "tm_reach X mode sk tm h \<Longrightarrow>
    tm_add_mutation X tm tx_id table_id page_id slot_id kind row_data prev = (tm', Inr ()) \<Longrightarrow>
    tm_reach X mode sk tm' h"
| reach_key: "tm_reach X mode sk tm h \<Longrightarrow> tm_set_idempotency_key tm tx_id key = (tm', Inr ()) \<Longrightarrow>
    tm_reach X mode sk tm' h"
| reach_commit: "tm_reach X mode sk tm h \<Longrightarrow> map_of (tm_active tm) tx_id = Some t \<Longrightarrow>
    \<not> key_committed tm t \<Longrightarrow>
    \<forall>a \<in> set (commit_batch X sk t tx_id). payload_fits None (snd (snd a)) \<Longrightarrow>
    tm_commit X tm tx_id = (tm', Inr ()) \<Longrightarrow>
    tm_reach X mode sk tm' (h @ [(tx_id, map mutation_payload (t_mutations t))])"
| reach_commit_duplicate: "tm_reach X mode sk tm h \<Longrightarrow> map_of (tm_active tm) tx_id = Some t \<Longrightarrow>
    key_committed tm t \<Longrightarrow> tm_commit X tm tx_id = (tm', Inr ()) \<Longrightarrow> tm_reach X mode sk tm' h"
| reach_rollback: "tm_reach X mode sk tm h \<Longrightarrow> tm_rollback X tm tx_id = (tm', Inr ()) \<Longrightarrow>
    tm_reach X mode sk tm' h"
| reach_checkpoint: "tm_reach X mode sk tm h \<Longrightarrow> tm_checkpoint tm = (tm', Inr n) \<Longrightarrow>
    tm_reach X mode sk tm' h"
| reach_checkpoint_signed: "tm_reach X mode sk tm h \<Longrightarrow> checkpoint_signed X tm root = (tm', Inr n) \<Longrightarrow>
    payload_fits None (enc_checkpoint X (new_checkpoint X (ww_sequence (tm_wal tm)) root sk)) \<Longrightarrow>
    tm_reach X mode sk tm' h"

text \<open>The invariant: the log holds the history and no open data.\<close>

definition tm_inv ::
  "ext \<Rightarrow> wal_sync_mode \<Rightarrow> transaction_manager \<Rightarrow> (u64 \<times> data_payload list) list \<Rightarrow> wal_record list \<Rightarrow> nat \<Rightarrow> bool" where
  "tm_inv X mode tm h rs m \<longleftrightarrow> wal_inv X (tm_wal tm) rs m \<and>
     ww_encryption_key (tm_wal tm) = None \<and> ww_sync_mode (tm_wal tm) = mode \<and>
     (mode = PerRecord \<longrightarrow> m = length rs) \<and> (\<forall>r \<in> set rs. valid_type r) \<and>
     committed_spec (map rec_req rs) = map (\<lambda>(tx, ds). (tx, map (enc_data X) ds)) h \<and>
     (\<forall>tx. open_payloads tx (map rec_req rs) = [])"

lemma tm_inv_cong:
  "tm_inv X mode tm h rs m \<Longrightarrow> tm_wal tm' = tm_wal tm \<Longrightarrow> tm_inv X mode tm' h rs m"
  by (simp add: tm_inv_def)

lemma made_from_rec_req: "made_from a r \<Longrightarrow> valid_type r \<and> rec_req r = a"
  by (cases a) (auto simp: made_from_def dest: req_of_valid)

lemma made_from_rec_reqs:
  "list_all2 made_from as ts \<Longrightarrow> (\<forall>r \<in> set ts. valid_type r) \<and> map rec_req ts = as"
  by (induction rule: list_all2_induct) (auto dest: made_from_rec_req)

text \<open>Successful appends of a batch of requests.\<close>

lemma append_batch:
  assumes X: "ext_ok X" and inv: "tm_inv X mode tm h rs m"
    and fits: "\<forall>a \<in> set as. payload_fits None (snd (snd a))"
    and app: "app_all (append_req X) (tm_wal tm) as = (w', Inr ts)"
  shows "\<exists>m'. wal_inv X w' (rs @ ts) m' \<and> (mode = PerRecord \<longrightarrow> m' = length (rs @ ts)) \<and>
     ww_encryption_key w' = None \<and> ww_sync_mode w' = mode \<and>
     (\<forall>r \<in> set (rs @ ts). valid_type r) \<and> map rec_req (rs @ ts) = map rec_req rs @ as"
proof -
  from inv have w: "wal_inv X (tm_wal tm) rs m" "ww_encryption_key (tm_wal tm) = None"
    "ww_sync_mode (tm_wal tm) = mode" "mode = PerRecord \<longrightarrow> m = length rs" "\<forall>r \<in> set rs. valid_type r"
    by (simp_all add: tm_inv_def)
  have ok: "list_all2 made_from as ts" "wal_inv X w' (rs @ ts) m"
    "mode = PerRecord \<and> as \<noteq> [] \<longrightarrow> wal_inv X w' (rs @ ts) (length (rs @ ts))"
    "(ww_sync_mode w' = PerRecord) = (mode = PerRecord)"
    using wal.app_all_ok [of X "tm_wal tm" rs m as w' ts] X w fits app by auto
  have key: "ww_encryption_key w' = None"
    using append_all_config [OF app X w(1)] fits w(2) by simp
  have sm: "ww_sync_mode w' = mode"
    using append_all_config [OF app X w(1)] fits w(2,3) by simp
  have "\<exists>m'. wal_inv X w' (rs @ ts) m' \<and> (mode = PerRecord \<longrightarrow> m' = length (rs @ ts))"
  proof (cases "mode = PerRecord")
    case True
    then have "wal_inv X w' (rs @ ts) (length (rs @ ts))"
      using ok w(4) by (cases "as = []") auto
    then show ?thesis by blast
  qed (use ok(2) in auto)
  with made_from_rec_reqs [OF ok(1)] key sm w(5) show ?thesis by auto
qed

lemma app_all_single:
  "wal_append X w tx rt pl = (w', Inr r) \<Longrightarrow> app_all (append_req X) w [(tx, rt, pl)] = (w', Inr [r])"
  by (simp add: append_req_def)

text \<open>A record that is neither data nor the end of a transaction.\<close>

lemma tm_inv_marker:
  assumes X: "ext_ok X" and inv: "tm_inv X mode tm h rs m" and fits: "payload_fits None pl"
    and rt: "rt \<notin> {Data, Commit}" and app: "wal_append X (tm_wal tm) tx rt pl = (w', Inr r)"
    and tm': "tm_wal tm' = w'"
  shows "\<exists>rs m. tm_inv X mode tm' h rs m"
proof -
  from append_batch [OF X inv _ app_all_single [OF app]] fits obtain m' where
    b: "wal_inv X w' (rs @ [r]) m'" "mode = PerRecord \<longrightarrow> m' = length (rs @ [r])"
    "ww_encryption_key w' = None" "ww_sync_mode w' = mode" "\<forall>q \<in> set (rs @ [r]). valid_type q"
    "map rec_req (rs @ [r]) = map rec_req rs @ [(tx, rt, pl)]" by auto
  have "committed_spec (map rec_req (rs @ [r])) = committed_spec (map rec_req rs)"
    using rt by (simp only: b(6) committed_spec_snoc) simp
  moreover have "open_payloads t (map rec_req (rs @ [r])) = []" for t
    using rt inv by (simp only: b(6) open_payloads_simps) (auto simp: tm_inv_def)
  ultimately have "tm_inv X mode tm' h (rs @ [r]) m'"
    using b inv tm' by (simp add: tm_inv_def)
  then show ?thesis by blast
qed

lemma wal_sync_inv:
  assumes inv: "wal_inv X w rs m" and s: "wal_sync w = (w', Inr ())"
  shows "(wal_inv X w' rs m \<or> wal_inv X w' rs (length rs)) \<and>
     ww_encryption_key w' = ww_encryption_key w \<and> ww_sync_mode w' = ww_sync_mode w"
proof (cases "ww_dirty w = None \<or> ww_dirty w = Some True")
  case True
  with s obtain w1 where w1: "sync_active w = (w1, Inr ())"
    and w': "w' = w1 \<or> w' = w1\<lparr>ww_dirty := Some False\<rparr>"
    by (auto simp: wal_sync_def and_then_Inr_iff)
  from sync_active_ok [OF w1] wal_inv_sync(1) [OF inv w1] w' show ?thesis
    by (auto intro: wal_inv_cong)
next
  case False
  with s inv show ?thesis by (auto simp: wal_sync_def split: option.splits)
qed

lemma tm_inv_sync:
  assumes "tm_inv X mode tm h rs m" "wal_sync (tm_wal tm) = (w', Inr ())" "tm_wal tm' = w'"
  shows "\<exists>rs m. tm_inv X mode tm' h rs m"
proof -
  from wal_sync_inv [OF _ assms(2)] assms(1) have
    "wal_inv X w' rs m \<or> wal_inv X w' rs (length rs)"
    "ww_encryption_key w' = None" "ww_sync_mode w' = mode"
    by (auto simp: tm_inv_def)
  with assms show ?thesis by (auto simp: tm_inv_def)
qed

lemma finish_commit_fields:
  "tm_wal (fst (finish_commit tm tx k)) = tm_wal tm"
  "tm_signing_key (fst (finish_commit tm tx k)) = tm_signing_key tm"
  by (auto simp: finish_commit_def Let_def split: option.splits sum.splits)

lemma tm_inv_commit:
  assumes X: "ext_ok X" and inv: "tm_inv X mode tm h rs m"
    and fits: "\<forall>a \<in> set (commit_batch X sk t tx). payload_fits None (snd (snd a))"
    and app: "app_all (append_req X) (tm_wal tm) (commit_batch X sk t tx) = (w', Inr ts)"
    and tm': "tm_wal tm' = w'"
  shows "\<exists>rs m. tm_inv X mode tm' (h @ [(tx, map mutation_payload (t_mutations t))]) rs m"
proof -
  from append_batch [OF X inv fits app] obtain m' where
    b: "wal_inv X w' (rs @ ts) m'" "mode = PerRecord \<longrightarrow> m' = length (rs @ ts)"
    "ww_encryption_key w' = None" "ww_sync_mode w' = mode" "\<forall>q \<in> set (rs @ ts). valid_type q"
    "map rec_req (rs @ ts) = map rec_req rs @ commit_batch X sk t tx" by auto
  have "tm_inv X mode tm' (h @ [(tx, map mutation_payload (t_mutations t))]) (rs @ ts) m'"
    using b(1-5) inv tm'
    by (simp add: tm_inv_def b(6) [simplified] commit_batch_spec commit_batch_open comp_def)
  then show ?thesis by blast
qed

lemma tm_open_empty:
  assumes "os_files d = []" "tm_open X d sk mode = (d', Inr tm)"
  shows "tm_inv X mode tm [] [] 0" "tm_signing_key tm = sk"
proof -
  from assms(2) obtain d1 w where "open_with_options X d DEFAULT_SEGMENT_SIZE mode None = (d1, Inr w)"
    and tm: "tm_wal tm = w" "tm_signing_key tm = sk"
    by (auto simp: tm_open_def split: prod.splits sum.splits)
  from open_empty_inv [OF assms(1) this(1)] tm show "tm_inv X mode tm [] [] 0" "tm_signing_key tm = sk"
    by (simp_all add: tm_inv_def)
qed

lemma on_active_fields [simp]:
  "tm_wal (fst (on_active tm tx f)) = tm_wal tm"
  "tm_signing_key (fst (on_active tm tx f)) = tm_signing_key tm"
  by (simp_all add: on_active_def Let_def split: option.splits prod.splits)

lemma lift_wal_Inr_iff:
  "lift_wal tm p = (tm', Inr a) \<longleftrightarrow> (\<exists>w'. p = (w', Inr a) \<and> tm' = tm\<lparr>tm_wal := w'\<rparr>)"
  by (cases p) (auto simp: lift_wal_def)

lemma fst_eq: "p = (a, b) \<Longrightarrow> a = fst p"
  by simp

lemma tm_reach_inv:
  assumes X: "ext_ok X" and "tm_reach X mode sk tm h"
  shows "tm_signing_key tm = sk \<and> (\<exists>rs m. tm_inv X mode tm h rs m)"
  using assms(2)
proof (induction rule: tm_reach.induct)
  case (reach_open d d' tm)
  then show ?case using tm_open_empty by blast
next
  case (reach_begin tm h descr now tm' tx_id)
  then obtain w' r where w': "wal_append X (tm_wal tm) (tm_next_tx_id tm) Begin (enc_begin X descr) = (w', Inr r)"
    and tm': "tm_wal tm' = w'" "tm_signing_key tm' = tm_signing_key tm"
    by (auto simp: tm_begin_def Let_def and_then_Inr_iff lift_wal_Inr_iff)
  from reach_begin.IH tm_inv_marker [OF X _ reach_begin.hyps(2) _ w' tm'(1)] tm'(2) show ?case by auto
next
  case (reach_add tm h tx_id table_id page_id slot_id kind row_data prev tm')
  then have "tm' = fst (on_active tm tx_id (\<lambda>t. tx_add_mutation t
      (new_mutation X table_id page_id slot_id kind row_data prev)))"
    by (simp add: tm_add_mutation_def)
  then have "tm_wal tm' = tm_wal tm" "tm_signing_key tm' = tm_signing_key tm" by simp_all
  with reach_add.IH show ?case by (simp add: tm_inv_def)
next
  case (reach_key tm h tx_id key tm')
  then have "tm' = fst (on_active tm tx_id (\<lambda>t. tx_set_idempotency_key t key))"
    by (auto simp: tm_set_idempotency_key_def split: if_splits)
  then have "tm_wal tm' = tm_wal tm" "tm_signing_key tm' = tm_signing_key tm" by simp_all
  with reach_key.IH show ?case by (simp add: tm_inv_def)
next
  case (reach_commit tm h tx_id t tm')
  obtain w' res where app: "app_all (append_req X) (tm_wal tm) (commit_batch X sk t tx_id) = (w', res)"
    by force
  from tm_commit_batch [OF reach_commit.hyps(2,3)] app reach_commit obtain ts where res: "res = Inr ts"
    and tm': "tm' = fst (finish_commit (tm\<lparr>tm_wal := w'\<rparr>) tx_id (t_idempotency_key t))"
    by (cases res) (auto dest: fst_eq)
  from reach_commit.IH obtain rs m where inv: "tm_inv X mode tm h rs m" by blast
  have "tm_wal tm' = w'" "tm_signing_key tm' = sk"
    using reach_commit.IH by (simp_all add: tm' finish_commit_fields)
  with tm_inv_commit [OF X inv reach_commit.hyps(4), of w' ts tm'] app res show ?case by simp
next
  case (reach_commit_duplicate tm h tx_id t tm')
  then have "tm' = tm\<lparr>tm_active := AList.delete tx_id (tm_active tm)\<rparr>"
    by (auto simp: tm_commit_def key_committed_def split: option.splits)
  then have "tm_wal tm' = tm_wal tm" "tm_signing_key tm' = tm_signing_key tm" by simp_all
  with reach_commit_duplicate.IH show ?case by (simp add: tm_inv_def)
next
  case (reach_rollback tm h tx_id tm')
  then obtain w' r where w': "wal_append X (tm_wal tm) tx_id Rollback [] = (w', Inr r)"
    and tm': "tm_wal tm' = w'" "tm_signing_key tm' = tm_signing_key tm"
    by (auto simp: tm_rollback_def and_then_Inr_iff lift_wal_Inr_iff dest!: fst_eq [of "on_active _ _ _"])
  have "payload_fits None []" by (simp add: payload_fits_def)
  from reach_rollback.IH tm_inv_marker [OF X _ this _ w' tm'(1)] tm'(2) show ?case by auto
next
  case (reach_checkpoint tm h tm' n)
  then obtain w' where w': "wal_sync (tm_wal tm) = (w', Inr ())" "tm_wal tm' = w'"
    "tm_signing_key tm' = tm_signing_key tm"
    by (auto simp: tm_checkpoint_def wal_checkpoint_def lift_wal_Inr_iff and_then_Inr_iff)
  from reach_checkpoint.IH tm_inv_sync [OF _ w'(1,2)] w'(3) show ?case by auto
next
  case (reach_checkpoint_signed tm h root tm' n)
  let ?pl = "enc_checkpoint X (new_checkpoint X (ww_sequence (tm_wal tm)) root sk)"
  from reach_checkpoint_signed obtain w1 w' r where w1: "wal_sync (tm_wal tm) = (w1, Inr ())"
    and w': "wal_append X w1 0 Checkpoint ?pl = (w', Inr r)" "tm' = tm\<lparr>tm_wal := w'\<rparr>"
    by (auto simp: checkpoint_signed_def checkpoint_with_merkle_root_def lift_wal_Inr_iff Let_def
        and_then_Inr_iff)
  let ?tm = "tm\<lparr>tm_wal := w1\<rparr>"
  from reach_checkpoint_signed.IH obtain rs0 m0 where "tm_inv X mode tm h rs0 m0" by blast
  from tm_inv_sync [OF this w1, of ?tm] obtain rs m where "tm_inv X mode ?tm h rs m" by auto
  from tm_inv_marker [OF X this reach_checkpoint_signed.hyps(3), of Checkpoint 0 w' r tm'] w'
    reach_checkpoint_signed.IH show ?case by simp
qed

subsection \<open>Durability and atomicity\<close>

lemma decode_enc_payloads:
  "ext_ok X \<Longrightarrow> decode_payloads X (map (enc_data X) ds) = ds"
  by (induction ds rule: rev_induct)
    (simp_all add: decode_data_payload_from_bytes_def ext_okD)

text \<open>What recovery returns from a log whose requests are a prefix of requests that commit \<open>h\<close>.\<close>

lemma recover_history:
  assumes X: "ext_ok X" and items: "wal_items X e None 0 = map Inr ks @ t" "torn_tail t"
    and ks: "\<forall>r \<in> set ks. valid_type r" "prefix (map rec_req ks) as"
    and as: "committed_spec as = map (\<lambda>(tx, ds). (tx, map (enc_data X) ds)) h"
  shows "\<exists>n rr. n \<le> length h \<and> (map rec_req ks = as \<longrightarrow> n = length h) \<and>
     n = length (committed_spec (map rec_req ks)) \<and>
     recover_streaming X e None False None 0 from collect [] = (take n h, Inr rr)"
proof -
  let ?c = "committed_spec (map rec_req ks)"
  have "prefix ?c (committed_spec as)" using committed_spec_prefix [OF ks(2)] .
  then have c: "?c = take (length ?c) (committed_spec as)" by (auto simp: prefix_def)
  have "map (\<lambda>(tx, pls). (tx, decode_payloads X pls)) ?c =
      take (length ?c) (map (\<lambda>(tx, pls). (tx, decode_payloads X pls)) (committed_spec as))"
    by (subst c) (simp only: take_map)
  also have "\<dots> = take (length ?c) h"
    by (simp add: as comp_def case_prod_unfold decode_enc_payloads [OF X])
  finally obtain rr where
    "recover_streaming X e None False None 0 from collect [] = (take (length ?c) h, Inr rr)"
    using recover_streaming_collect [OF items ks(1), of "from"] by auto
  moreover have "length ?c \<le> length h" using arg_cong [OF c, of length] as by simp
  ultimately show ?thesis using as by (intro exI [of _ "length ?c"]) auto
qed

lemma reads_back_plain:
  assumes "ww_encryption_key w = None" "reads_back X w e ks"
  obtains t where "wal_items X e None 0 = map Inr ks @ t" "torn_tail t"
  using assms by (auto simp: reads_back_def)

lemma tm_inv_crash:
  assumes X: "ext_ok X" and inv: "tm_inv X mode tm h rs m" and e: "crash (ww_os (tm_wal tm)) e"
  shows "\<exists>n rr. n \<le> length h \<and> (mode = PerRecord \<longrightarrow> n = length h) \<and>
     recover_streaming X e None False None 0 from collect [] = (take n h, Inr rr)"
proof -
  from inv have inv: "wal_inv X (tm_wal tm) rs m"
    "ww_encryption_key (tm_wal tm) = None" "mode = PerRecord \<longrightarrow> m = length rs"
    "\<forall>r \<in> set rs. valid_type r"
    "committed_spec (map rec_req rs) = map (\<lambda>(tx, ds). (tx, map (enc_data X) ds)) h"
    by (auto simp: tm_inv_def)
  from crash_reads_back [OF X wal_inv_log [OF inv(1)] e] obtain ks where
    ks: "reads_back X (tm_wal tm) e ks" "prefix ks rs" "m \<le> length ks" by blast
  from reads_back_plain [OF inv(2) ks(1)] obtain t where
    t: "wal_items X e None 0 = map Inr ks @ t" "torn_tail t" .
  have v: "\<forall>r \<in> set ks. valid_type r" using inv(4) ks(2) set_mono_prefix by blast
  have "ks = rs" if "mode = PerRecord"
    using that ks inv(3) by (auto simp: prefix_def)
  with recover_history [OF X t v map_mono_prefix [OF ks(2)] inv(5), of "from"] show ?thesis
    by blast
qed

text \<open>
  C27: durability.  In every state that a manager opened on an empty directory reaches by operations that succeed, without
  being opened again, a crash that keeps a prefix of every file with the synced bytes in it
  leaves a log from which recovery returns a prefix of the committed transactions in commit
  order, each with exactly the payloads of its mutations: nothing of a transaction that is
  still active, was rolled back or was a duplicate.  With \<^verbatim>\<open>PerRecord\<close> sync the prefix is
  the whole history.
\<close>

theorem tm_durable:
  assumes "ext_ok X" and "tm_reach X mode sk tm h" and "crash (ww_os (tm_wal tm)) e"
  shows "\<exists>n rr. n \<le> length h \<and> (mode = PerRecord \<longrightarrow> n = length h) \<and>
     recover_streaming X e None False None 0 from collect [] = (take n h, Inr rr)"
  using tm_reach_inv [OF assms(1,2)] tm_inv_crash [OF assms(1) _ assms(3)] by blast

text \<open>A batch that may stop anywhere with an error.\<close>

lemma batch_crash:
  assumes X: "ext_ok X" and inv: "tm_inv X mode tm h rs m"
    and fits: "\<forall>a \<in> set as. payload_fits None (snd (snd a))"
    and app: "app_all (append_req X) (tm_wal tm) as = (w', res)" and e: "crash (ww_os w') e"
  shows "\<exists>ks t. wal_items X e None 0 = map Inr ks @ t \<and> torn_tail t \<and>
     (\<forall>r \<in> set ks. valid_type r) \<and> prefix (map rec_req ks) (map rec_req rs @ as) \<and>
     (mode = PerRecord \<longrightarrow> prefix (map rec_req rs) (map rec_req ks))"
proof -
  from inv have w: "wal_inv X (tm_wal tm) rs m" "ww_encryption_key (tm_wal tm) = None"
    "mode = PerRecord \<longrightarrow> m = length rs" "\<forall>r \<in> set rs. valid_type r"
    by (simp_all add: tm_inv_def)
  from wal.app_all_crashed [of X "tm_wal tm" rs m as w' res e] X w fits app e obtain ks ts where
    ks: "reads_back X w' e ks" "prefix ks (rs @ ts)" "m \<le> length ks"
    and ts: "list_all2 made_from (take (length ts) as) ts" by auto
  have "ww_encryption_key w' = None"
    using append_all_config [OF app X w(1)] fits w(2) by simp
  from reads_back_plain [OF this ks(1)] obtain t where
    t: "wal_items X e None 0 = map Inr ks @ t" "torn_tail t" .
  note tsv = made_from_rec_reqs [OF ts]
  have v: "\<forall>r \<in> set ks. valid_type r"
    using w(4) tsv set_mono_prefix [OF ks(2)] by auto
  have "prefix (map rec_req ks) (map rec_req rs @ take (length ts) as)"
    using map_mono_prefix [OF ks(2), of rec_req] tsv by simp
  then have "prefix (map rec_req ks) (map rec_req rs @ as)"
    by (rule prefix_order.trans) (simp add: take_is_prefix)
  moreover have "prefix rs ks" if "mode = PerRecord"
    by (rule prefix_length_prefix [OF _ ks(2)]) (use that ks(3) w(3) in simp_all)
  ultimately show ?thesis using t v map_mono_prefix [of rs ks rec_req] by blast
qed

lemma tm_commit_crash:
  assumes X: "ext_ok X" and inv: "tm_inv X mode tm h rs m" and sk: "tm_signing_key tm = sk"
    and t: "map_of (tm_active tm) tx_id = Some t" "\<not> key_committed tm t"
    and fits: "\<forall>a \<in> set (commit_batch X sk t tx_id). payload_fits None (snd (snd a))"
    and com: "tm_commit X tm tx_id = (tm', res)" and e: "crash (ww_os (tm_wal tm')) e"
  shows "\<exists>n rr. n \<le> Suc (length h) \<and> (mode = PerRecord \<longrightarrow> length h \<le> n) \<and>
     (mode = PerRecord \<and> res = Inr () \<longrightarrow> n = Suc (length h)) \<and>
     recover_streaming X e None False None 0 from collect [] =
       (take n (h @ [(tx_id, map mutation_payload (t_mutations t))]), Inr rr)"
proof -
  let ?h = "h @ [(tx_id, map mutation_payload (t_mutations t))]"
  obtain w' r where app: "app_all (append_req X) (tm_wal tm) (commit_batch X sk t tx_id) = (w', r)"
    by force
  from tm_commit_batch [OF t] app sk com have tm': "tm_wal tm' = w'"
    and res: "res = Inr () \<longrightarrow> (\<exists>ts. r = Inr ts)"
    by (auto split: sum.splits dest: fst_eq simp: finish_commit_fields)
  show ?thesis
  proof (cases r)
    case (Inr ts)
    with app have "app_all (append_req X) (tm_wal tm) (commit_batch X sk t tx_id) = (w', Inr ts)" by simp
    from tm_inv_commit [OF X inv fits this tm'] obtain rs' m' where "tm_inv X mode tm' ?h rs' m'" by blast
    from tm_inv_crash [OF X this e, of "from"] show ?thesis by auto
  next
    case (Inl err)
    from batch_crash [OF X inv fits app, of e] e tm' obtain ks tl where
      ks: "wal_items X e None 0 = map Inr ks @ tl" "torn_tail tl" "\<forall>r \<in> set ks. valid_type r"
      "prefix (map rec_req ks) (map rec_req rs @ commit_batch X sk t tx_id)"
      "mode = PerRecord \<longrightarrow> prefix (map rec_req rs) (map rec_req ks)" by blast
    have spec: "committed_spec (map rec_req rs @ commit_batch X sk t tx_id) =
        map (\<lambda>(tx, ds). (tx, map (enc_data X) ds)) ?h"
      and h: "length (committed_spec (map rec_req rs)) = length h"
      using inv by (simp_all add: tm_inv_def commit_batch_spec comp_def)
    have "length h \<le> length (committed_spec (map rec_req ks))" if "mode = PerRecord"
      using prefix_length_le [OF committed_spec_prefix [OF ks(5) [rule_format, OF that]]] h by simp
    with recover_history [OF X ks(1-4) spec, of "from"] Inl res show ?thesis by auto
  qed
qed

text \<open>
  C28: atomic commit.  The manager was opened on an empty directory and all operations before this one succeeded; the records of
  the transaction are within the limit of the reader and its idempotency key was not committed before.  Whatever I/O error stops \<^verbatim>\<open>commit\<close>, and whenever the machine crashes
  afterwards, recovery returns a prefix of the history with this transaction at its end:
  the transaction is there with all its mutations or not at all.  With \<^verbatim>\<open>PerRecord\<close> sync no
  earlier commit is lost, and if \<^verbatim>\<open>commit\<close> returned \<^verbatim>\<open>Ok\<close> the transaction is there.
\<close>

theorem tm_commit_atomic:
  assumes "ext_ok X" and "tm_reach X mode sk tm h" and "map_of (tm_active tm) tx_id = Some t"
    and "\<not> key_committed tm t"
    and "\<forall>a \<in> set (commit_batch X sk t tx_id). payload_fits None (snd (snd a))"
    and "tm_commit X tm tx_id = (tm', res)" and "crash (ww_os (tm_wal tm')) e"
  shows "\<exists>n rr. n \<le> Suc (length h) \<and> (mode = PerRecord \<longrightarrow> length h \<le> n) \<and>
     (mode = PerRecord \<and> res = Inr () \<longrightarrow> n = Suc (length h)) \<and>
     recover_streaming X e None False None 0 from collect [] =
       (take n (h @ [(tx_id, map mutation_payload (t_mutations t))]), Inr rr)"
  using tm_reach_inv [OF assms(1,2)] tm_commit_crash [OF assms(1) _ _ assms(3-7)] by blast

subsection \<open>A run\<close>

lemma finish_commit_ok:
  assumes "map_of (tm_active tm) tx = Some t" "t_state t = Active"
  shows "snd (finish_commit tm tx k) = Inr ()"
  using assms by (cases k) (simp_all add: finish_commit_def Let_def mark_committed_def ensure_active_def)

lemma finish_commit_wal: "tm_wal (fst (finish_commit tm tx k)) = tm_wal tm"
  by (cases "map_of (tm_active tm) tx"; cases k)
    (simp_all add: finish_commit_def Let_def mark_committed_def ensure_active_def split: sum.splits)

lemma tm_open_progress:
  assumes "ext_ok X" "os_files d = []" "os_faults d = []"
  shows "\<exists>d' tm. tm_open X d sk mode = (d', Inr tm) \<and> no_faults (tm_wal tm) \<and> tm_next_tx_id tm = 1 \<and>
     tm_active tm = [] \<and> tm_committed_idempotency_keys tm = {}"
proof -
  from open_empty_progress [OF assms(2,3)] obtain d' w where
    o: "open_with_options X d DEFAULT_SEGMENT_SIZE mode None = (d', Inr w)" "no_faults w" by blast
  note w = open_empty_inv [OF assms(2) o(1)]
  have d': "ww_os w = d'"
    using o(1) assms(2)
    by (auto simp: open_with_options_def list_segments_def segment_create_def and_then_Inr_iff
        split: prod.splits io_outcome.splits if_splits)
  have items: "wal_items X d' None 0 = map Inr [] @ []"
    using wal_items_hold [OF assms(1) wal_log_clean [OF wal_inv_log [OF w(1)]]] d' w(2) by simp
  obtain s' res where r: "recover_streaming X d' None False None 0 TxWal max_tx 0 = (s', res)" by force
  from recover_streaming_spec [OF items torn_tail_Nil _ r] obtain rr where "s' = 0" "res = Inr rr"
    by auto
  with r o show ?thesis by (simp add: tm_open_def)
qed

lemma tm_begin_progress:
  assumes "no_faults (tm_wal tm)" "tm_inv X mode tm h rs m"
  shows "\<exists>w'. tm_begin X tm now descr = (tm\<lparr>tm_next_tx_id := tm_next_tx_id tm + 1, tm_wal := w',
     tm_active := AList.update (tm_next_tx_id tm) (transaction_new (tm_next_tx_id tm)
       (tm_last_committed_tx_id tm + 1) now descr) (tm_active tm)\<rparr>, Inr (tm_next_tx_id tm)) \<and>
     no_faults w'"
proof -
  from assms(2) have "wal_inv X (tm_wal tm) rs m" by (simp add: tm_inv_def)
  from wal_append_progress [OF assms(1) this, of "tm_next_tx_id tm" Begin "enc_begin X descr"] show ?thesis
    by (auto simp: tm_begin_def lift_wal_def Let_def)
qed

lemma tm_commit_progress:
  assumes "ext_ok X" "no_faults (tm_wal tm)" "tm_inv X mode tm h rs m"
    and "map_of (tm_active tm) tx = Some t" "t_state t = Active" "\<not> key_committed tm t"
    and "\<forall>a \<in> set (commit_batch X (tm_signing_key tm) t tx). payload_fits None (snd (snd a))"
  shows "\<exists>tm'. tm_commit X tm tx = (tm', Inr ()) \<and> no_faults (tm_wal tm')"
proof -
  from append_all_progress [OF assms(1,2), of rs m "commit_batch X (tm_signing_key tm) t tx"] assms(3,7)
  obtain w' ts where
    a: "app_all (append_req X) (tm_wal tm) (commit_batch X (tm_signing_key tm) t tx) = (w', Inr ts)" "no_faults w'"
    by (auto simp: tm_inv_def)
  note c = tm_commit_batch [OF assms(4,6) a(1)]
  obtain tm' r where f: "finish_commit (tm\<lparr>tm_wal := w'\<rparr>) tx (t_idempotency_key t) = (tm', r)" by force
  with finish_commit_ok [of "tm\<lparr>tm_wal := w'\<rparr>" tx t "t_idempotency_key t"] assms(4,5) have "r = Inr ()"
    by simp
  moreover have "tm_wal tm' = w'" using finish_commit_wal [of "tm\<lparr>tm_wal := w'\<rparr>" tx "t_idempotency_key t"] f by simp
  ultimately show ?thesis using c f a(2) by simp
qed

definition sample_mutation :: pending_mutation where
  "sample_mutation = new_mutation sample_ext 1 2 3 Insert [4, 5] None"

lemma sample_lengths:
  "length (enc_data sample_ext d) = 80 + length (dp_row_data d)"
  "length (enc_commit sample_ext c) = 37 + 2 * length (cp_signature c) + length (cp_signer_pubkey c)"
  "length (ed_sign sample_ext k msg) = 64" "length (ed_public sample_ext k) = 32"
  by (simp_all add: sample_ext_def s_enc_data_def s_enc_commit_def)

lemma sample_tx_fits:
  assumes "t_mutations t = [sample_mutation]"
  shows "\<forall>a \<in> set (commit_batch sample_ext (Some [6]) t 1). payload_fits None (snd (snd a))"
  using assms unfolding commit_batch_def data_reqs_def payload_fits_def MAX_RECORD_PAYLOAD_def
    commit_payload_of_def Let_def sign_with_def
  by (simp add: sample_lengths) (simp add: sample_mutation_def mutation_payload_def new_mutation_def)

lemma sample_run:
  "\<exists>tm t. tm_reach sample_ext PerRecord (Some [6]) tm [] \<and> map_of (tm_active tm) 1 = Some t \<and>
     t_mutations t = [sample_mutation] \<and> \<not> key_committed tm t \<and> t_state t = Active \<and>
     no_faults (tm_wal tm)"
proof -
  obtain d' tm0 where tm0: "tm_open sample_ext (sample_os []) (Some [6]) PerRecord = (d', Inr tm0)"
    "no_faults (tm_wal tm0)" "tm_next_tx_id tm0 = 1" "tm_active tm0 = []"
    "tm_committed_idempotency_keys tm0 = {}"
    using tm_open_progress [OF sample_ext_ok, of "sample_os []" "Some [6]" PerRecord] by auto
  note r0 = reach_open [OF _ tm0(1)]
  from tm_begin_progress [OF tm0(2) tm_open_empty(1) [OF _ tm0(1)], of 0 None] tm0(3,4) obtain w1 tm1 where
    b: "tm_begin sample_ext tm0 0 None = (tm1, Inr 1)" "no_faults w1"
    and tm1: "tm_wal tm1 = w1" "tm_active tm1 = [(1, transaction_new 1 (tm_last_committed_tx_id tm0 + 1) 0 None)]"
    "tm_committed_idempotency_keys tm1 = {}" using tm0(5) by auto
  have r1: "tm_reach sample_ext PerRecord (Some [6]) tm1 []"
    by (rule reach_begin [OF r0 _ b(1)])
      (simp_all add: payload_fits_def MAX_RECORD_PAYLOAD_def sample_ext_def)
  let ?t = "(transaction_new 1 (tm_last_committed_tx_id tm0 + 1) 0 None)
    \<lparr>t_hasher := hash_raw (pm_row_hash sample_mutation), t_mutations := [sample_mutation]\<rparr>"
  let ?tm = "tm1\<lparr>tm_active := [(1, ?t)]\<rparr>"
  have "tm_add_mutation sample_ext tm1 1 1 2 3 Insert [4, 5] None = (?tm, Inr ())"
    by (simp add: tm_add_mutation_def on_active_def tm1 tx_add_mutation_def ensure_active_def
        transaction_new_def sample_mutation_def)
  from reach_add [OF r1 this] b(2) tm1 show ?thesis
    by (intro exI [of _ ?tm] exI [of _ ?t]) (simp add: key_committed_def transaction_new_def)
qed

lemma sample_committed:
  "\<exists>tm. tm_reach sample_ext PerRecord (Some [6]) tm [(1, [mutation_payload sample_mutation])]"
proof -
  obtain tm t where tm: "tm_reach sample_ext PerRecord (Some [6]) tm []" "map_of (tm_active tm) 1 = Some t"
    "t_mutations t = [sample_mutation]" "\<not> key_committed tm t" "t_state t = Active"
    "no_faults (tm_wal tm)" using sample_run by blast
  from tm_reach_inv [OF sample_ext_ok tm(1)] obtain rs m where
    inv: "tm_inv sample_ext PerRecord tm [] rs m" "tm_signing_key tm = Some [6]" by blast
  note fits = sample_tx_fits [OF tm(3)]
  from tm_commit_progress [OF sample_ext_ok tm(6) inv(1) tm(2,5,4)] fits inv(2) obtain tm' where
    "tm_commit sample_ext tm 1 = (tm', Inr ())" by auto
  from reach_commit [OF tm(1,2,4) fits this] tm(3) show ?thesis by auto
qed

theorem tm_durable_witness:
  "\<exists>e rr. recover_streaming sample_ext e None False None 0 id collect [] =
     ([(1, [mutation_payload sample_mutation])], Inr rr)"
proof -
  obtain tm where "tm_reach sample_ext PerRecord (Some [6]) tm [(1, [mutation_payload sample_mutation])]"
    using sample_committed by blast
  from tm_durable [OF sample_ext_ok this crash_refl, of id] show ?thesis by auto
qed

theorem tm_commit_atomic_witness:
  "\<exists>e n rr. n \<le> 1 \<and> recover_streaming sample_ext e None False None 0 id collect [] =
     (take n [(1, [mutation_payload sample_mutation])], Inr rr)"
proof -
  obtain tm t where tm: "tm_reach sample_ext PerRecord (Some [6]) tm []" "map_of (tm_active tm) 1 = Some t"
    "t_mutations t = [sample_mutation]" "\<not> key_committed tm t" using sample_run by blast
  obtain tm' res where "tm_commit sample_ext tm 1 = (tm', res)" by force
  from tm_commit_atomic [OF sample_ext_ok tm(1,2,4) sample_tx_fits [OF tm(3)] this crash_refl, of id] tm(3)
  show ?thesis by auto
qed

subsection \<open>Commit records that verify\<close>

text \<open>Every active transaction has fed its hasher the row hashes of its mutations.\<close>

definition tx_wf :: "transaction \<Rightarrow> bool" where
  "tx_wf t \<longleftrightarrow> t_state t = Active \<and>
     t_hasher t = concat (map (\<lambda>m. hash_raw (pm_row_hash m)) (t_mutations t))"

lemma tx_wf_new [simp]: "tx_wf (transaction_new tx snap now descr)"
  by (simp add: tx_wf_def transaction_new_def)

lemma tx_wf_step:
  assumes "tx_wf t"
  shows "tx_wf (fst (tx_add_mutation t m))" "tx_wf (fst (tx_set_idempotency_key t k))"
  using assms by (simp_all add: tx_wf_def tx_add_mutation_def tx_set_idempotency_key_def ensure_active_def)

definition active_wf :: "transaction_manager \<Rightarrow> bool" where
  "active_wf tm \<longleftrightarrow> (\<forall>tx t. map_of (tm_active tm) tx = Some t \<longrightarrow> tx_wf t)"

lemma active_wf_update:
  "active_wf tm \<Longrightarrow> tx_wf t \<Longrightarrow> tm_active tm' = AList.update tx t (tm_active tm) \<Longrightarrow> active_wf tm'"
  "active_wf tm \<Longrightarrow> tm_active tm' = AList.delete tx (tm_active tm) \<Longrightarrow> active_wf tm'"
  by (auto simp: active_wf_def update_conv' delete_conv' split: if_splits)

lemma on_active_wf:
  assumes "active_wf tm" "\<And>t. tx_wf t \<Longrightarrow> tx_wf (fst (f t))"
  shows "active_wf (fst (on_active tm tx f))"
  using assms
  by (auto simp: on_active_def active_wf_def update_conv' split: option.splits prod.splits if_splits)
    (metis fst_conv)

lemma finish_commit_active:
  assumes "active_wf tm" shows "active_wf (fst (finish_commit tm tx k))"
  using assms
  by (auto simp: finish_commit_def Let_def active_wf_def delete_conv' split: option.splits sum.splits if_splits)

lemma tm_reach_active: "tm_reach X mode sk tm h \<Longrightarrow> active_wf tm"
proof (induction rule: tm_reach.induct)
  case (reach_open d d' tm)
  then show ?case by (auto simp: tm_open_def active_wf_def split: prod.splits sum.splits)
next
  case (reach_begin tm h descr now tm' tx_id)
  then show ?case
    by (auto simp: tm_begin_def Let_def and_then_Inr_iff lift_wal_Inr_iff active_wf_def update_conv'
        split: if_splits)
next
  case (reach_add tm h tx_id table_id page_id slot_id kind row_data prev tm')
  then show ?case using on_active_wf [OF reach_add.IH] tx_wf_step(1)
    by (auto simp: tm_add_mutation_def dest!: fst_eq)
next
  case (reach_key tm h tx_id key tm')
  then show ?case using on_active_wf [OF reach_key.IH] tx_wf_step(2)
    by (auto simp: tm_set_idempotency_key_def split: if_splits dest!: fst_eq)
next
  case (reach_commit tm h tx_id t tm')
  obtain w' res where app: "app_all (append_req X) (tm_wal tm) (commit_batch X (tm_signing_key tm) t tx_id)
    = (w', res)" by force
  have "active_wf (tm\<lparr>tm_wal := w'\<rparr>)" using reach_commit.IH by (simp add: active_wf_def)
  from finish_commit_active [OF this, of tx_id "t_idempotency_key t"]
  have "active_wf (fst (tm_commit X tm tx_id))" if "res = Inr ts" for ts
    using tm_commit_batch [OF reach_commit.hyps(2,3) app] that by simp
  moreover obtain ts where "res = Inr ts"
    using tm_commit_batch [OF reach_commit.hyps(2,3) app] reach_commit.hyps(5) by (cases res) auto
  ultimately show ?case using reach_commit.hyps(5) by simp
next
  case (reach_commit_duplicate tm h tx_id t tm')
  then have "tm' = tm\<lparr>tm_active := AList.delete tx_id (tm_active tm)\<rparr>"
    by (auto simp: tm_commit_def key_committed_def split: option.splits)
  with active_wf_update(2) [OF reach_commit_duplicate.IH] show ?case by simp
next
  case (reach_rollback tm h tx_id tm')
  then show ?case
    by (auto simp: tm_rollback_def and_then_Inr_iff lift_wal_Inr_iff active_wf_def delete_conv'
        on_active_def update_conv' split: option.splits prod.splits if_splits)
qed (auto simp: tm_checkpoint_def checkpoint_signed_def lift_wal_Inr_iff active_wf_def)

lemma row_hash_bytes_batch:
  assumes "ext_ok X" "list_all2 made_from (map (\<lambda>m. (tx, Data, enc_data X (mutation_payload m))) ms) ds"
  shows "row_hash_bytes X ds = Inr (concat (map (\<lambda>m. hash_raw (pm_row_hash m)) ms)) \<and>
     length ds = length ms"
  using assms(2)
proof (induction ms arbitrary: ds)
  case (Cons m ms)
  then obtain d ds' where ds: "ds = d # ds'" "made_from (tx, Data, enc_data X (mutation_payload m)) d"
    "list_all2 made_from (map (\<lambda>m. (tx, Data, enc_data X (mutation_payload m))) ms) ds'"
    by (auto simp: list_all2_Cons1)
  have "decode_data_payload X d = Inr (mutation_payload m)"
    using ds(2) assms(1)
    by (simp add: made_from_def req_of_def decode_data_payload_def decode_data_payload_from_bytes_def
        ext_okD)
  with Cons.IH [OF ds(3)] ds(1) show ?case by (simp add: mutation_payload_def)
qed simp

lemma verify_signed_commit:
  assumes "ext_ok X" "decode_commit_payload X c = Inr (commit_payload_of X sk t)"
  shows "verify_commit_signature X c = Inr ()"
  using assms
  by (cases sk) (simp_all add: verify_commit_signature_def commit_payload_of_def Let_def sign_with_def ext_okD)

text \<open>
  C32: commits of the manager verify.  In every reachable state, the data and commit records
  that \<^verbatim>\<open>commit\<close> writes for an active transaction pass the full verification of recovery,
  record count, transaction hash and signature, with and without a signing key.
\<close>

theorem tm_commit_verifies:
  assumes "ext_ok X" and "tm_reach X mode sk tm h" and "map_of (tm_active tm) tx = Some t"
    and "list_all2 made_from (data_reqs X t tx) ds"
    and "made_from (tx, Commit, enc_commit X (commit_payload_of X sk t)) c"
  shows "verify_commit_full X c ds = Inr ()"
proof -
  from tm_reach_active [OF assms(2)] assms(3) have wf: "tx_wf t" by (auto simp: active_wf_def)
  have dec: "decode_commit_payload X c = Inr (commit_payload_of X sk t)"
    using assms(1,5) by (simp add: made_from_def req_of_def decode_commit_payload_def ext_okD)
  note rows = row_hash_bytes_batch [OF assms(1) assms(4) [unfolded data_reqs_def]]
  have "cp_record_count (commit_payload_of X sk t) = of_nat (length (t_mutations t))"
    "cp_tx_hash (commit_payload_of X sk t) = blake3 X (t_hasher t)"
    by (simp_all add: commit_payload_of_def Let_def mutation_count_def tx_hash_def case_prod_beta)
  with dec rows verify_signed_commit [OF assms(1) dec] wf show ?thesis
    by (simp add: verify_commit_full_def Let_def tx_wf_def)
qed

theorem tm_commit_verifies_witness:
  "\<exists>t ds c. t_mutations t = [sample_mutation] \<and> length ds = 1 \<and>
     wr_payload c = enc_commit sample_ext (commit_payload_of sample_ext (Some [6]) t) \<and>
     verify_commit_full sample_ext c ds = Inr ()"
proof -
  obtain tm t where tm: "tm_reach sample_ext PerRecord (Some [6]) tm []" "map_of (tm_active tm) 1 = Some t"
    "t_mutations t = [sample_mutation]" using sample_run by blast
  let ?d = "new_record sample_ext (tm_wal tm) 1 Data (enc_data sample_ext (mutation_payload sample_mutation))"
  let ?c = "new_record sample_ext (tm_wal tm) 1 Commit
    (enc_commit sample_ext (commit_payload_of sample_ext (Some [6]) t))"
  have "list_all2 made_from (data_reqs sample_ext t 1) [?d]"
    using made_from_new_record by (simp add: data_reqs_def tm(3))
  from tm_commit_verifies [OF sample_ext_ok tm(1,2) this made_from_new_record] tm(3) show ?thesis
    by (intro exI [of _ t] exI [of _ "[?d]"] exI [of _ ?c]) simp
qed

subsection \<open>Transaction ids after reopening\<close>

lemma commit_all_max:
  "commit_all max_tx s ts = (foldl max s (map ct_tx_id ts), Inr ())"
  by (induction ts arbitrary: s) (auto simp: max_tx_def max_def)

lemma foldl_max_start: "(s :: 'a::linorder) \<le> foldl max s xs"
  by (induction xs arbitrary: s) (auto intro: order.trans [OF max.cobounded1])

lemma foldl_max_ge: "x \<in> set xs \<Longrightarrow> (x :: 'a::linorder) \<le> foldl max s xs"
  by (induction xs arbitrary: s) (auto intro: order.trans [OF max.cobounded2 foldl_max_start])

text \<open>
  Transaction ids after reopening.  \<^verbatim>\<open>open\<close> sets the next id to the successor of the
  largest committed id, so no id of a committed transaction is used again (the ids of begun
  and uncommitted transactions are not considered).
\<close>

theorem tm_open_next_id:
  assumes "tm_open X d sk mode = (d', Inr tm)" and "wal_items X d' None 0 = map Inr rs @ t"
    and "torn_tail t" and "\<forall>r \<in> set rs. valid_type r"
  shows "tm_next_tx_id tm = foldl max 0 (map fst (committed_spec (map rec_req rs))) + 1 \<and>
     (\<forall>(tx, pls) \<in> set (committed_spec (map rec_req rs)). tx \<le> tm_last_committed_tx_id tm)"
proof -
  obtain s' res where r: "recover_streaming X d' None False None 0 TxWal max_tx 0 = (s', res)" by force
  from recover_streaming_spec [OF assms(2-4) r] obtain ts where
    ts: "map stx_of ts = map (\<lambda>(tx, pls). (tx, decode_payloads X pls)) (committed_spec (map rec_req rs))"
    "s' = foldl max 0 (map ct_tx_id ts)" by (auto simp: commit_all_max)
  have "map fst (map stx_of ts) = map fst (committed_spec (map rec_req rs))"
    unfolding ts(1) by (simp add: comp_def case_prod_unfold)
  then have "map ct_tx_id ts = map fst (committed_spec (map rec_req rs))"
    by (simp add: stx_of_def comp_def)
  with ts(2) have s': "s' = foldl max 0 (map fst (committed_spec (map rec_req rs)))" by simp
  have "tm_next_tx_id tm = s' + 1" "tm_last_committed_tx_id tm = s'"
    using assms(1) r by (auto simp: tm_open_def split: prod.splits sum.splits)
  with s' show ?thesis
    by (auto intro!: foldl_max_ge simp: image_iff) force
qed

theorem tm_open_next_id_witness:
  "\<exists>d' tm. tm_open sample_ext (sample_os []) None PerRecord = (d', Inr tm) \<and> tm_next_tx_id tm = 1"
proof -
  obtain d' tm where o: "tm_open sample_ext (sample_os []) None PerRecord = (d', Inr tm)"
    using tm_open_progress [OF sample_ext_ok, of "sample_os []" None PerRecord] by auto
  have "ww_os (tm_wal tm) = d'"
    using o by (auto simp: tm_open_def open_with_options_def list_segments_def segment_create_def
        and_then_Inr_iff split: prod.splits io_outcome.splits if_splits sum.splits)
  with tm_open_empty(1) [OF _ o]
    wal_items_hold [OF sample_ext_ok wal_log_clean [OF wal_inv_log, of sample_ext "tm_wal tm" "[]" 0]]
  have "wal_items sample_ext d' None 0 = map Inr [] @ []" by (auto simp: tm_inv_def)
  from tm_open_next_id [OF o this torn_tail_Nil] o show ?thesis by auto
qed

subsection \<open>Snapshots\<close>

text \<open>What later transactions do to a version chain: mark live versions deleted and append new
  ones, all with ids that are not below the snapshot.\<close>

definition later_version :: "u64 \<Rightarrow> row_version \<Rightarrow> row_version \<Rightarrow> bool" where
  "later_version snapshot v v' \<longleftrightarrow> v' = v \<or>
     (rv_tx_id_deleted v = 0 \<and> (\<exists>k \<ge> snapshot. v' = v\<lparr>rv_tx_id_deleted := k\<rparr>))"

lemma later_version_visible: "later_version s v v' \<Longrightarrow> is_visible v' s = is_visible v s"
  by (auto simp: later_version_def is_visible_def)

lemma latest_visible_append:
  "latest_visible (vs @ ws) s = (case latest_visible ws s of None \<Rightarrow> latest_visible vs s | Some v \<Rightarrow> Some v)"
proof -
  have "find P (xs @ ys) = (case find P xs of None \<Rightarrow> find P ys | Some v \<Rightarrow> Some v)" for P :: "row_version \<Rightarrow> bool" and xs ys
    by (induction xs) auto
  then show ?thesis by (simp add: latest_visible_def del: find.simps split: option.splits)
qed

lemma latest_visible_later:
  "list_all2 (later_version s) vs vs' \<Longrightarrow>
     rel_option (later_version s) (latest_visible vs s) (latest_visible vs' s)"
proof (induction rule: list_all2_induct)
  case (Cons v vs v' vs')
  then show ?case
    using later_version_visible [OF Cons.hyps(1)]
      latest_visible_append [of "[v]" vs s] latest_visible_append [of "[v']" vs' s]
    by (auto simp: latest_visible_def [of "[_]"] rel_option_iff split: option.splits)
qed (simp add: latest_visible_def)

text \<open>
  Snapshot isolation.  What transactions with ids at or above a snapshot do to a row,
  deleting live versions and appending new ones, does not change the version that a reader
  at the snapshot sees: the same row data, or still none.
\<close>

theorem snapshot_isolation:
  assumes "list_all2 (later_version snapshot) versions versions'"
    and "\<forall>v \<in> set new. snapshot \<le> rv_tx_id_created v"
  shows "map_option rv_data (latest_visible (versions' @ new) snapshot) =
     map_option rv_data (latest_visible versions snapshot)"
proof -
  have "latest_visible new snapshot = None"
    using assms(2) by (auto simp: latest_visible_def find_None_iff is_visible_def)
  with latest_visible_later [OF assms(1)] show ?thesis
    by (cases "latest_visible versions snapshot"; cases "latest_visible versions' snapshot")
      (auto simp: latest_visible_append later_version_def)
qed

theorem snapshot_isolation_witness:
  "let v = \<lparr> rv_tx_id_created = 3, rv_tx_id_deleted = 0, rv_row_sequence = 0, rv_data = [1],
         rv_data_hash = 0, rv_prev_hash = 0 \<rparr>
   in map_option rv_data (latest_visible
        ([v\<lparr>rv_tx_id_deleted := 9\<rparr>] @ [v\<lparr>rv_tx_id_created := 9, rv_data := [2]\<rparr>]) 5) = Some [1]"
proof -
  let ?v = "\<lparr> rv_tx_id_created = 3, rv_tx_id_deleted = 0, rv_row_sequence = 0, rv_data = [1],
         rv_data_hash = 0, rv_prev_hash = 0 \<rparr>"
  have "map_option rv_data (latest_visible
        ([?v\<lparr>rv_tx_id_deleted := 9\<rparr>] @ [?v\<lparr>rv_tx_id_created := 9, rv_data := [2]\<rparr>]) 5) =
      map_option rv_data (latest_visible [?v] 5)"
    by (rule snapshot_isolation) (auto simp: later_version_def)
  then show ?thesis by (simp add: Let_def latest_visible_def is_visible_def)
qed

end
