(* ===== verification/Ledger_Store.thy ===== *)
theory Ledger_Store
  imports Entry_Db Transaction_Props
begin

text \<open>
  \<^verbatim>\<open>crates/vledger-ledger/src/store.rs\<close>: the ledger on top of the transaction manager, the page
  store and the query index.

  The bincode codecs of the rows are the parameter \<open>eC E\<close>; bincode never fails to encode these
  types.  \<open>now\<close> and \<open>uid\<close> are the successive readings of the clock and of the UUID generator
  in a call.  A map is iterated in the order of its association list, where the order of a
  \<^verbatim>\<open>HashMap\<close> is unspecified: only which of several violated limits is reported depends on it.
  The texts of formatted messages are reduced to their constant part.
\<close>

subsection \<open>Rows and parameters\<close>

definition TABLE_ACCOUNTS :: u32 where "TABLE_ACCOUNTS = 0"
definition TABLE_ENTRIES :: u32 where "TABLE_ENTRIES = 1"
definition TABLE_REVERSAL_EVENTS :: u32 where "TABLE_REVERSAL_EVENTS = 2"
definition TABLE_SETTLEMENT_EVENTS :: u32 where "TABLE_SETTLEMENT_EVENTS = 3"
definition TABLE_RECONCILIATION_EVENTS :: u32 where "TABLE_RECONCILIATION_EVENTS = 4"

lemmas table_defs = TABLE_ACCOUNTS_def TABLE_ENTRIES_def TABLE_REVERSAL_EVENTS_def
  TABLE_SETTLEMENT_EVENTS_def TABLE_RECONCILIATION_EVENTS_def

record reversal_event =
  re_original_entry_id :: uuid
  re_reversal_entry_id :: uuid
  re_reversed_at :: timestamp

record settlement_event =
  se_entry_id :: uuid
  se_new_status :: entry_status
  se_settled_at :: timestamp
  se_notes :: "string option"

record reconciliation_discrepancy =
  rd_account_id :: account_id
  rd_account_code :: string
  rd_cached_balance :: int
  rd_recomputed_balance :: int
  rd_delta :: int

record reconciliation_record =
  rc_id :: uuid
  rc_run_at :: timestamp
  rc_entries_scanned :: u64
  rc_accounts_checked :: u64
  rc_discrepancy_count :: u64
  rc_discrepancy_json :: string
  rc_ledger_sequence_at_run :: u64
  rc_chain_tip_at_run :: string

record ledger_codec =
  enc_account :: "account \<Rightarrow> bytes"
  dec_account :: "bytes \<Rightarrow> string + account"
  enc_entry :: "journal_entry \<Rightarrow> bytes"
  dec_entry :: "bytes \<Rightarrow> string + journal_entry"
  enc_reversal :: "reversal_event \<Rightarrow> bytes"
  dec_reversal :: "bytes \<Rightarrow> string + reversal_event"
  enc_settlement :: "settlement_event \<Rightarrow> bytes"
  dec_settlement :: "bytes \<Rightarrow> string + settlement_event"
  enc_recon :: "reconciliation_record \<Rightarrow> bytes"
  dec_recon :: "bytes \<Rightarrow> string + reconciliation_record"
  discrepancies_json :: "reconciliation_discrepancy list \<Rightarrow> string"

text \<open>Decoding inverts encoding.\<close>

definition ledger_codec_ok :: "ledger_codec \<Rightarrow> bool" where
  "ledger_codec_ok C \<longleftrightarrow> (\<forall>a. dec_account C (enc_account C a) = Inr a) \<and>
     (\<forall>e. dec_entry C (enc_entry C e) = Inr e) \<and> (\<forall>r. dec_reversal C (enc_reversal C r) = Inr r) \<and>
     (\<forall>r. dec_settlement C (enc_settlement C r) = Inr r) \<and> (\<forall>r. dec_recon C (enc_recon C r) = Inr r)"

record env =
  eX :: ext
  eP :: page_codec
  eC :: ledger_codec

definition uuid_string :: "uuid \<Rightarrow> string" where
  "uuid_string u = (let h = hex_encode (uuid_raw u)
     in take 8 h @ ''-'' @ take 4 (drop 8 h) @ ''-'' @ take 4 (drop 12 h) @ ''-'' @
        take 4 (drop 16 h) @ ''-'' @ drop 20 h)"

subsection \<open>The store\<close>

record ledger_store =
  ls_tm :: transaction_manager
  ls_pages :: page_store
  ls_db :: entry_db
  ls_accounts :: "(account_id \<times> account) list"
  ls_balance_cache :: "(account_id \<times> int) list"
  ls_next_sequence :: u64
  ls_last_chain_hash :: hash
  ls_reversal_event_index :: "(uuid \<times> uuid) list"
  ls_settlement_event_index :: "(uuid \<times> entry_status) list"
  ls_reconciliation_history :: "reconciliation_record list"
  ls_legal_hold_accounts :: "account_id set"
  ls_currency_registry :: currency_registry
  ls_next_account_page :: u64
  ls_next_entry_page :: u64
  ls_last_committed_entry_bytes :: "bytes option"

definition ledger_store_init :: "transaction_manager \<Rightarrow> page_store \<Rightarrow> entry_db \<Rightarrow> ledger_store" where
  "ledger_store_init tm ps db =
     \<lparr> ls_tm = tm, ls_pages = ps, ls_db = db, ls_accounts = [], ls_balance_cache = [], ls_next_sequence = 1,
       ls_last_chain_hash = ZERO_HASH, ls_reversal_event_index = [], ls_settlement_event_index = [],
       ls_reconciliation_history = [], ls_legal_hold_accounts = {},
       ls_currency_registry = currency_registry_new, ls_next_account_page = 0, ls_next_entry_page = 0,
       ls_last_committed_entry_bytes = None \<rparr>"

definition balance :: "ledger_store \<Rightarrow> account_id \<Rightarrow> int" where
  "balance s a = get0 (ls_balance_cache s) a"

definition update_balance_cache :: "account_id \<Rightarrow> int \<Rightarrow> dr_cr \<Rightarrow> ledger_store \<Rightarrow> ledger_store" where
  "update_balance_cache a amt d s = (case map_of (ls_accounts s) a of
       None \<Rightarrow> s
     | Some acct \<Rightarrow> s\<lparr>ls_balance_cache :=
         add_at a (normal_delta (debit_normal (acc_type acct)) d amt) (ls_balance_cache s)\<rparr>)"

text \<open>The loop over the lines of an entry.\<close>

definition update_balances :: "journal_line list \<Rightarrow> ledger_store \<Rightarrow> ledger_store" where
  "update_balances ls s =
     foldl (\<lambda>s l. update_balance_cache (jl_account_id l) (amount_as_i128 (jl_amount l)) (jl_dr_cr l) s) s ls"

definition index_entry :: "journal_entry \<Rightarrow> ledger_store \<Rightarrow> ledger_store" where
  "index_entry e s = s\<lparr>ls_db := insert_lines e (db_insert e (ls_db s))\<rparr>"

definition apply_account :: "account \<Rightarrow> ledger_store \<Rightarrow> ledger_store" where
  "apply_account a s = s\<lparr>
     ls_legal_hold_accounts := (if acc_legal_hold a then insert (acc_id a) (ls_legal_hold_accounts s)
       else ls_legal_hold_accounts s - {acc_id a}),
     ls_accounts := AList.update (acc_id a) a (ls_accounts s)\<rparr>"

text \<open>\<^verbatim>\<open>if entry.sequence >= next_sequence { next_sequence = entry.sequence + 1 }\<close>.\<close>

definition advance_sequence :: "u64 \<Rightarrow> ledger_store \<Rightarrow> ledger_store" where
  "advance_sequence sq s = (if sq \<ge> ls_next_sequence s then s\<lparr>ls_next_sequence := sq + 1\<rparr> else s)"

definition apply_balances :: "journal_entry \<Rightarrow> ledger_store \<Rightarrow> ledger_store" where
  "apply_balances e s = (if affects_balance (je_status e) then update_balances (je_lines e) s else s)"

definition apply_entry :: "journal_entry \<Rightarrow> ledger_store \<Rightarrow> ledger_store" where
  "apply_entry e s =
     (let s1 = (advance_sequence (je_sequence e) s)\<lparr>ls_last_chain_hash := je_chain_hash e\<rparr>;
          s2 = index_entry e (apply_balances e s1)
      in s2\<lparr>ls_next_entry_page := ls_next_entry_page s2 + 1\<rparr>)"

subsection \<open>Durable rows\<close>

definition lift_tm :: "ledger_store \<Rightarrow> transaction_manager \<times> (tx_error + 'a) \<Rightarrow> ledger_store \<times> (ledger_error + 'a)" where
  "lift_tm s p = (s\<lparr>ls_tm := fst p\<rparr>, map_err LTransaction (snd p))"

definition write_to_page :: "env \<Rightarrow> u32 \<Rightarrow> bytes \<Rightarrow> u64 \<Rightarrow> ledger_store \<Rightarrow>
    ledger_store \<times> (ledger_error + u64 \<times> u16 \<times> u64)" where
  "write_to_page E table_id row_data cursor s =
     (case write_slot (page_new (eP E) cursor table_id) row_data of
        (_, Inl _) \<Rightarrow> (s, Inl (LSerialization ''page write_slot''))
      | (p, Inr slot_id) \<Rightarrow>
          (case write_page (eX E) (seal (eX E) (eP E) p) (ls_pages s) of
             (ps, Inl _) \<Rightarrow> (s\<lparr>ls_pages := ps\<rparr>, Inl (LSerialization ''page_store write''))
           | (ps, Inr _) \<Rightarrow> (s\<lparr>ls_pages := ps\<rparr>, Inr (ph_page_id (pg_header p), slot_id, cursor + 1))))"

definition tm_step ::
  "ledger_store \<Rightarrow> (transaction_manager \<Rightarrow> transaction_manager \<times> (tx_error + 'a)) \<Rightarrow> ledger_store \<times> (ledger_error + 'a)" where
  "tm_step s f = lift_tm s (f (ls_tm s))"

definition persist_row :: "env \<Rightarrow> timestamp \<Rightarrow> u32 \<Rightarrow> bytes \<Rightarrow> mutation_kind \<Rightarrow> hash option \<Rightarrow> ledger_store \<Rightarrow>
    ledger_store \<times> (ledger_error + u64 \<times> u16)" where
  "persist_row E now table_id row_data kind prev s =
     and_then (write_to_page E table_id row_data
         (if table_id = TABLE_ACCOUNTS then ls_next_account_page s else ls_next_entry_page s) s)
       (\<lambda>s1 (page_id, slot_id, next_cursor).
        let s2 = (if table_id = TABLE_ACCOUNTS then s1\<lparr>ls_next_account_page := next_cursor\<rparr>
                  else s1\<lparr>ls_next_entry_page := next_cursor\<rparr>) in
        and_then (tm_step s2 (\<lambda>tm. tm_begin (eX E) tm now None)) (\<lambda>s3 tx_id.
        and_then (tm_step s3 (\<lambda>tm. tm_add_mutation (eX E) tm tx_id table_id page_id slot_id kind row_data prev)) (\<lambda>s4 _.
        and_then (tm_step s4 (\<lambda>tm. tm_commit (eX E) tm tx_id)) (\<lambda>s5 _. (s5, Inr (page_id, slot_id))))))"

definition persist_row_pair :: "env \<Rightarrow> timestamp \<Rightarrow> u32 \<Rightarrow> bytes \<Rightarrow> hash option \<Rightarrow> u32 \<Rightarrow> bytes \<Rightarrow> ledger_store \<Rightarrow>
    ledger_store \<times> (ledger_error + unit)" where
  "persist_row_pair E now table_a data_a prev_a table_b data_b s =
     and_then (write_to_page E table_a data_a (ls_next_entry_page s) s) (\<lambda>s1 (page_a, slot_a, next_a).
     let s2 = s1\<lparr>ls_next_entry_page := next_a\<rparr> in
     and_then (write_to_page E table_b data_b (ls_next_entry_page s2) s2) (\<lambda>s3 (page_b, slot_b, next_b).
     let s4 = s3\<lparr>ls_next_entry_page := next_b\<rparr> in
     and_then (tm_step s4 (\<lambda>tm. tm_begin (eX E) tm now (Some ''reversal''))) (\<lambda>s5 tx_id.
     and_then (tm_step s5 (\<lambda>tm. tm_add_mutation (eX E) tm tx_id table_a page_a slot_a Insert data_a prev_a)) (\<lambda>s6 _.
     and_then (tm_step s6 (\<lambda>tm. tm_add_mutation (eX E) tm tx_id table_b page_b slot_b Insert data_b None)) (\<lambda>s7 _.
     tm_step s7 (\<lambda>tm. tm_commit (eX E) tm tx_id))))))"

subsection \<open>Accounts\<close>

definition create_account :: "env \<Rightarrow> timestamp \<Rightarrow> account \<Rightarrow> ledger_store \<Rightarrow> ledger_store \<times> (ledger_error + account_id)" where
  "create_account E now a s =
     and_then (persist_row E now TABLE_ACCOUNTS (enc_account (eC E) a) Insert None s) (\<lambda>s1 _.
       (apply_account a (s1\<lparr>ls_db := upsert_account a (ls_db s1)\<rparr>), Inr (acc_id a)))"

definition get_account :: "ledger_store \<Rightarrow> account_id \<Rightarrow> account option" where
  "get_account s a = map_of (ls_accounts s) a"

definition close_account :: "env \<Rightarrow> timestamp \<Rightarrow> account_id \<Rightarrow> ledger_store \<Rightarrow> ledger_store \<times> (ledger_error + unit)" where
  "close_account E now a s = (case map_of (ls_accounts s) a of
       None \<Rightarrow> (s, Inl (AccountNotFound a))
     | Some acct \<Rightarrow>
         let acct' = acct\<lparr>acc_status := AccountIsClosed\<rparr>;
             s1 = s\<lparr>ls_accounts := AList.update a acct' (ls_accounts s)\<rparr>
         in and_then (persist_row E now TABLE_ACCOUNTS (enc_account (eC E) acct') Delete None s1) (\<lambda>s2 _.
              ((case map_of (ls_accounts s2) a of
                  None \<Rightarrow> s2
                | Some b \<Rightarrow> s2\<lparr>ls_db := upsert_account b (ls_db s2)\<rparr>), Inr ())))"

definition set_legal_hold :: "env \<Rightarrow> timestamp \<Rightarrow> account_id \<Rightarrow> bool \<Rightarrow> ledger_store \<Rightarrow>
    ledger_store \<times> (ledger_error + unit)" where
  "set_legal_hold E now a hold s = (case map_of (ls_accounts s) a of
       None \<Rightarrow> (s, Inl (AccountNotFound a))
     | Some acct \<Rightarrow>
         let acct' = acct\<lparr>acc_legal_hold := hold\<rparr>;
             s1 = s\<lparr>ls_accounts := AList.update a acct' (ls_accounts s)\<rparr>
         in and_then (persist_row E now TABLE_ACCOUNTS (enc_account (eC E) acct') Delete None s1) (\<lambda>s2 _.
              (s2\<lparr>ls_legal_hold_accounts := (if hold then insert a (ls_legal_hold_accounts s2)
                  else ls_legal_hold_accounts s2 - {a})\<rparr>, Inr ())))"

definition place_legal_hold where
  "place_legal_hold E now a s = set_legal_hold E now a True s"

definition lift_legal_hold where
  "lift_legal_hold E now a s = set_legal_hold E now a False s"

definition is_under_legal_hold :: "ledger_store \<Rightarrow> account_id \<Rightarrow> bool" where
  "is_under_legal_hold s a \<longleftrightarrow> a \<in> ls_legal_hold_accounts s"

subsection \<open>Posting\<close>

definition i64_saturate :: "int \<Rightarrow> int" where
  "i64_saturate x = (if x < i64_min then i64_min else if x > i64_max then i64_max else x)"

definition max_minor_units :: "byte \<Rightarrow> int" where
  "max_minor_units precision =
     i64_saturate (i64_saturate (10 ^ (18 - unat precision)) * i64_saturate (10 ^ unat precision))"

definition check_precision :: "currency_registry \<Rightarrow> journal_line \<Rightarrow> ledger_error + unit" where
  "check_precision r l = (case currency_precision r (jl_currency_code l) of
       None \<Rightarrow> Inr ()
     | Some precision \<Rightarrow>
         if sint (i64_abs (amount_raw (jl_amount l))) > max_minor_units precision
         then Inl (PrecisionViolation (jl_currency_code l) precision (amount_as_i64 (jl_amount l)) (max_minor_units precision))
         else Inr ())"

definition check_line :: "ledger_store \<Rightarrow> journal_entry \<Rightarrow> journal_line \<Rightarrow> ledger_error + unit" where
  "check_line s e l = (case map_of (ls_accounts s) (jl_account_id l) of
       None \<Rightarrow> Inl (AccountNotFound (jl_account_id l))
     | Some acct \<Rightarrow>
         if \<not> acc_is_active acct then Inl (AccountClosed (jl_account_id l))
         else if acc_legal_hold acct then Inl (AccountUnderLegalHold (jl_account_id l))
         else if acc_currency_code acct \<noteq> jl_currency_code l
         then Inl (CurrencyMismatch (acc_currency_code acct) (jl_currency_code l))
         else case check_precision (ls_currency_registry s) l of
             Inl err \<Rightarrow> Inl err
           | Inr _ \<Rightarrow> if acc_require_four_eyes acct \<and> je_approved_by e = None then Inl FourEyesRequired else Inr ())"

text \<open>A loop of checks that returns the first error.\<close>

fun check_all :: "('a \<Rightarrow> 'e + unit) \<Rightarrow> 'a list \<Rightarrow> 'e + unit" where
  "check_all f [] = Inr ()"
| "check_all f (x # xs) = (case f x of Inl e \<Rightarrow> Inl e | Inr _ \<Rightarrow> check_all f xs)"

definition net_debit_delta :: "journal_line list \<Rightarrow> (account_id \<times> int) list" where
  "net_debit_delta ls = foldl (\<lambda>m l. add_at (jl_account_id l)
     (normal_delta True (jl_dr_cr l) (amount_as_i128 (jl_amount l))) m) [] ls"

definition total_debit :: "journal_line list \<Rightarrow> (account_id \<times> int) list" where
  "total_debit ls = foldl (\<lambda>m l. if jl_dr_cr l = Debit
     then add_at (jl_account_id l) (amount_as_i128 (jl_amount l)) m else m) [] ls"

definition check_limits :: "ledger_store \<Rightarrow> (account_id \<times> int) list \<Rightarrow> account_id \<times> int \<Rightarrow> ledger_error + unit" where
  "check_limits s debits p = (case p of (a, delta) \<Rightarrow> (case map_of (ls_accounts s) a of
       None \<Rightarrow> Inl (AccountNotFound a)
     | Some acct \<Rightarrow>
         (case (case acc_exposure_limit acct of
             None \<Rightarrow> Inr ()
           | Some limit \<Rightarrow> if get0 debits a > sint limit
               then Inl (ExposureLimitExceeded a (sint limit) (get0 debits a)) else Inr ()) of
            Inl err \<Rightarrow> Inl err
          | Inr _ \<Rightarrow>
              if acc_require_non_negative_balance acct \<and> debit_normal (acc_type acct) \<and> delta < 0 \<and>
                 balance s a + delta < 0
              then Inl (InsufficientFunds a (balance s a) (- delta)) else Inr ())))"

definition duplicate_sequence :: "ledger_store \<Rightarrow> journal_entry \<Rightarrow> u64 option" where
  "duplicate_sequence s e = (case je_idempotency_key e of
       None \<Rightarrow> None
     | Some key \<Rightarrow> if idempotency_key_exists (ls_db s) key
         then Some (case sequence_for_idempotency_key (ls_db s) key of None \<Rightarrow> 0 | Some q \<Rightarrow> q) else None)"

text \<open>Steps 3 and 4: the lines, then the aggregate effect on each account.\<close>

definition check_entry :: "ledger_store \<Rightarrow> journal_entry \<Rightarrow> ledger_error + unit" where
  "check_entry s e = (case check_all (check_line s e) (je_lines e) of
       Inl err \<Rightarrow> Inl err
     | Inr _ \<Rightarrow> check_all (check_limits s (total_debit (je_lines e))) (net_debit_delta (je_lines e)))"

definition number_entry :: "env \<Rightarrow> timestamp \<Rightarrow> journal_entry \<Rightarrow> ledger_store \<Rightarrow> journal_entry" where
  "number_entry E now e s = finalize_chain_hash (blake3 (eX E)) (ls_last_chain_hash s)
     (e\<lparr>je_sequence := ls_next_sequence s, je_posted_at := now\<rparr>)"

definition post_entry :: "env \<Rightarrow> (nat \<Rightarrow> timestamp) \<Rightarrow> journal_entry \<Rightarrow> ledger_store \<Rightarrow>
    ledger_store \<times> (ledger_error + u64)" where
  "post_entry E now e s =
     (case validate e of Inl err \<Rightarrow> (s, Inl err) | Inr _ \<Rightarrow>
      case duplicate_sequence s e of Some q \<Rightarrow> (s, Inr q) | None \<Rightarrow>
      case check_entry s e of Inl err \<Rightarrow> (s, Inl err) | Inr _ \<Rightarrow>
        let e1 = number_entry E (now 0) e s;
            s1 = s\<lparr>ls_next_sequence := ls_next_sequence s + 1\<rparr>;
            row = enc_entry (eC E) e1
        in and_then (persist_row E (now 1) TABLE_ENTRIES row Insert (Some (je_prev_hash e1)) s1) (\<lambda>s2 _.
             (index_entry e1 (apply_balances e1 (s2\<lparr>ls_last_committed_entry_bytes := Some row,
                ls_last_chain_hash := je_chain_hash e1\<rparr>)), Inr (je_sequence e1))))"

definition import_check :: "ledger_store \<Rightarrow> journal_line \<Rightarrow> ledger_error + unit" where
  "import_check s l = (case map_of (ls_accounts s) (jl_account_id l) of
       None \<Rightarrow> Inl (AccountNotFound (jl_account_id l))
     | Some acct \<Rightarrow>
         if \<not> acc_is_active acct then Inl (AccountClosed (jl_account_id l))
         else if acc_currency_code acct \<noteq> jl_currency_code l
         then Inl (CurrencyMismatch (acc_currency_code acct) (jl_currency_code l)) else Inr ())"

definition import_entry_direct :: "env \<Rightarrow> (nat \<Rightarrow> timestamp) \<Rightarrow> journal_entry \<Rightarrow> ledger_store \<Rightarrow>
    ledger_store \<times> (ledger_error + u64)" where
  "import_entry_direct E now e s =
     (case validate e of Inl err \<Rightarrow> (s, Inl err) | Inr _ \<Rightarrow>
      if (case je_idempotency_key e of None \<Rightarrow> False | Some key \<Rightarrow> idempotency_key_exists (ls_db s) key)
      then (s, Inr 0)
      else case check_all (import_check s) (je_lines e) of Inl err \<Rightarrow> (s, Inl err) | Inr _ \<Rightarrow>
        let e1 = number_entry E (now 0) e s;
            s1 = s\<lparr>ls_next_sequence := ls_next_sequence s + 1\<rparr>
        in and_then (persist_row E (now 1) TABLE_ENTRIES (enc_entry (eC E) e1) Insert (Some (je_prev_hash e1)) s1)
             (\<lambda>s2 _. (s2\<lparr>ls_last_chain_hash := je_chain_hash e1\<rparr>, Inr (je_sequence e1))))"

subsection \<open>Reversal\<close>

text \<open>\<^verbatim>\<open>stream_all\<close> with a callback that remembers the last row with the id.\<close>

definition find_last :: "entry_db \<Rightarrow> uuid \<Rightarrow> journal_entry option" where
  "find_last db entry_id = find (\<lambda>e. je_id e = entry_id) (rev (db_stream db))"

fun flip :: "dr_cr \<Rightarrow> dr_cr" where
  "flip Debit = Credit"
| "flip Credit = Debit"

definition reversal_line :: "uuid \<Rightarrow> journal_line \<Rightarrow> journal_line" where
  "reversal_line uid l = \<lparr> jl_id = uid, jl_account_id = jl_account_id l, jl_currency_code = jl_currency_code l,
     jl_amount = jl_amount l, jl_dr_cr = flip (jl_dr_cr l),
     jl_memo = Some (''Reversal of line '' @ uuid_string (jl_id l)) \<rparr>"

definition reversal_of :: "(nat \<Rightarrow> uuid) \<Rightarrow> (nat \<Rightarrow> timestamp) \<Rightarrow> uuid \<Rightarrow> string \<Rightarrow> string \<Rightarrow> journal_entry \<Rightarrow> journal_entry" where
  "reversal_of uid now entry_id description domain original =
     \<lparr> je_id = uid (length (je_lines original)), je_sequence = 0, je_status = Reversal, je_description = description,
       je_lines = map (\<lambda>(i, l). reversal_line (uid i) l) (enumerate 0 (je_lines original)),
       je_effective_at = now 0, je_posted_at = now 1, je_external_ref = None, je_idempotency_key = None,
       je_reverses_entry_id = Some entry_id, je_reversed_by_entry_id = None, je_domain = domain,
       je_content_hash = ZERO_HASH, je_prev_hash = ZERO_HASH, je_chain_hash = ZERO_HASH,
       je_approved_by = None, je_metadata = None \<rparr>"

definition check_hold :: "ledger_store \<Rightarrow> journal_line \<Rightarrow> ledger_error + unit" where
  "check_hold s l = (if jl_account_id l \<in> ls_legal_hold_accounts s
     then Inl (AccountUnderLegalHold (jl_account_id l)) else Inr ())"

definition reversible :: "ledger_store \<Rightarrow> uuid \<Rightarrow> ledger_error + journal_entry" where
  "reversible s entry_id = (case find_last (ls_db s) entry_id of
       None \<Rightarrow> Inl (EntryNotFound entry_id)
     | Some found \<Rightarrow> (case get_by_sequence (ls_db s) (je_sequence found) of
         None \<Rightarrow> Inl (EntryNotFound entry_id)
       | Some original \<Rightarrow>
           if je_status original \<noteq> Posted then Inl (CannotReverse entry_id (je_status original))
           else case check_all (check_hold s) (je_lines original) of
               Inl err \<Rightarrow> Inl err
             | Inr _ \<Rightarrow> (case map_of (ls_reversal_event_index s) entry_id of
                 Some r \<Rightarrow> Inl (AlreadyReversed entry_id r)
               | None \<Rightarrow> Inr original)))"

definition reverse_entry :: "env \<Rightarrow> (nat \<Rightarrow> uuid) \<Rightarrow> (nat \<Rightarrow> timestamp) \<Rightarrow> uuid \<Rightarrow> string \<Rightarrow> string \<Rightarrow>
    ledger_store \<Rightarrow> ledger_store \<times> (ledger_error + uuid)" where
  "reverse_entry E uid now entry_id description domain s =
     (case reversible s entry_id of Inl err \<Rightarrow> (s, Inl err) | Inr original \<Rightarrow>
        let r = finalize_hashes (blake3 (eX E)) (ls_last_chain_hash s)
              ((reversal_of uid now entry_id description domain original)\<lparr>je_sequence := ls_next_sequence s, je_posted_at := now 2\<rparr>);
            s1 = s\<lparr>ls_next_sequence := ls_next_sequence s + 1\<rparr>;
            event = \<lparr> re_original_entry_id = entry_id, re_reversal_entry_id = je_id r, re_reversed_at = je_posted_at r \<rparr>
        in and_then (persist_row_pair E (now 3) TABLE_ENTRIES (enc_entry (eC E) r) (Some (je_prev_hash r))
               TABLE_REVERSAL_EVENTS (enc_reversal (eC E) event) s1) (\<lambda>s2 _.
             (index_entry r (update_balances (je_lines r) (s2\<lparr>ls_last_chain_hash := je_chain_hash r,
                ls_reversal_event_index := AList.update entry_id (je_id r) (ls_reversal_event_index s2)\<rparr>)),
              Inr (je_id r))))"

definition is_reversed :: "ledger_store \<Rightarrow> uuid \<Rightarrow> bool" where
  "is_reversed s entry_id \<longleftrightarrow> map_of (ls_reversal_event_index s) entry_id \<noteq> None"

definition reversed_by :: "ledger_store \<Rightarrow> uuid \<Rightarrow> uuid option" where
  "reversed_by s entry_id = map_of (ls_reversal_event_index s) entry_id"

subsection \<open>Settlement\<close>

definition apply_settlement_event :: "env \<Rightarrow> (nat \<Rightarrow> timestamp) \<Rightarrow> uuid \<Rightarrow> entry_status \<Rightarrow> string option \<Rightarrow>
    ledger_store \<Rightarrow> ledger_store \<times> (ledger_error + unit)" where
  "apply_settlement_event E now entry_id new_status notes s = (case find_last (ls_db s) entry_id of
       None \<Rightarrow> (s, Inl (EntryNotFound entry_id))
     | Some e \<Rightarrow> (case check_all (check_hold s) (je_lines e) of
         Inl err \<Rightarrow> (s, Inl err)
       | Inr _ \<Rightarrow>
           let event = \<lparr> se_entry_id = entry_id, se_new_status = new_status, se_settled_at = now 0, se_notes = notes \<rparr>
           in and_then (persist_row E (now 1) TABLE_SETTLEMENT_EVENTS (enc_settlement (eC E) event) Insert None s) (\<lambda>s1 _.
                (s1\<lparr>ls_settlement_event_index := AList.update entry_id new_status (ls_settlement_event_index s1)\<rparr>, Inr ()))))"

definition mark_pending where
  "mark_pending E now entry_id notes s = apply_settlement_event E now entry_id Pending notes s"

definition mark_settled where
  "mark_settled E now entry_id notes s = apply_settlement_event E now entry_id Settled notes s"

definition mark_failed where
  "mark_failed E now entry_id notes s = apply_settlement_event E now entry_id Failed notes s"

definition effective_status :: "ledger_store \<Rightarrow> uuid \<Rightarrow> entry_status" where
  "effective_status s entry_id = (case map_of (ls_settlement_event_index s) entry_id of
       Some st \<Rightarrow> st
     | None \<Rightarrow> if map_of (ls_reversal_event_index s) entry_id \<noteq> None then Reversed
         else (case find_last (ls_db s) entry_id of None \<Rightarrow> Posted | Some e \<Rightarrow> je_status e))"

subsection \<open>Queries\<close>

definition account_entries :: "ledger_store \<Rightarrow> account_id \<Rightarrow> journal_entry list" where
  "account_entries s a = entries_for_account (ls_db s) a"

definition all_accounts :: "ledger_store \<Rightarrow> account list" where
  "all_accounts s = map snd (ls_accounts s)"

definition entry_count :: "ledger_store \<Rightarrow> nat" where
  "entry_count s = db_count (ls_db s)"

definition DEFAULT_QUERY_LIMIT :: nat where "DEFAULT_QUERY_LIMIT = 10000"

definition normalise_status :: "string \<Rightarrow> string" where
  "normalise_status t = (case to_lowercase t of [] \<Rightarrow> [] | c # cs \<Rightarrow> to_uppercase [c] @ cs)"

definition entries_by_domain_limited :: "ledger_store \<Rightarrow> string \<Rightarrow> nat \<Rightarrow> journal_entry list" where
  "entries_by_domain_limited s domain limit = scan_by_domain (ls_db s) domain limit 0"

definition entries_by_domain :: "ledger_store \<Rightarrow> string \<Rightarrow> journal_entry list" where
  "entries_by_domain s domain = scan_by_domain (ls_db s) domain DEFAULT_QUERY_LIMIT 0"

definition entries_in_range :: "ledger_store \<Rightarrow> u64 \<Rightarrow> u64 \<Rightarrow> journal_entry list" where
  "entries_in_range s from_seq to_seq = scan_range (ls_db s) from_seq to_seq"

definition entries_by_status_limited :: "ledger_store \<Rightarrow> string \<Rightarrow> nat \<Rightarrow> journal_entry list" where
  "entries_by_status_limited s status limit = scan_by_status (ls_db s) (normalise_status status) limit 0"

definition entries_by_status :: "ledger_store \<Rightarrow> string \<Rightarrow> journal_entry list" where
  "entries_by_status s status = scan_by_status (ls_db s) (normalise_status status) DEFAULT_QUERY_LIMIT 0"

definition entries_by_external_ref :: "ledger_store \<Rightarrow> string \<Rightarrow> journal_entry list" where
  "entries_by_external_ref s r = scan_by_external_ref (ls_db s) r DEFAULT_QUERY_LIMIT"

definition entries_scan :: "ledger_store \<Rightarrow> nat \<Rightarrow> journal_entry list" where
  "entries_scan s limit = scan (ls_db s) None None limit 0"

definition get_entry_by_sequence :: "ledger_store \<Rightarrow> u64 \<Rightarrow> journal_entry option" where
  "get_entry_by_sequence s sq = get_by_sequence (ls_db s) sq"

text \<open>The callback of the chain verifiers; its state is the running \<^verbatim>\<open>prev_hash\<close>.\<close>

definition check_link :: "env \<Rightarrow> hash \<Rightarrow> journal_entry \<Rightarrow> hash \<times> (ledger_error + unit)" where
  "check_link E prev e =
     (if \<not> verify_hashes (blake3 (eX E)) e then (prev, Inl (LSerialization ''Hash chain broken''))
      else if je_prev_hash e \<noteq> prev then (prev, Inl (LSerialization ''Chain linkage broken''))
      else (je_chain_hash e, Inr ()))"

definition verify_chain_integrity :: "env \<Rightarrow> ledger_store \<Rightarrow> ledger_error + unit" where
  "verify_chain_integrity E s = snd (stream_all (check_link E) ZERO_HASH (ls_db s))"

definition verify_chain_range :: "env \<Rightarrow> ledger_store \<Rightarrow> u64 option \<Rightarrow> u64 option \<Rightarrow> ledger_error + nat \<times> hash" where
  "verify_chain_range E s from_seq to_seq =
     (let start = (case from_seq of None \<Rightarrow> 1 | Some q \<Rightarrow> q);
          finish = (case to_seq of None \<Rightarrow> - 1 | Some q \<Rightarrow> q)
      in case scan_range (ls_db s) start finish of
           [] \<Rightarrow> Inr (0, ZERO_HASH)
         | e # es \<Rightarrow> (case stream_fold (check_link E) (je_prev_hash e) (e # es) of
             (_, Inl err) \<Rightarrow> Inl err
           | (tip, Inr _) \<Rightarrow> Inr (length (e # es), tip)))"

definition ledger_checkpoint :: "env \<Rightarrow> ledger_store \<Rightarrow> ledger_store \<times> (ledger_error + u64)" where
  "ledger_checkpoint E s =
     (case table_merkle_root (eX E) TABLE_ENTRIES (ls_pages s) of
        (ps, Inl _) \<Rightarrow> (s\<lparr>ls_pages := ps\<rparr>, Inl (LSerialization ''page store''))
      | (ps, Inr root) \<Rightarrow> tm_step (s\<lparr>ls_pages := ps\<rparr>) (\<lambda>tm. checkpoint_signed (eX E) tm root))"

subsection \<open>Reconciliation\<close>

fun reconcile_delta :: "account_type \<Rightarrow> dr_cr \<Rightarrow> int \<Rightarrow> int" where
  "reconcile_delta t Debit a = a * normal_balance_sign t"
| "reconcile_delta t Credit a = - a * normal_balance_sign t"

definition recompute_line :: "ledger_store \<Rightarrow> (account_id \<times> int) list \<Rightarrow> journal_line \<Rightarrow> (account_id \<times> int) list" where
  "recompute_line s m l = (case map_of (ls_accounts s) (jl_account_id l) of
       None \<Rightarrow> m
     | Some acct \<Rightarrow> add_at (jl_account_id l)
         (reconcile_delta (acc_type acct) (jl_dr_cr l) (amount_as_i128 (jl_amount l))) m)"

definition recompute_entry :: "ledger_store \<Rightarrow> (account_id \<times> int) list \<Rightarrow> journal_entry \<Rightarrow> (account_id \<times> int) list" where
  "recompute_entry s m e = (if affects_balance (je_status e) then foldl (recompute_line s) m (je_lines e) else m)"

definition recompute :: "ledger_store \<Rightarrow> (account_id \<times> int) list" where
  "recompute s = foldl (recompute_entry s) [] (db_stream (ls_db s))"

definition discrepancy :: "ledger_store \<Rightarrow> (account_id \<times> int) list \<Rightarrow> account_id \<Rightarrow> reconciliation_discrepancy option" where
  "discrepancy s recomputed a =
     (let cached = get0 (ls_balance_cache s) a; computed = get0 recomputed a
      in if cached = computed then None
         else Some \<lparr> rd_account_id = a,
           rd_account_code = (case map_of (ls_accounts s) a of None \<Rightarrow> uuid_string a | Some acct \<Rightarrow> acc_code acct),
           rd_cached_balance = cached, rd_recomputed_balance = computed, rd_delta = computed - cached \<rparr>)"

definition reconcile :: "ledger_store \<Rightarrow> reconciliation_discrepancy list" where
  "reconcile s = List.map_filter (discrepancy s (recompute s))
     (remdups (map fst (ls_accounts s) @ map fst (ls_balance_cache s)))"

text \<open>\<^verbatim>\<open>next_sequence.saturating_sub(1)\<close>.\<close>

definition current_snapshot :: "ledger_store \<Rightarrow> u64" where
  "current_snapshot s = (if ls_next_sequence s = 0 then 0 else ls_next_sequence s - 1)"

definition reconcile_and_record :: "env \<Rightarrow> uuid \<Rightarrow> (nat \<Rightarrow> timestamp) \<Rightarrow> ledger_store \<Rightarrow>
    ledger_store \<times> (ledger_error + reconciliation_discrepancy list \<times> reconciliation_record)" where
  "reconcile_and_record E uid now s =
     (let ds = reconcile s;
          r = \<lparr> rc_id = uid, rc_run_at = now 0, rc_entries_scanned = of_nat (entry_count s),
            rc_accounts_checked = of_nat (length (ls_accounts s)), rc_discrepancy_count = of_nat (length ds),
            rc_discrepancy_json = discrepancies_json (eC E) ds, rc_ledger_sequence_at_run = current_snapshot s,
            rc_chain_tip_at_run = hex_encode (hash_raw (ls_last_chain_hash s)) \<rparr>
      in and_then (persist_row E (now 1) TABLE_RECONCILIATION_EVENTS (enc_recon (eC E) r) Insert None s)
           (\<lambda>s1 _. (s1, Inr (ds, r))))"

definition reconciliation_history :: "ledger_store \<Rightarrow> reconciliation_record list" where
  "reconciliation_history s = ls_reconciliation_history s"

definition invariant_sums :: "ledger_store \<Rightarrow> int \<times> int" where
  "invariant_sums s = foldl (\<lambda>(d, c) acct.
     let b = get0 (ls_balance_cache s) (acc_id acct) in
     case acc_type acct of
       Asset \<Rightarrow> (d + b, c) | Expense \<Rightarrow> (d + b, c)
     | Liability \<Rightarrow> (d, c + b) | Equity \<Rightarrow> (d, c + b) | Income \<Rightarrow> (d, c + b)
     | Contra \<Rightarrow> (d, c) | Suspense \<Rightarrow> (d, c)) (0, 0) (all_accounts s)"

definition check_financial_invariants :: "ledger_store \<Rightarrow> int \<times> int + unit" where
  "check_financial_invariants s =
     (let (d, c) = invariant_sums s in if d \<noteq> c then Inl (d, c) else Inr ())"

definition register_currency :: "currency \<Rightarrow> ledger_store \<Rightarrow> ledger_store" where
  "register_currency c s = s\<lparr>ls_currency_registry := currency_register c (ls_currency_registry s)\<rparr>"

subsection \<open>Snapshots\<close>

definition snapshot_delta :: "account_id \<Rightarrow> bool \<Rightarrow> journal_line \<Rightarrow> int" where
  "snapshot_delta a is_debit_normal l = (if jl_account_id l \<noteq> a then 0
     else normal_delta is_debit_normal (jl_dr_cr l) (amount_as_i128 (jl_amount l)))"

definition balance_at_snapshot :: "ledger_store \<Rightarrow> account_id \<Rightarrow> u64 \<Rightarrow> int" where
  "balance_at_snapshot s a snapshot_seq = (case map_of (ls_accounts s) a of
       None \<Rightarrow> 0
     | Some acct \<Rightarrow> foldl (\<lambda>bal e.
         if je_sequence e > snapshot_seq then bal
         else if \<not> affects_balance (je_status e) then bal
         else foldl (\<lambda>b l. b + snapshot_delta a (debit_normal (acc_type acct)) l) bal (je_lines e))
         0 (entries_for_account (ls_db s) a))"

definition entries_at_snapshot :: "ledger_store \<Rightarrow> u64 \<Rightarrow> journal_entry list" where
  "entries_at_snapshot s snapshot_seq = scan_range (ls_db s) 1 snapshot_seq"

end
