(* ===== verification/Ledger_Open.thy ===== *)
theory Ledger_Open
  imports Ledger_Store
begin

text \<open>
  \<^verbatim>\<open>store.rs\<close> and \<^verbatim>\<open>wal_checkpoint.rs\<close>: opening a ledger and replaying its log.

  A data directory holds the log, the page files, the query index and the startup checkpoint.
  The advisory lock is a flag; the signing key that \<^verbatim>\<open>load_signing_key\<close> finds is an argument.
  The SQLite transactions \<^verbatim>\<open>begin_bulk\<close> and \<^verbatim>\<open>commit_bulk\<close> and the full-text index have no
  counterpart.
\<close>

subsection \<open>The data directory\<close>

record wal_startup_checkpoint =
  wc_sqlite_max_sequence :: u64
  wc_first_needed_segment :: u64

record data_dir =
  dd_wal :: os
  dd_page_files :: "(page_file \<times> bytes) list"
  dd_page_faults :: "io_outcome list"
  dd_page_rng :: "nat \<Rightarrow> bytes"
  dd_db :: entry_db
  dd_checkpoint :: "wal_startup_checkpoint option"
  dd_checkpoint_writable :: bool
  dd_locked :: bool

definition wal_checkpoint_write :: "data_dir \<Rightarrow> wal_startup_checkpoint \<Rightarrow> data_dir" where
  "wal_checkpoint_write d cp = (if dd_checkpoint_writable d then d\<lparr>dd_checkpoint := Some cp\<rparr> else d)"

subsection \<open>Replay\<close>

definition decode_row :: "(bytes \<Rightarrow> string + 'a) \<Rightarrow> bytes \<Rightarrow> ledger_error + 'a" where
  "decode_row f bs = map_err LSerialization (f bs)"

text \<open>An entry row; the second component is \<^verbatim>\<open>sqlite_is_current\<close>.\<close>

definition replay_entry :: "bool \<Rightarrow> u64 \<Rightarrow> journal_entry \<Rightarrow> ledger_store \<times> bool \<Rightarrow> ledger_store \<times> bool" where
  "replay_entry import_mode sqlite_max_seq e q =
     (let s = (advance_sequence (je_sequence e) (fst q))\<lparr>ls_last_chain_hash := je_chain_hash e\<rparr>;
          next_page = (\<lambda>s. s\<lparr>ls_next_entry_page := ls_next_entry_page s + 1\<rparr>)
      in if import_mode then (next_page s, snd q)
         else if snd q then
           if je_sequence e > sqlite_max_seq
           then (index_entry e (next_page (apply_balances e s)), False)
           else (next_page s, True)
         else
           let s1 = next_page (apply_balances e s)
           in (if je_sequence e \<le> sqlite_max_seq then s1 else index_entry e s1, False))"

definition replay_payload :: "env \<Rightarrow> bool \<Rightarrow> u64 \<Rightarrow> ledger_store \<times> bool \<Rightarrow> data_payload \<Rightarrow>
    (ledger_store \<times> bool) \<times> (ledger_error + unit)" where
  "replay_payload E import_mode sqlite_max_seq q p =
     (let row = dp_row_data p; t = dp_table_id p; C = eC E;
          on = (\<lambda>f. (apfst f q, Inr ())) in
      if dp_mutation p = Delete then
        if t = TABLE_ACCOUNTS
        then (case decode_row (dec_account C) row of Inl err \<Rightarrow> (q, Inl err) | Inr a \<Rightarrow> on (apply_account a))
        else (q, Inr ())
      else if t = TABLE_ACCOUNTS
        then (case decode_row (dec_account C) row of Inl err \<Rightarrow> (q, Inl err) | Inr a \<Rightarrow> on (apply_account a))
      else if t = TABLE_ENTRIES
        then (case decode_row (dec_entry C) row of Inl err \<Rightarrow> (q, Inl err)
              | Inr e \<Rightarrow> (replay_entry import_mode sqlite_max_seq e q, Inr ()))
      else if t = TABLE_REVERSAL_EVENTS
        then (case decode_row (dec_reversal C) row of Inl err \<Rightarrow> (q, Inl err)
              | Inr ev \<Rightarrow> on (\<lambda>s. s\<lparr>ls_reversal_event_index :=
                  AList.update (re_original_entry_id ev) (re_reversal_entry_id ev) (ls_reversal_event_index s)\<rparr>))
      else if t = TABLE_SETTLEMENT_EVENTS
        then (case decode_row (dec_settlement C) row of Inl err \<Rightarrow> (q, Inl err)
              | Inr ev \<Rightarrow> on (\<lambda>s. s\<lparr>ls_settlement_event_index :=
                  AList.update (se_entry_id ev) (se_new_status ev) (ls_settlement_event_index s)\<rparr>))
      else if t = TABLE_RECONCILIATION_EVENTS
        then (case decode_row (dec_recon C) row of Inl err \<Rightarrow> (q, Inl err)
              | Inr r \<Rightarrow> on (\<lambda>s. s\<lparr>ls_reconciliation_history := ls_reconciliation_history s @ [r]\<rparr>))
      else (q, Inr ()))"

fun replay_payloads :: "env \<Rightarrow> bool \<Rightarrow> u64 \<Rightarrow> ledger_store \<times> bool \<Rightarrow> data_payload list \<Rightarrow>
    (ledger_store \<times> bool) \<times> (ledger_error + unit)" where
  "replay_payloads E import_mode mx q [] = (q, Inr ())"
| "replay_payloads E import_mode mx q (p # ps) =
     and_then (replay_payload E import_mode mx q p) (\<lambda>q1 _. replay_payloads E import_mode mx q1 ps)"

definition replay_tx :: "env \<Rightarrow> bool \<Rightarrow> u64 \<Rightarrow> ledger_store \<times> bool \<Rightarrow> committed_transaction \<Rightarrow>
    (ledger_store \<times> bool) \<times> (ledger_error + unit)" where
  "replay_tx E import_mode mx q t = replay_payloads E import_mode mx q (ct_data_payloads t)"

definition load_accounts :: "nat \<Rightarrow> bool \<Rightarrow> ledger_store \<Rightarrow> ledger_store" where
  "load_accounts start_segment import_mode s =
     (if start_segment > 0 \<and> \<not> import_mode
      then foldl (\<lambda>s a. apply_account a s) s (load_all_accounts (ls_db s)) else s)"

text \<open>The last step, when the index had every entry of the log.\<close>

definition finish_replay :: "ledger_store \<Rightarrow> ledger_store" where
  "finish_replay s =
     s\<lparr>ls_next_sequence := max_sequence (ls_db s) + 1,
       ls_last_chain_hash := (case db_chain_tip (ls_db s) of None \<Rightarrow> ls_last_chain_hash s | Some h \<Rightarrow> h),
       ls_balance_cache := rebuild_balance_cache (ls_accounts s) (ls_balance_cache s) (ls_db s)\<rparr>"

definition replay_from_wal_mode :: "env \<Rightarrow> os \<Rightarrow> wal_startup_checkpoint option \<Rightarrow> bool \<Rightarrow> ledger_store \<Rightarrow>
    ledger_store \<times> (ledger_error + unit)" where
  "replay_from_wal_mode E wal_dir cp import_mode s =
     (let start_segment = (case cp of None \<Rightarrow> 0 | Some c \<Rightarrow> unat (wc_first_needed_segment c));
          sqlite_max_seq = (if import_mode then 0 else max_sequence (ls_db s));
          current = (\<not> import_mode \<and> sqlite_max_seq > 0);
          s1 = load_accounts start_segment import_mode s
      in case recover_streaming (eX E) wal_dir None (signing_pubkey (eX E) (ls_tm s) \<noteq> None) None start_segment
               LWal (replay_tx E import_mode sqlite_max_seq) (s1, current) of
           (q, Inl err) \<Rightarrow> (fst q, Inl err)
         | (q, Inr _) \<Rightarrow> (if snd q then finish_replay (fst q) else fst q, Inr ()))"

subsection \<open>Opening\<close>

definition write_startup_checkpoint :: "data_dir \<Rightarrow> ledger_store \<Rightarrow> data_dir" where
  "write_startup_checkpoint d s =
     (let sqlite_max = max_sequence (ls_db s); segs = list_segments (dd_wal d) in
      if sqlite_max > 0
      then wal_checkpoint_write d \<lparr> wc_sqlite_max_sequence = sqlite_max,
        wc_first_needed_segment = of_nat (if segs = [] then 0 else last segs) \<rparr>
      else d)"

definition open_mode :: "env \<Rightarrow> bool \<Rightarrow> data_dir \<Rightarrow> bytes option \<Rightarrow> wal_sync_mode \<Rightarrow>
    data_dir \<times> (ledger_error + ledger_store)" where
  "open_mode E import_mode d sk mode =
     (case tm_open (eX E) (dd_wal d) sk mode of
        (w, Inl err) \<Rightarrow> (d\<lparr>dd_wal := w\<rparr>, Inl (LTransaction err))
      | (w, Inr tm) \<Rightarrow>
          let d1 = d\<lparr>dd_wal := w\<rparr> in
          (case page_store_open DEFAULT_PAGE_SIZE (dd_page_files d) (dd_page_faults d) (dd_page_rng d) of
             Inl err \<Rightarrow> (d1, Inl (LPage err))
           | Inr ps \<Rightarrow>
               if dd_locked d then (d1, Inl LIo)
               else (case replay_from_wal_mode E w (dd_checkpoint d) import_mode
                            (ledger_store_init tm ps (dd_db d)) of
                   (s, Inl err) \<Rightarrow> (d1\<lparr>dd_db := ls_db s\<rparr>, Inl err)
                 | (s, Inr _) \<Rightarrow> (write_startup_checkpoint (d1\<lparr>dd_db := ls_db s, dd_locked := True\<rparr>) s, Inr s))))"

definition open_with_sync_mode :: "env \<Rightarrow> data_dir \<Rightarrow> bytes option \<Rightarrow> wal_sync_mode \<Rightarrow>
    data_dir \<times> (ledger_error + ledger_store)" where
  "open_with_sync_mode E d sk mode = open_mode E False d sk mode"

definition ledger_open :: "env \<Rightarrow> data_dir \<Rightarrow> bytes option \<Rightarrow> data_dir \<times> (ledger_error + ledger_store)" where
  "ledger_open E d sk = open_with_sync_mode E d sk GroupCommit"

definition open_for_import :: "env \<Rightarrow> data_dir \<Rightarrow> bytes option \<Rightarrow> wal_sync_mode \<Rightarrow>
    data_dir \<times> (ledger_error + ledger_store)" where
  "open_for_import E d sk mode = open_mode E True d sk mode"

end
