(* ===== verification/Ledger_Inv.thy ===== *)
theory Ledger_Inv
  imports Ledger_Open
begin

text \<open>
  The books of a ledger (everything but the log, the pages and the cursors), what each
  operation does to them, and the invariant of the reachable states.
\<close>

subsection \<open>The books\<close>

record book =
  b_db :: entry_db
  b_accounts :: "(account_id \<times> account) list"
  b_cache :: "(account_id \<times> int) list"
  b_next :: u64
  b_tip :: hash
  b_reversals :: "(uuid \<times> uuid) list"
  b_settlements :: "(uuid \<times> entry_status) list"
  b_history :: "reconciliation_record list"
  b_holds :: "account_id set"
  b_currencies :: currency_registry

definition books :: "ledger_store \<Rightarrow> book" where
  "books s = \<lparr> b_db = ls_db s, b_accounts = ls_accounts s, b_cache = ls_balance_cache s,
     b_next = ls_next_sequence s, b_tip = ls_last_chain_hash s, b_reversals = ls_reversal_event_index s,
     b_settlements = ls_settlement_event_index s, b_history = ls_reconciliation_history s,
     b_holds = ls_legal_hold_accounts s, b_currencies = ls_currency_registry s \<rparr>"

lemma books_frame [simp]:
  "books (s\<lparr>ls_tm := x1\<rparr>) = books s" "books (s\<lparr>ls_pages := x2\<rparr>) = books s"
  "books (s\<lparr>ls_next_account_page := x3\<rparr>) = books s" "books (s\<lparr>ls_next_entry_page := x4\<rparr>) = books s"
  "books (s\<lparr>ls_last_committed_entry_bytes := x5\<rparr>) = books s"
  by (simp_all add: books_def)

lemma books_fields [simp]:
  "b_db (books s) = ls_db s" "b_accounts (books s) = ls_accounts s" "b_cache (books s) = ls_balance_cache s"
  "b_next (books s) = ls_next_sequence s" "b_tip (books s) = ls_last_chain_hash s"
  "b_reversals (books s) = ls_reversal_event_index s" "b_settlements (books s) = ls_settlement_event_index s"
  "b_history (books s) = ls_reconciliation_history s" "b_holds (books s) = ls_legal_hold_accounts s"
  "b_currencies (books s) = ls_currency_registry s"
  by (simp_all add: books_def)

lemma books_update [simp]:
  "books (s\<lparr>ls_db := x1\<rparr>) = (books s)\<lparr>b_db := x1\<rparr>"
  "books (s\<lparr>ls_accounts := x2\<rparr>) = (books s)\<lparr>b_accounts := x2\<rparr>"
  "books (s\<lparr>ls_balance_cache := x3\<rparr>) = (books s)\<lparr>b_cache := x3\<rparr>"
  "books (s\<lparr>ls_next_sequence := x4\<rparr>) = (books s)\<lparr>b_next := x4\<rparr>"
  "books (s\<lparr>ls_last_chain_hash := x5\<rparr>) = (books s)\<lparr>b_tip := x5\<rparr>"
  "books (s\<lparr>ls_reversal_event_index := x6\<rparr>) = (books s)\<lparr>b_reversals := x6\<rparr>"
  "books (s\<lparr>ls_settlement_event_index := x7\<rparr>) = (books s)\<lparr>b_settlements := x7\<rparr>"
  "books (s\<lparr>ls_reconciliation_history := x8\<rparr>) = (books s)\<lparr>b_history := x8\<rparr>"
  "books (s\<lparr>ls_legal_hold_accounts := x9\<rparr>) = (books s)\<lparr>b_holds := x9\<rparr>"
  "books (s\<lparr>ls_currency_registry := x10\<rparr>) = (books s)\<lparr>b_currencies := x10\<rparr>"
  by (simp_all add: books_def)

lemma books_eqD:
  assumes "books s' = books s"
  shows "ls_db s' = ls_db s" "ls_accounts s' = ls_accounts s" "ls_balance_cache s' = ls_balance_cache s"
    "ls_next_sequence s' = ls_next_sequence s" "ls_last_chain_hash s' = ls_last_chain_hash s"
    "ls_reversal_event_index s' = ls_reversal_event_index s"
    "ls_settlement_event_index s' = ls_settlement_event_index s"
    "ls_reconciliation_history s' = ls_reconciliation_history s"
    "ls_legal_hold_accounts s' = ls_legal_hold_accounts s" "ls_currency_registry s' = ls_currency_registry s"
  using assms by (simp_all add: books_def)

lemma books_tm_step: "books (fst (tm_step s f)) = books s"
  by (simp add: tm_step_def lift_tm_def)

text \<open>A step that keeps the books followed by one that keeps them.\<close>

lemma books_and_then:
  assumes "books (fst r) = books s" "\<And>s1 a. books s1 = books s \<Longrightarrow> books (fst (f s1 a)) = books s"
  shows "books (fst (and_then r f)) = books s"
  using assms by (cases r; cases "snd r") auto

lemma books_write_to_page: "books (fst (write_to_page E t row c s)) = books s"
  by (auto simp: write_to_page_def split: prod.splits sum.splits)

lemma books_persist_row: "books (fst (persist_row E now t row kind prev s)) = books s"
  unfolding persist_row_def
  by (auto intro!: books_and_then simp: books_write_to_page books_tm_step Let_def)

lemma books_persist_row_pair: "books (fst (persist_row_pair E now ta da pa tb db s)) = books s"
  unfolding persist_row_pair_def
  by (auto intro!: books_and_then simp: books_write_to_page books_tm_step Let_def)

lemma books_ledger_checkpoint: "books (fst (ledger_checkpoint E s)) = books s"
  by (auto simp: ledger_checkpoint_def books_tm_step split: prod.splits sum.splits)

subsection \<open>The abstract ledger\<close>

text \<open>
  The specification that the store refines: operations on books without pages, log or
  failures.  \<open>entry_cache\<close> adds an entry to the balances.
\<close>

definition line_cache :: "(account_id \<times> account) list \<Rightarrow> (account_id \<times> int) list \<Rightarrow> journal_line \<Rightarrow> (account_id \<times> int) list" where
  "line_cache accts cache l = (case map_of accts (jl_account_id l) of
       None \<Rightarrow> cache
     | Some acct \<Rightarrow> add_at (jl_account_id l)
         (normal_delta (debit_normal (acc_type acct)) (jl_dr_cr l) (amount_as_i128 (jl_amount l))) cache)"

definition entry_cache :: "(account_id \<times> account) list \<Rightarrow> journal_entry \<Rightarrow> (account_id \<times> int) list \<Rightarrow> (account_id \<times> int) list" where
  "entry_cache accts e cache = (if affects_balance (je_status e) then foldl (line_cache accts) cache (je_lines e) else cache)"

definition book_entry :: "journal_entry \<Rightarrow> book \<Rightarrow> book" where
  "book_entry e b = b\<lparr>b_db := insert_lines e (db_insert e (b_db b)), b_cache := entry_cache (b_accounts b) e (b_cache b),
     b_next := b_next b + 1, b_tip := je_chain_hash e\<rparr>"

definition book_account :: "account \<Rightarrow> book \<Rightarrow> book" where
  "book_account a b = b\<lparr>b_accounts := AList.update (acc_id a) a (b_accounts b),
     b_holds := (if acc_legal_hold a then insert (acc_id a) (b_holds b) else b_holds b - {acc_id a})\<rparr>"

lemma foldl_line_cache:
  "foldl (line_cache (ls_accounts s)) (ls_balance_cache s) ls = ls_balance_cache (update_balances ls s) \<and>
   books (update_balances ls s) = (books s)\<lparr>b_cache := ls_balance_cache (update_balances ls s)\<rparr>"
proof (induction ls arbitrary: s)
  case (Cons l ls)
  let ?s = "update_balance_cache (jl_account_id l) (amount_as_i128 (jl_amount l)) (jl_dr_cr l) s"
  have u: "update_balances (l # ls) s = update_balances ls ?s" by (simp add: update_balances_def)
  have a: "ls_accounts ?s = ls_accounts s" "ls_balance_cache ?s = line_cache (ls_accounts s) (ls_balance_cache s) l"
    "books ?s = (books s)\<lparr>b_cache := ls_balance_cache ?s\<rparr>"
    by (auto simp: update_balance_cache_def line_cache_def books_def split: option.splits)
  from Cons [of ?s] show ?case unfolding u by (simp add: a)
qed (simp add: update_balances_def books_def)

lemma books_apply_balances:
  "books (apply_balances e s) = (books s)\<lparr>b_cache := entry_cache (ls_accounts s) e (ls_balance_cache s)\<rparr>"
  using foldl_line_cache [of s "je_lines e"] by (simp add: apply_balances_def entry_cache_def books_def)

lemma books_index_entry: "books (index_entry e s) = (books s)\<lparr>b_db := insert_lines e (db_insert e (ls_db s))\<rparr>"
  by (simp add: index_entry_def books_def)

lemma books_apply_account: "books (apply_account a s) = book_account a (books s)"
  by (simp add: apply_account_def book_account_def books_def)

text \<open>Recording an entry in memory and in the index, when the log has it.\<close>

lemma books_record:
  assumes "books t = (books s)\<lparr>b_next := b_next (books s) + 1, b_tip := je_chain_hash e\<rparr>"
  shows "books (index_entry e (apply_balances e t)) = book_entry e (books s)"
proof -
  have t: "ls_db (apply_balances e t) = ls_db t"
    using arg_cong [OF books_apply_balances, of b_db e t] by (simp add: books_def)
  show ?thesis
    unfolding books_index_entry books_apply_balances t using assms
    by (simp add: book_entry_def books_def)
qed

text \<open>A write to the log either fails and keeps the books or is followed by the rest.\<close>

lemma persist_cases:
  assumes "and_then p f = (s', r)" "books (fst p) = books s"
  obtains (failed) err where "r = Inl err" "books s' = books s"
  | (stored) s1 v where "p = (s1, Inr v)" "books s1 = books s" "f s1 v = (s', r)"
  using assms by (cases p; cases "snd p") auto

lemmas persist_row_cases [consumes 1, case_names failed stored] = persist_cases [OF _ books_persist_row]
lemmas persist_row_pair_cases [consumes 1, case_names failed stored] = persist_cases [OF _ books_persist_row_pair]

subsection \<open>Operations on the books\<close>

lemma create_account_books:
  assumes "create_account E now a s = (s', r)"
  shows "(\<exists>err. r = Inl err) \<and> books s' = books s \<or>
     r = Inr (acc_id a) \<and> books s' = book_account a ((books s)\<lparr>b_db := upsert_account a (ls_db s)\<rparr>)"
  using assms unfolding create_account_def
proof (cases rule: persist_row_cases)
  case (stored s1 v)
  note eq = books_eqD(1) [OF stored(2)]
  from stored(3) have "s' = apply_account a (s1\<lparr>ls_db := upsert_account a (ls_db s1)\<rparr>)" "r = Inr (acc_id a)" by simp_all
  then show ?thesis by (simp add: books_apply_account stored(2) eq)
qed simp

lemma close_account_books:
  assumes "close_account E now a s = (s', r)"
  shows "r = Inl (AccountNotFound a) \<and> s' = s \<or>
     (\<exists>acct. map_of (ls_accounts s) a = Some acct \<and>
        (let acct' = acct\<lparr>acc_status := AccountIsClosed\<rparr>;
             b = (books s)\<lparr>b_accounts := AList.update a acct' (ls_accounts s)\<rparr>
         in (\<exists>err. r = Inl err) \<and> books s' = b \<or>
            r = Inr () \<and> books s' = b\<lparr>b_db := upsert_account acct' (ls_db s)\<rparr>))"
proof (cases "map_of (ls_accounts s) a")
  case None
  with assms show ?thesis by (simp add: close_account_def)
next
  case (Some acct)
  let ?acct = "acct\<lparr>acc_status := AccountIsClosed\<rparr>"
  let ?s = "s\<lparr>ls_accounts := AList.update a ?acct (ls_accounts s)\<rparr>"
  let ?b = "(books s)\<lparr>b_accounts := AList.update a ?acct (ls_accounts s)\<rparr>"
  have b: "books ?s = ?b" by simp
  from assms Some have "and_then (persist_row E now TABLE_ACCOUNTS (enc_account (eC E) ?acct) Delete None ?s) (\<lambda>s2 _.
      ((case map_of (ls_accounts s2) a of None \<Rightarrow> s2 | Some b \<Rightarrow> s2\<lparr>ls_db := upsert_account b (ls_db s2)\<rparr>), Inr ())) =
      (s', r)" by (simp add: close_account_def Let_def)
  then have "(\<exists>err. r = Inl err) \<and> books s' = ?b \<or> r = Inr () \<and> books s' = ?b\<lparr>b_db := upsert_account ?acct (ls_db s)\<rparr>"
  proof (cases rule: persist_row_cases)
    case (failed err)
    then show ?thesis by (simp add: b)
  next
    case (stored s1 v)
    from books_eqD(1,2) [OF stored(2)] have eq: "ls_accounts s1 = AList.update a ?acct (ls_accounts s)" "ls_db s1 = ls_db s"
      by simp_all
    from stored(3) have "s' = s1\<lparr>ls_db := upsert_account ?acct (ls_db s)\<rparr>" "r = Inr ()" by (simp_all add: eq)
    then show ?thesis by (simp add: stored(2))
  qed
  with Some show ?thesis by (simp add: Let_def)
qed

lemma set_legal_hold_books:
  assumes "set_legal_hold E now a hold s = (s', r)"
  shows "r = Inl (AccountNotFound a) \<and> s' = s \<or>
     (\<exists>acct. map_of (ls_accounts s) a = Some acct \<and>
        (let b = (books s)\<lparr>b_accounts := AList.update a (acct\<lparr>acc_legal_hold := hold\<rparr>) (ls_accounts s)\<rparr>
         in (\<exists>err. r = Inl err) \<and> books s' = b \<or>
            r = Inr () \<and> books s' = b\<lparr>b_holds := (if hold then insert a (ls_legal_hold_accounts s) else ls_legal_hold_accounts s - {a})\<rparr>))"
proof (cases "map_of (ls_accounts s) a")
  case None
  with assms show ?thesis by (simp add: set_legal_hold_def)
next
  case (Some acct)
  let ?acct = "acct\<lparr>acc_legal_hold := hold\<rparr>"
  let ?s = "s\<lparr>ls_accounts := AList.update a ?acct (ls_accounts s)\<rparr>"
  from assms Some have "and_then (persist_row E now TABLE_ACCOUNTS (enc_account (eC E) ?acct) Delete None ?s) (\<lambda>s2 _.
      (s2\<lparr>ls_legal_hold_accounts := (if hold then insert a (ls_legal_hold_accounts s2)
         else ls_legal_hold_accounts s2 - {a})\<rparr>, Inr ())) = (s', r)" by (simp add: set_legal_hold_def Let_def)
  then have "(\<exists>err. r = Inl err) \<and> books s' = books ?s \<or>
      r = Inr () \<and> books s' = (books ?s)\<lparr>b_holds := (if hold then insert a (ls_legal_hold_accounts s) else ls_legal_hold_accounts s - {a})\<rparr>"
  proof (cases rule: persist_row_cases)
    case (stored s1 v)
    note eq = books_eqD(9) [OF stored(2)]
    from stored(3) show ?thesis by (auto simp: stored(2) eq)
  qed simp
  with Some show ?thesis unfolding Let_def books_update by blast
qed

lemma post_entry_cases:
  assumes "post_entry E now e s = (s', r)"
  obtains (rejected) err where "r = Inl err" "s' = s"
  | (duplicate) q where "r = Inr q" "s' = s" "validate e = Inr ()" "duplicate_sequence s e = Some q"
  | (failed) err where "r = Inl err" "books s' = (books s)\<lparr>b_next := ls_next_sequence s + 1\<rparr>"
  | (posted) "r = Inr (ls_next_sequence s)" "validate e = Inr ()" "duplicate_sequence s e = None"
      "check_entry s e = Inr ()" "books s' = book_entry (number_entry E (now 0) e s) (books s)"
proof (cases "validate e")
  case (Inl err)
  with assms show ?thesis by (intro rejected [of err]) (simp_all add: post_entry_def)
next
  case v: (Inr u)
  show ?thesis
  proof (cases "duplicate_sequence s e")
    case (Some q)
    with assms v show ?thesis by (intro duplicate [of q]) (simp_all add: post_entry_def)
  next
    case d: None
    show ?thesis
    proof (cases "check_entry s e")
      case (Inl err)
      with assms v d show ?thesis by (intro rejected [of err]) (simp_all add: post_entry_def)
    next
      case c: (Inr u)
      let ?e = "number_entry E (now 0) e s" and ?s = "s\<lparr>ls_next_sequence := ls_next_sequence s + 1\<rparr>"
      let ?row = "enc_entry (eC E) ?e"
      from assms v d c have "and_then (persist_row E (now 1) TABLE_ENTRIES ?row Insert (Some (je_prev_hash ?e)) ?s) (\<lambda>s2 _.
          (index_entry ?e (apply_balances ?e (s2\<lparr>ls_last_committed_entry_bytes := Some ?row,
             ls_last_chain_hash := je_chain_hash ?e\<rparr>)), Inr (je_sequence ?e))) = (s', r)"
        by (simp add: post_entry_def Let_def)
      then show ?thesis
      proof (cases rule: persist_row_cases)
        case (stored s1 x)
        let ?t = "s1\<lparr>ls_last_committed_entry_bytes := Some ?row, ls_last_chain_hash := je_chain_hash ?e\<rparr>"
        have "books ?t = (books s)\<lparr>b_next := b_next (books s) + 1, b_tip := je_chain_hash ?e\<rparr>"
          by (simp add: stored(2))
        from books_record [OF this] stored(3) have "books s' = book_entry ?e (books s)" "r = Inr (je_sequence ?e)" by auto
        with posted v d c show ?thesis by (simp add: number_entry_def)
      qed (use failed in simp)
    qed
  qed
qed

lemma reverse_entry_cases:
  assumes "reverse_entry E uid now entry_id description domain s = (s', r)"
  obtains (rejected) err where "r = Inl err" "s' = s"
  | (failed) err where "r = Inl err" "books s' = (books s)\<lparr>b_next := ls_next_sequence s + 1\<rparr>"
  | (reversed) original e where "reversible s entry_id = Inr original"
      "e = finalize_hashes (blake3 (eX E)) (ls_last_chain_hash s)
         ((reversal_of uid now entry_id description domain original)\<lparr>je_sequence := ls_next_sequence s, je_posted_at := now 2\<rparr>)"
      "r = Inr (uid (length (je_lines original)))"
      "books s' = (book_entry e (books s))\<lparr>b_reversals :=
         AList.update entry_id (uid (length (je_lines original))) (ls_reversal_event_index s)\<rparr>"
proof (cases "reversible s entry_id")
  case (Inl err)
  with assms show ?thesis by (intro rejected [of err]) (simp_all add: reverse_entry_def)
next
  case (Inr original)
  define e where "e = finalize_hashes (blake3 (eX E)) (ls_last_chain_hash s)
    ((reversal_of uid now entry_id description domain original)\<lparr>je_sequence := ls_next_sequence s, je_posted_at := now 2\<rparr>)"
  let ?s = "s\<lparr>ls_next_sequence := ls_next_sequence s + 1\<rparr>"
  let ?ev = "\<lparr> re_original_entry_id = entry_id, re_reversal_entry_id = je_id e, re_reversed_at = je_posted_at e \<rparr>"
  have st: "affects_balance (je_status e)" and i: "je_id e = uid (length (je_lines original))"
    by (simp_all add: e_def finalize_hashes_def precompute_content_hash_def reversal_of_def affects_balance_def)
  from assms Inr have "and_then (persist_row_pair E (now 3) TABLE_ENTRIES (enc_entry (eC E) e) (Some (je_prev_hash e))
        TABLE_REVERSAL_EVENTS (enc_reversal (eC E) ?ev) ?s) (\<lambda>s2 _.
      (index_entry e (update_balances (je_lines e) (s2\<lparr>ls_last_chain_hash := je_chain_hash e,
         ls_reversal_event_index := AList.update entry_id (je_id e) (ls_reversal_event_index s2)\<rparr>)), Inr (je_id e))) = (s', r)"
    by (simp add: reverse_entry_def e_def Let_def)
  then show ?thesis
  proof (cases rule: persist_row_pair_cases)
    case (stored s1 x)
    let ?t = "s1\<lparr>ls_last_chain_hash := je_chain_hash e,
         ls_reversal_event_index := AList.update entry_id (je_id e) (ls_reversal_event_index s1)\<rparr>"
    let ?u = "s\<lparr>ls_reversal_event_index := AList.update entry_id (je_id e) (ls_reversal_event_index s)\<rparr>"
    have "books ?t = (books ?u)\<lparr>b_next := b_next (books ?u) + 1, b_tip := je_chain_hash e\<rparr>"
      using books_eqD(6) [OF stored(2)] by (simp add: stored(2))
    from books_record [OF this] stored(3) st have "books s' = book_entry e (books ?u)" "r = Inr (je_id e)"
      by (auto simp: apply_balances_def)
    moreover have "book_entry e (books ?u) = (book_entry e (books s))\<lparr>b_reversals :=
        AList.update entry_id (je_id e) (ls_reversal_event_index s)\<rparr>" by (simp add: book_entry_def)
    ultimately show ?thesis using reversed [OF Inr e_def] i by simp
  qed (use failed in simp)
qed

lemma settlement_cases:
  assumes "apply_settlement_event E now entry_id st notes s = (s', r)"
  obtains (rejected) err where "r = Inl err" "s' = s"
  | (failed) err where "r = Inl err" "books s' = books s"
  | (settled) e where "find_last (ls_db s) entry_id = Some e" "check_all (check_hold s) (je_lines e) = Inr ()" "r = Inr ()"
      "books s' = (books s)\<lparr>b_settlements := AList.update entry_id st (ls_settlement_event_index s)\<rparr>"
proof (cases "find_last (ls_db s) entry_id")
  case None
  with assms show ?thesis by (intro rejected [of "EntryNotFound entry_id"]) (simp_all add: apply_settlement_event_def)
next
  case f: (Some e)
  show ?thesis
  proof (cases "check_all (check_hold s) (je_lines e)")
    case (Inl err)
    with assms f show ?thesis by (intro rejected [of err]) (simp_all add: apply_settlement_event_def)
  next
    case (Inr u)
    with assms f have "and_then (persist_row E (now 1) TABLE_SETTLEMENT_EVENTS (enc_settlement (eC E)
        \<lparr> se_entry_id = entry_id, se_new_status = st, se_settled_at = now 0, se_notes = notes \<rparr>) Insert None s) (\<lambda>s1 _.
        (s1\<lparr>ls_settlement_event_index := AList.update entry_id st (ls_settlement_event_index s1)\<rparr>, Inr ())) = (s', r)"
      by (simp add: apply_settlement_event_def)
    then show ?thesis
    proof (cases rule: persist_row_cases)
      case (stored s1 v)
      from stored(3) have s': "s' = s1\<lparr>ls_settlement_event_index := AList.update entry_id st (ls_settlement_event_index s1)\<rparr>"
        and r: "r = Inr ()" by simp_all
      show ?thesis
        by (rule settled [OF f _ r]) (simp_all add: Inr s' stored(2) books_eqD(7) [OF stored(2)])
    qed (use failed in simp)
  qed
qed

lemma reconcile_and_record_books: "books (fst (reconcile_and_record E uid now s)) = books s"
  by (simp add: reconcile_and_record_def Let_def books_and_then books_persist_row)

subsection \<open>The effect of an entry on a balance\<close>

definition line_effect :: "(account_id \<times> account) list \<Rightarrow> account_id \<Rightarrow> journal_line \<Rightarrow> int" where
  "line_effect accts a l = (if jl_account_id l = a then (case map_of accts a of
       None \<Rightarrow> 0
     | Some acct \<Rightarrow> normal_delta (debit_normal (acc_type acct)) (jl_dr_cr l) (amount_as_i128 (jl_amount l))) else 0)"

definition entry_effect :: "(account_id \<times> account) list \<Rightarrow> account_id \<Rightarrow> journal_entry \<Rightarrow> int" where
  "entry_effect accts a e = (if affects_balance (je_status e) then (\<Sum>l\<leftarrow>je_lines e. line_effect accts a l) else 0)"

lemma get0_line_cache: "get0 (line_cache accts c l) a = get0 c a + line_effect accts a l"
  by (auto simp: line_cache_def line_effect_def split: option.splits)

lemma get0_foldl_line_cache: "get0 (foldl (line_cache accts) c ls) a = get0 c a + (\<Sum>l\<leftarrow>ls. line_effect accts a l)"
  by (induction ls arbitrary: c) (simp_all add: get0_line_cache)

lemma get0_entry_cache [simp]: "get0 (entry_cache accts e c) a = get0 c a + entry_effect accts a e"
  by (simp add: entry_cache_def entry_effect_def get0_foldl_line_cache)

lemma keys_foldl_line_cache:
  "fst ` set c \<subseteq> fst ` set accts \<Longrightarrow> fst ` set (foldl (line_cache accts) c ls) \<subseteq> fst ` set accts"
proof (induction ls arbitrary: c)
  case (Cons l ls)
  have "fst ` set (line_cache accts c l) \<subseteq> fst ` set accts"
  proof (cases "map_of accts (jl_account_id l)")
    case None
    with Cons.prems show ?thesis by (simp add: line_cache_def)
  next
    case (Some acct)
    have "jl_account_id l \<in> fst ` set accts" by (rule rev_image_eqI [OF map_of_SomeD [OF Some]]) simp
    with Some Cons.prems show ?thesis by (simp add: line_cache_def)
  qed
  from Cons.IH [OF this] show ?case by simp
qed simp

lemma keys_entry_cache:
  "fst ` set c \<subseteq> fst ` set accts \<Longrightarrow> fst ` set (entry_cache accts e c) \<subseteq> fst ` set accts"
  by (simp add: entry_cache_def keys_foldl_line_cache)

text \<open>Only the type of an account matters.\<close>

lemma line_effect_types:
  assumes "map_option acc_type (map_of accts' (jl_account_id l)) = map_option acc_type (map_of accts (jl_account_id l))"
  shows "line_effect accts' a l = line_effect accts a l"
proof (cases "jl_account_id l = a")
  case True
  with assms show ?thesis
    by (cases "map_of accts a"; cases "map_of accts' a") (simp_all add: line_effect_def)
qed (simp add: line_effect_def)

lemma entry_effect_types:
  assumes "\<forall>l \<in> set (je_lines e). map_option acc_type (map_of accts' (jl_account_id l)) =
     map_option acc_type (map_of accts (jl_account_id l))"
  shows "entry_effect accts' a e = entry_effect accts a e"
proof -
  have "map (line_effect accts' a) (je_lines e) = map (line_effect accts a) (je_lines e)"
    using assms by (intro map_cong refl line_effect_types) blast
  then show ?thesis by (simp only: entry_effect_def)
qed

subsection \<open>The invariant\<close>

text \<open>
  The entries of the index have ascending positive sequence numbers below the next one and
  distinct idempotency keys; they balance, name known accounts, are cross-referenced and form
  a verified hash chain that ends in the tip; the cache is the sum of their effects.
\<close>

definition entries_inv :: "entry_db \<Rightarrow> u64 \<Rightarrow> bool" where
  "entries_inv db nxt \<longleftrightarrow> sorted_wrt (<) (map je_sequence (db_entries db)) \<and>
     (\<forall>e \<in> set (db_entries db). 0 < je_sequence e \<and> je_sequence e < nxt) \<and> 0 < nxt \<and> unat nxt < 2 ^ 63 \<and>
     distinct (filter (\<lambda>k. k \<noteq> None) (map je_idempotency_key (db_entries db))) \<and>
     set (db_account_entries db) = {(jl_account_id l, db_key e) |e l. e \<in> set (db_entries db) \<and> l \<in> set (je_lines e)}"

definition lines_known :: "(account_id \<times> account) list \<Rightarrow> journal_entry \<Rightarrow> bool" where
  "lines_known accts e \<longleftrightarrow> (\<forall>l \<in> set (je_lines e). map_of accts (jl_account_id l) \<noteq> None)"

definition accounts_inv :: "(account_id \<times> account) list \<Rightarrow> journal_entry list \<Rightarrow> bool" where
  "accounts_inv accts es \<longleftrightarrow> distinct (map fst accts) \<and> (\<forall>a acct. map_of accts a = Some acct \<longrightarrow> acc_id acct = a) \<and>
     (\<forall>e \<in> set es. validate e = Inr () \<and> lines_known accts e)"

definition cache_inv :: "(account_id \<times> account) list \<Rightarrow> (account_id \<times> int) list \<Rightarrow> journal_entry list \<Rightarrow> bool" where
  "cache_inv accts cache es \<longleftrightarrow> fst ` set cache \<subseteq> fst ` set accts \<and>
     (\<forall>a. get0 cache a = (\<Sum>e\<leftarrow>es. entry_effect accts a e))"

definition book_inv :: "env \<Rightarrow> book \<Rightarrow> bool" where
  "book_inv E b \<longleftrightarrow> entries_inv (b_db b) (b_next b) \<and> accounts_inv (b_accounts b) (db_entries (b_db b)) \<and>
     cache_inv (b_accounts b) (b_cache b) (db_entries (b_db b)) \<and>
     stream_fold (check_link E) ZERO_HASH (db_entries (b_db b)) = (b_tip b, Inr ())"

text \<open>An entry that may be recorded next.\<close>

definition next_entry :: "env \<Rightarrow> book \<Rightarrow> journal_entry \<Rightarrow> bool" where
  "next_entry E b e \<longleftrightarrow> je_sequence e = b_next b \<and> je_prev_hash e = b_tip b \<and> verify_hashes (blake3 (eX E)) e \<and>
     validate e = Inr () \<and> lines_known (b_accounts b) e \<and>
     (je_idempotency_key e = None \<or> je_idempotency_key e \<notin> je_idempotency_key ` set (db_entries (b_db b)))"

lemma next_key:
  assumes "unat (q :: u64) < 2 ^ 63"
  shows "sint q = uint q"
proof -
  have "uint q < 2 ^ 63" using assms by (simp add: nat_less_iff flip: nat_uint_eq)
  then show ?thesis by (simp add: sint_uint signed_take_bit_int_eq_self order_trans [OF _ uint_ge_0])
qed

lemma next_word: "unat (q :: u64) < 2 ^ 63 - 1 \<Longrightarrow> unat (q + 1) = unat q + 1"
  by (simp add: unat_plus_if_size word_size)

lemma db_insert_next:
  assumes "entries_inv db nxt" "je_sequence e = nxt"
    and "je_idempotency_key e = None \<or> je_idempotency_key e \<notin> je_idempotency_key ` set (db_entries db)"
  shows "db_insert e db = db\<lparr>db_entries := db_entries db @ [e]\<rparr>"
proof -
  from assms(1) have n: "0 < nxt" "unat nxt < 2 ^ 63" "\<forall>f \<in> set (db_entries db). je_sequence f < nxt"
    by (simp_all add: entries_inv_def)
  have "0 < db_key e" using next_key [OF n(2)] n(1) by (simp add: db_key_def assms(2) word_less_def)
  moreover have "db_key e \<notin> db_key ` set (db_entries db)"
    using n(3) assms(2) by (auto simp: image_iff)
  ultimately show ?thesis using assms(3) by (auto simp: db_insert_def)
qed

lemma entries_inv_insert:
  assumes inv: "entries_inv db nxt" and e: "je_sequence e = nxt"
    and k: "je_idempotency_key e = None \<or> je_idempotency_key e \<notin> je_idempotency_key ` set (db_entries db)"
    and b: "unat nxt < 2 ^ 63 - 1"
  shows "entries_inv (insert_lines e (db_insert e db)) (nxt + 1)"
proof -
  note i = db_insert_next [OF inv e k]
  from inv have h: "sorted_wrt (<) (map je_sequence (db_entries db))"
    "\<forall>f \<in> set (db_entries db). 0 < je_sequence f \<and> je_sequence f < nxt" "0 < nxt"
    "distinct (filter (\<lambda>k. k \<noteq> None) (map je_idempotency_key (db_entries db)))"
    "set (db_account_entries db) = {(jl_account_id l, db_key f) |f l. f \<in> set (db_entries db) \<and> l \<in> set (je_lines f)}"
    by (simp_all add: entries_inv_def)
  have n: "nxt < nxt + 1" "unat (nxt + 1) < 2 ^ 63"
    using next_word [OF b] b by (simp_all add: word_less_nat_alt)
  have s: "\<forall>f \<in> set (db_entries db). je_sequence f < nxt + 1" using h(2) n(1) by (auto intro: less_trans)
  have "0 < nxt + 1" using h(3) n(1) by (rule less_trans)
  moreover have "sorted_wrt (<) (map je_sequence (db_entries db @ [e]))"
    using h(1,2) e by (simp add: sorted_wrt_append)
  moreover have "distinct (filter (\<lambda>k. k \<noteq> None) (map je_idempotency_key (db_entries db @ [e])))"
    using h(4) k by auto
  moreover have "set (db_account_entries (insert_lines e (db_insert e db))) =
      {(jl_account_id l, db_key f) |f l. f \<in> set (db_entries db @ [e]) \<and> l \<in> set (je_lines f)}"
    by (auto simp: set_insert_lines i h(5))
  ultimately show ?thesis
    using n s h(2,3) e unfolding entries_inv_def insert_lines_entries i by simp
qed

lemma sum_effects_types:
  assumes "\<forall>e \<in> set es. \<forall>l \<in> set (je_lines e). map_option acc_type (map_of accts' (jl_account_id l)) =
     map_option acc_type (map_of accts (jl_account_id l))"
  shows "(\<Sum>e\<leftarrow>es. entry_effect accts' a e) = (\<Sum>e\<leftarrow>es. entry_effect accts a e)"
proof -
  have "map (entry_effect accts' a) es = map (entry_effect accts a) es"
    using assms by (intro map_cong refl entry_effect_types) blast
  then show ?thesis by (simp only:)
qed

lemma book_inv_entry:
  assumes inv: "book_inv E b" and e: "next_entry E b e" and n: "unat (b_next b) < 2 ^ 63 - 1"
  shows "book_inv E (book_entry e b)"
proof -
  let ?db = "b_db b"
  from inv have i: "entries_inv ?db (b_next b)" "accounts_inv (b_accounts b) (db_entries ?db)"
    "cache_inv (b_accounts b) (b_cache b) (db_entries ?db)"
    "stream_fold (check_link E) ZERO_HASH (db_entries ?db) = (b_tip b, Inr ())"
    by (simp_all add: book_inv_def)
  from e have e: "je_sequence e = b_next b" "je_prev_hash e = b_tip b" "verify_hashes (blake3 (eX E)) e"
    "validate e = Inr ()" "lines_known (b_accounts b) e"
    "je_idempotency_key e = None \<or> je_idempotency_key e \<notin> je_idempotency_key ` set (db_entries ?db)"
    by (simp_all add: next_entry_def)
  have es: "db_entries (db_insert e ?db) = db_entries ?db @ [e]"
    by (simp add: db_insert_next [OF i(1) e(1,6)])
  have "stream_fold (check_link E) ZERO_HASH (db_entries ?db @ [e]) = (je_chain_hash e, Inr ())"
    using e(2,3) by (simp add: stream_fold_append i(4) check_link_def)
  moreover have "cache_inv (b_accounts b) (entry_cache (b_accounts b) e (b_cache b)) (db_entries ?db @ [e])"
    using i(3) by (simp add: cache_inv_def keys_entry_cache)
  moreover have "accounts_inv (b_accounts b) (db_entries ?db @ [e])"
    using i(2) e(4,5) by (simp add: accounts_inv_def)
  ultimately show ?thesis
    using entries_inv_insert [OF i(1) e(1,6) n] by (simp add: book_inv_def book_entry_def es)
qed

lemma book_inv_skip:
  assumes inv: "book_inv E b" and n: "unat (b_next b) < 2 ^ 63 - 1"
  shows "book_inv E (b\<lparr>b_next := b_next b + 1\<rparr>)"
proof -
  from inv have i: "entries_inv (b_db b) (b_next b)" by (simp add: book_inv_def)
  have l: "b_next b < b_next b + 1" "unat (b_next b + 1) < 2 ^ 63"
    using next_word [OF n] n by (simp_all add: word_less_nat_alt)
  from i l(1) have "\<forall>e \<in> set (db_entries (b_db b)). je_sequence e < b_next b + 1" "0 < b_next b + 1"
    by (auto simp: entries_inv_def intro: less_trans)
  with i l have "entries_inv (b_db b) (b_next b + 1)" by (simp add: entries_inv_def)
  with inv show ?thesis by (simp add: book_inv_def)
qed

text \<open>An account that is new or keeps its type.\<close>

lemma book_inv_account:
  assumes inv: "book_inv E b" and id: "acc_id acct' = a"
    and t: "map_of (b_accounts b) a = None \<or> map_option acc_type (map_of (b_accounts b) a) = Some (acc_type acct')"
    and d: "db_entries (b_db b') = db_entries (b_db b)" "db_account_entries (b_db b') = db_account_entries (b_db b)"
    and b': "b_accounts b' = AList.update a acct' (b_accounts b)" "b_cache b' = b_cache b" "b_next b' = b_next b"
      "b_tip b' = b_tip b"
  shows "book_inv E b'"
proof -
  let ?A = "b_accounts b" and ?A' = "AList.update a acct' (b_accounts b)" and ?es = "db_entries (b_db b)"
  from inv have i: "entries_inv (b_db b) (b_next b)" "accounts_inv ?A ?es" "cache_inv ?A (b_cache b) ?es"
    by (simp_all add: book_inv_def)
  have known: "\<forall>e \<in> set ?es. \<forall>l \<in> set (je_lines e). map_of ?A (jl_account_id l) \<noteq> None"
    using i(2) unfolding accounts_inv_def lines_known_def by blast
  have "map_option acc_type (map_of ?A' x) = map_option acc_type (map_of ?A x)" if "map_of ?A x \<noteq> None" for x
    using that t by auto
  then have ty: "\<forall>e \<in> set ?es. \<forall>l \<in> set (je_lines e).
      map_option acc_type (map_of ?A' (jl_account_id l)) = map_option acc_type (map_of ?A (jl_account_id l))"
    using known by blast
  have "accounts_inv ?A' ?es"
    using i(2) id known unfolding accounts_inv_def lines_known_def by (simp add: distinct_update)
  moreover have "cache_inv ?A' (b_cache b) ?es"
    using i(3) sum_effects_types [OF ty] by (auto simp: cache_inv_def dom_update)
  moreover have "entries_inv (b_db b') (b_next b)" using i(1) d by (simp add: entries_inv_def)
  ultimately show ?thesis using inv d b' by (simp add: book_inv_def)
qed

lemma book_inv_cong:
  "book_inv E b \<Longrightarrow> book_inv E (b\<lparr>b_reversals := r\<rparr>)" "book_inv E b \<Longrightarrow> book_inv E (b\<lparr>b_settlements := st\<rparr>)"
  "book_inv E b \<Longrightarrow> book_inv E (b\<lparr>b_currencies := c\<rparr>)"
  by (simp_all add: book_inv_def)

subsection \<open>Entries that pass the checks\<close>

lemma check_all_Inr: "check_all f xs = Inr () \<longleftrightarrow> (\<forall>x \<in> set xs. f x = Inr ())"
  by (induction xs) (auto split: sum.splits)

lemma check_entry_Inr:
  "check_entry s e = Inr () \<longleftrightarrow> (\<forall>l \<in> set (je_lines e). check_line s e l = Inr ()) \<and>
     (\<forall>p \<in> set (net_debit_delta (je_lines e)). check_limits s (total_debit (je_lines e)) p = Inr ())"
  unfolding check_all_Inr [symmetric]
  by (cases "check_all (check_line s e) (je_lines e)") (simp_all add: check_entry_def)

lemma check_line_known: "check_line s e l = Inr () \<Longrightarrow> map_of (ls_accounts s) (jl_account_id l) \<noteq> None"
  by (auto simp: check_line_def split: option.splits)

lemma number_entry_fields [simp]:
  "je_sequence (number_entry E now e s) = ls_next_sequence s" "je_lines (number_entry E now e s) = je_lines e"
  "je_status (number_entry E now e s) = je_status e" "je_idempotency_key (number_entry E now e s) = je_idempotency_key e"
  "je_prev_hash (number_entry E now e s) = ls_last_chain_hash s" "je_id (number_entry E now e s) = je_id e"
  by (simp_all add: number_entry_def)

lemma validate_lines: "je_lines e = je_lines f \<Longrightarrow> validate e = validate f"
  by (simp add: validate_def)

lemma fresh_key:
  assumes "duplicate_sequence s e = None"
  shows "je_idempotency_key e = None \<or> je_idempotency_key e \<notin> je_idempotency_key ` set (db_entries (ls_db s))"
  using assms
  by (auto simp: duplicate_sequence_def idempotency_key_exists_def filter_empty_conv image_iff
      split: option.splits if_splits)

lemma posted_next:
  assumes "validate e = Inr ()" "duplicate_sequence s e = None" "check_entry s e = Inr ()" "je_content_hash e = ZERO_HASH"
  shows "next_entry E (books s) (number_entry E now e s)"
proof -
  let ?e = "number_entry E now e s"
  have "verify_hashes (blake3 (eX E)) ?e"
    unfolding number_entry_def using assms(4) by (intro finalize_verify) simp
  moreover have "validate ?e = Inr ()" using assms(1) validate_lines [of ?e e] by simp
  moreover have "lines_known (ls_accounts s) ?e"
    using assms(3) by (auto simp: check_entry_Inr lines_known_def dest: check_line_known)
  ultimately show ?thesis using fresh_key [OF assms(2)] by (simp add: next_entry_def)
qed

lemma flip_normal_delta [simp]: "normal_delta d (flip x) a = - normal_delta d x a"
  by (cases d; cases x) simp_all

lemma signed_flip [simp]: "signed_amount_of (flip d) a = - signed_amount_of d a"
  by (cases d) simp_all

lemma sum_list_uminus: "(\<Sum>x\<leftarrow>xs. - f x) = - (\<Sum>x\<leftarrow>xs. (f x :: int))"
  by (induction xs) simp_all

lemma reversal_sum:
  assumes "\<And>u l. f (reversal_line u l) = (g l :: int)"
  shows "(\<Sum>l\<leftarrow>je_lines (reversal_of uid now i descr domain e). f l) = (\<Sum>l\<leftarrow>je_lines e. g l)"
proof -
  have "map f (je_lines (reversal_of uid now i descr domain e)) = map (\<lambda>(i, l). g l) (enumerate 0 (je_lines e))"
    using assms by (auto simp: reversal_of_def)
  also have "\<dots> = map (g \<circ> snd) (enumerate 0 (je_lines e))" by (simp add: comp_def case_prod_unfold)
  also have "\<dots> = map g (je_lines e)" by (simp flip: map_map)
  finally show ?thesis by (simp only:)
qed

lemma reversal_effect:
  "(\<Sum>l\<leftarrow>je_lines (reversal_of uid now i descr domain e). line_effect accts a l) = - (\<Sum>l\<leftarrow>je_lines e. line_effect accts a l)"
proof -
  have "line_effect accts a (reversal_line u l) = - line_effect accts a l" for u l
    by (auto simp: line_effect_def reversal_line_def split: option.splits)
  from reversal_sum [of "line_effect accts a" "\<lambda>l. - line_effect accts a l", OF this] show ?thesis
    by (simp only: sum_list_uminus)
qed

lemma reversal_validate:
  assumes "validate e = Inr ()"
  shows "validate (reversal_of uid now i descr domain e) = Inr ()"
proof -
  have "signed_amount (reversal_line u l) = - signed_amount l" for u l
    by (simp add: signed_amount_def reversal_line_def)
  from reversal_sum [of signed_amount "\<lambda>l. - signed_amount l", OF this, of uid now i descr domain e] have
    "(\<Sum>l\<leftarrow>je_lines (reversal_of uid now i descr domain e). signed_amount l) = - (\<Sum>l\<leftarrow>je_lines e. signed_amount l)"
    by (simp only: sum_list_uminus)
  with assms show ?thesis by (simp add: validate_balanced) (simp add: reversal_of_def)
qed

text \<open>The entry that a reversal looks up.\<close>

lemma find_SomeD: "find P xs = Some x \<Longrightarrow> x \<in> set xs \<and> P x"
  by (induction xs) (auto split: if_splits)

lemma find_last_in: "find_last db i = Some e \<Longrightarrow> e \<in> set (db_entries db) \<and> je_id e = i"
  by (auto simp: find_last_def db_stream_def dest: find_SomeD)

lemma reversible_in: "reversible s i = Inr e \<Longrightarrow> e \<in> set (db_entries (ls_db s)) \<and> je_status e = Posted"
  by (auto simp: reversible_def get_by_sequence_def dest: find_SomeD split: option.splits if_splits sum.splits)

lemma reversal_next:
  assumes inv: "book_inv E (books s)" and r: "reversible s i = Inr original"
    and e: "e = finalize_hashes (blake3 (eX E)) (ls_last_chain_hash s)
       ((reversal_of uid now i descr domain original)\<lparr>je_sequence := ls_next_sequence s, je_posted_at := t\<rparr>)"
  shows "next_entry E (books s) e"
proof -
  let ?r = "(reversal_of uid now i descr domain original)\<lparr>je_sequence := ls_next_sequence s, je_posted_at := t\<rparr>"
  have o: "validate original = Inr ()" "lines_known (ls_accounts s) original"
    using inv reversible_in [OF r] by (auto simp: book_inv_def accounts_inv_def)
  have l: "je_lines e = je_lines (reversal_of uid now i descr domain original)" "je_sequence e = ls_next_sequence s"
    "je_prev_hash e = ls_last_chain_hash s" "je_idempotency_key e = None"
    by (simp_all add: e finalize_hashes_def precompute_content_hash_def) (simp add: reversal_of_def)
  have "verify_hashes (blake3 (eX E)) e"
    unfolding e finalize_hashes_def precompute_content_hash_def by (rule finalize_verify) simp
  moreover have "validate e = Inr ()" using validate_lines [OF l(1)] reversal_validate [OF o(1)] by simp
  moreover have "lines_known (ls_accounts s) e"
    using o(2) by (auto simp: lines_known_def l(1) reversal_of_def reversal_line_def dest!: in_set_enumerate_eq [THEN iffD1])
  ultimately show ?thesis by (simp add: next_entry_def l)
qed

subsection \<open>Reachable ledgers\<close>

text \<open>
  \<open>ledger_step E s s'\<close>: one operation, successful or not.  New accounts have fresh ids, an
  entry to post comes without a content hash (as the builder makes it), and fewer than
  \<open>2 ^ 63 - 1\<close> sequence numbers have been used.  A reachable ledger starts empty, and opening it again is not a step:
  replay has its own properties in \<open>Ledger_Durable\<close>.
\<close>

inductive ledger_step :: "env \<Rightarrow> ledger_store \<Rightarrow> ledger_store \<Rightarrow> bool" for E :: env where
  step_create: "map_of (ls_accounts s) (acc_id a) = None \<Longrightarrow> create_account E t a s = (s', r1) \<Longrightarrow> ledger_step E s s'"
| step_close: "close_account E t i s = (s', r2) \<Longrightarrow> ledger_step E s s'"
| step_hold: "set_legal_hold E t i hold s = (s', r3) \<Longrightarrow> ledger_step E s s'"
| step_post: "je_content_hash e = ZERO_HASH \<Longrightarrow> unat (ls_next_sequence s) < 2 ^ 63 - 1 \<Longrightarrow>
    post_entry E now e s = (s', r4) \<Longrightarrow> ledger_step E s s'"
| step_reverse: "unat (ls_next_sequence s) < 2 ^ 63 - 1 \<Longrightarrow>
    reverse_entry E uid now i descr domain s = (s', r5) \<Longrightarrow> ledger_step E s s'"
| step_settle: "apply_settlement_event E now i st notes s = (s', r6) \<Longrightarrow> ledger_step E s s'"
| step_reconcile: "reconcile_and_record E u now s = (s', r7) \<Longrightarrow> ledger_step E s s'"
| step_checkpoint: "ledger_checkpoint E s = (s', r8) \<Longrightarrow> ledger_step E s s'"
| step_currency: "register_currency c s = s' \<Longrightarrow> ledger_step E s s'"

inductive ledger_reach :: "env \<Rightarrow> ledger_store \<Rightarrow> bool" for E :: env where
  reach_init: "ledger_reach E (ledger_store_init tm ps entry_db_empty)"
| reach_step: "ledger_reach E s \<Longrightarrow> ledger_step E s s' \<Longrightarrow> ledger_reach E s'"

lemma book_inv_init: "book_inv E (books (ledger_store_init tm ps entry_db_empty))"
  by (simp add: book_inv_def ledger_store_init_def entries_inv_def accounts_inv_def cache_inv_def entry_db_empty_def)

lemma step_inv:
  assumes "ledger_step E s s'" and inv: "book_inv E (books s)"
  shows "book_inv E (books s')"
  using assms(1)
proof cases
  case (step_create a t r)
  have "book_inv E (book_account a ((books s)\<lparr>b_db := upsert_account a (ls_db s)\<rparr>))"
    by (rule book_inv_account [OF inv refl, of a]) (simp_all add: book_account_def upsert_account_def step_create(1))
  with create_account_books [OF step_create(2)] inv show ?thesis by auto
next
  case (step_close t i r)
  show ?thesis
  proof (cases "map_of (ls_accounts s) i")
    case None
    with close_account_books [OF step_close] inv show ?thesis by auto
  next
    case (Some acct)
    let ?b = "(books s)\<lparr>b_accounts := AList.update i (acct\<lparr>acc_status := AccountIsClosed\<rparr>) (ls_accounts s)\<rparr>"
    have i: "acc_id acct = i" using inv Some by (simp add: book_inv_def accounts_inv_def)
    have "book_inv E ?b" "book_inv E (?b\<lparr>b_db := upsert_account (acct\<lparr>acc_status := AccountIsClosed\<rparr>) (ls_db s)\<rparr>)"
      by (rule book_inv_account [OF inv, of "acct\<lparr>acc_status := AccountIsClosed\<rparr>" i];
          simp add: Some i upsert_account_def)+
    with close_account_books [OF step_close] inv Some show ?thesis by (auto simp: Let_def)
  qed
next
  case (step_hold t i hold r)
  show ?thesis
  proof (cases "map_of (ls_accounts s) i")
    case None
    with set_legal_hold_books [OF step_hold] inv show ?thesis by auto
  next
    case (Some acct)
    let ?b = "(books s)\<lparr>b_accounts := AList.update i (acct\<lparr>acc_legal_hold := hold\<rparr>) (ls_accounts s)\<rparr>"
    have i: "acc_id acct = i" using inv Some by (simp add: book_inv_def accounts_inv_def)
    have "book_inv E ?b" "\<And>h. book_inv E (?b\<lparr>b_holds := h\<rparr>)"
      by (rule book_inv_account [OF inv, of "acct\<lparr>acc_legal_hold := hold\<rparr>" i]; simp add: Some i)+
    with set_legal_hold_books [OF step_hold] inv Some show ?thesis by (auto simp: Let_def)
  qed
next
  case (step_post e now r)
  from step_post(3) show ?thesis
  proof (cases rule: post_entry_cases)
    case posted
    with book_inv_entry [OF inv posted_next [OF posted(2-4) step_post(1)]] step_post(2) show ?thesis by simp
  next
    case (failed err)
    with book_inv_skip [OF inv] step_post(2) show ?thesis by simp
  qed (use inv in simp_all)
next
  case (step_reverse uid now i descr domain r)
  from step_reverse(2) show ?thesis
  proof (cases rule: reverse_entry_cases)
    case (failed err)
    with book_inv_skip [OF inv] step_reverse(1) show ?thesis by simp
  next
    case (reversed original e)
    with book_inv_entry [OF inv reversal_next [OF inv reversed(1,2)]] step_reverse(1) show ?thesis
      by (simp add: book_inv_cong)
  qed (use inv in simp)
next
  case (step_settle now i st nts r)
  then show ?thesis by (cases rule: settlement_cases) (simp_all add: inv book_inv_cong)
next
  case (step_reconcile u now r)
  with reconcile_and_record_books [of E u now s] inv show ?thesis by simp
next
  case (step_checkpoint r)
  with books_ledger_checkpoint [of E s] inv show ?thesis by simp
next
  case (step_currency c)
  with inv show ?thesis by (auto simp: register_currency_def book_inv_cong)
qed

lemma reach_inv: "ledger_reach E s \<Longrightarrow> book_inv E (books s)"
  by (induction rule: ledger_reach.induct) (simp_all add: book_inv_init step_inv)

end
