(* ===== verification/Ledger_Durable.thy ===== *)
theory Ledger_Durable
  imports Ledger_Inv
begin

text \<open>
  Durability of the ledger: a crash loses at most the transactions that the log had not yet
  made durable, and replaying the log restores the books as they were after the last
  transaction it holds.
\<close>

subsection \<open>A row and its transaction\<close>

text \<open>Bincode adds little: the records of a row that fits a page fit the reader's limit.\<close>

definition ext_small :: "ext \<Rightarrow> bool" where
  "ext_small X \<longleftrightarrow> (\<forall>d. length (dp_row_data d) \<le> 8122 \<longrightarrow> payload_fits None (enc_data X d)) \<and>
     (\<forall>sk t. payload_fits None (enc_commit X (commit_payload_of X sk t))) \<and>
     (\<forall>descr. length (case descr of None \<Rightarrow> [] | Some x \<Rightarrow> x) \<le> 8 \<longrightarrow> payload_fits None (enc_begin X descr)) \<and>
     (\<forall>n root sk. payload_fits None (enc_checkpoint X (new_checkpoint X n root sk)))"

definition env_ok :: "env \<Rightarrow> bool" where
  "env_ok E \<longleftrightarrow> ext_ok (eX E) \<and> ext_small (eX E) \<and> page_codec_ok (eP E) \<and> ledger_codec_ok (eC E)"

definition row_payload :: "env \<Rightarrow> u32 \<Rightarrow> u64 \<Rightarrow> u16 \<Rightarrow> mutation_kind \<Rightarrow> bytes \<Rightarrow> hash option \<Rightarrow> data_payload" where
  "row_payload E t page_id slot_id kind row prev = mutation_payload (new_mutation (eX E) t page_id slot_id kind row prev)"

lemma row_payload_fields [simp]:
  "dp_table_id (row_payload E t p sl kind row prev) = t" "dp_mutation (row_payload E t p sl kind row prev) = kind"
  "dp_row_data (row_payload E t p sl kind row prev) = row"
  by (simp_all add: row_payload_def mutation_payload_def new_mutation_def)

lemma write_to_page_ok:
  assumes "page_codec_ok (eP E)" "write_to_page E t row c s = (s', Inr v)"
  shows "length row \<le> 8122" "ls_tm s' = ls_tm s"
proof -
  obtain p where p: "write_slot (page_new (eP E) c t) row =
      (p, if length row \<le> 8122 then Inr 0 else Inl (PageFull c 8126 (4 + length row)))"
    using write_slot_fresh [OF assms(1)] by blast
  with assms(2) show "length row \<le> 8122" by (auto simp: write_to_page_def split: if_splits)
  from assms(2) show "ls_tm s' = ls_tm s" by (auto simp: write_to_page_def split: prod.splits sum.splits)
qed

lemma tm_step_Inr:
  "tm_step s f = (s', Inr v) \<longleftrightarrow> (\<exists>tm'. f (ls_tm s) = (tm', Inr v) \<and> s' = s\<lparr>ls_tm := tm'\<rparr>)"
  by (cases "f (ls_tm s)") (auto simp: tm_step_def lift_tm_def)

lemma begin_active:
  assumes "tm_begin X tm now descr = (tm', Inr tx)"
  shows "\<exists>snap. map_of (tm_active tm') tx = Some (transaction_new tx snap now descr)"
  using assms by (auto simp: tm_begin_def Let_def and_then_Inr_iff lift_wal_def)

text \<open>The mutations that a list of additions leaves in a transaction.\<close>

lemma add_active:
  assumes "tm_add_mutation X tm tx t p sl kind row prev = (tm', Inr ())" "map_of (tm_active tm) tx = Some x"
    "t_idempotency_key x = None"
  shows "\<exists>x'. map_of (tm_active tm') tx = Some x' \<and> t_mutations x' = t_mutations x @ [new_mutation X t p sl kind row prev] \<and>
     t_idempotency_key x' = None"
proof -
  obtain x' r where a: "tx_add_mutation x (new_mutation X t p sl kind row prev) = (x', r)" by force
  with assms have "r = Inr ()" "tm' = tm\<lparr>tm_active := AList.update tx x' (tm_active tm)\<rparr>"
    by (auto simp: tm_add_mutation_def on_active_def)
  moreover from this a have "t_mutations x' = t_mutations x @ [new_mutation X t p sl kind row prev]" "t_idempotency_key x' = None"
    using assms(3) by (auto simp: tx_add_mutation_def and_then_Inr_iff)
  ultimately show ?thesis by simp
qed

lemma commit_reach:
  assumes X: "ext_small X" and r: "tm_reach X mode sk tm h" and x: "map_of (tm_active tm) tx = Some x"
    "t_idempotency_key x = None" "\<forall>m \<in> set (t_mutations x). length (pm_row_data m) \<le> 8122"
    and c: "tm_commit X tm tx = (tm', Inr ())"
  shows "tm_reach X mode sk tm' (h @ [(tx, map mutation_payload (t_mutations x))])"
proof (rule reach_commit [OF r x(1) _ _ c])
  show "\<not> key_committed tm x" using x(2) by (simp add: key_committed_def)
  have "payload_fits None (enc_data X (mutation_payload m))" if "m \<in> set (t_mutations x)" for m
    using X x(3) that by (simp add: ext_small_def mutation_payload_def)
  then show "\<forall>a \<in> set (commit_batch X sk x tx). payload_fits None (snd (snd a))"
    using X by (auto simp: commit_batch_def data_reqs_def ext_small_def)
qed

lemma persist_row_reach:
  assumes E: "env_ok E" and r: "tm_reach (eX E) mode sk (ls_tm s) h"
    and p: "persist_row E now t row kind prev s = (s', Inr (page_id, slot_id))"
  shows "\<exists>tx. tm_reach (eX E) mode sk (ls_tm s') (h @ [(tx, [row_payload E t page_id slot_id kind row prev])])"
proof -
  from E have X: "ext_small (eX E)" "page_codec_ok (eP E)" by (simp_all add: env_ok_def)
  from p obtain s1 nxt tm3 tx tm4 where
    w: "write_to_page E t row (if t = TABLE_ACCOUNTS then ls_next_account_page s else ls_next_entry_page s) s =
         (s1, Inr (page_id, slot_id, nxt))"
    and b: "tm_begin (eX E) (ls_tm s1) now None = (tm3, Inr tx)"
    and a: "tm_add_mutation (eX E) (tm3) tx t page_id slot_id kind row prev = (tm4, Inr ())"
    and c: "tm_commit (eX E) tm4 tx = (ls_tm s', Inr ())"
    by (auto simp: persist_row_def and_then_Inr_iff tm_step_Inr Let_def split: if_splits)
  note w1 = write_to_page_ok [OF X(2) w]
  have "payload_fits None (enc_begin (eX E) None)" using X(1) by (simp add: ext_small_def)
  from reach_begin [OF r this] b w1(2) have r1: "tm_reach (eX E) mode sk (tm3) h" by simp
  from begin_active [OF b] obtain snap where "map_of (tm_active (tm3)) tx = Some (transaction_new tx snap now None)" by blast
  from add_active [OF a this] obtain x where x: "map_of (tm_active tm4) tx = Some x" "t_idempotency_key x = None"
    "t_mutations x = [new_mutation (eX E) t page_id slot_id kind row prev]" by (auto simp: transaction_new_def)
  from commit_reach [OF X(1) reach_add [OF r1 a] x(1,2) _ c] x(3) w1(1) show ?thesis
    by (auto simp: row_payload_def new_mutation_def)
qed

lemma persist_row_pair_reach:
  assumes E: "env_ok E" and r: "tm_reach (eX E) mode sk (ls_tm s) h"
    and p: "persist_row_pair E now ta da pa tb db s = (s', Inr ())"
  shows "\<exists>tx p1 l1 p2 l2. tm_reach (eX E) mode sk (ls_tm s')
     (h @ [(tx, [row_payload E ta p1 l1 Insert da pa, row_payload E tb p2 l2 Insert db None])])"
proof -
  from E have X: "ext_small (eX E)" "page_codec_ok (eP E)" by (simp_all add: env_ok_def)
  from p obtain s1 p1 l1 n1 s3 p2 l2 n2 tm4 tm5 tx tm6 where
    w: "write_to_page E ta da (ls_next_entry_page s) s = (s1, Inr (p1, l1, n1))"
      "write_to_page E tb db n1 (s1\<lparr>ls_next_entry_page := n1\<rparr>) = (s3, Inr (p2, l2, n2))"
    and b: "tm_begin (eX E) (ls_tm s3) now (Some ''reversal'') = (tm4, Inr tx)"
    and a: "tm_add_mutation (eX E) tm4 tx ta p1 l1 Insert da pa = (tm5, Inr ())"
      "tm_add_mutation (eX E) tm5 tx tb p2 l2 Insert db None = (tm6, Inr ())"
    and c: "tm_commit (eX E) tm6 tx = (ls_tm s', Inr ())"
    by (auto simp: persist_row_pair_def and_then_Inr_iff tm_step_Inr Let_def)
  note w1 = write_to_page_ok [OF X(2) w(1)] and w2 = write_to_page_ok [OF X(2) w(2)]
  have "payload_fits None (enc_begin (eX E) (Some ''reversal''))" using X(1) by (simp add: ext_small_def)
  from reach_begin [OF r this] b w1(2) w2(2) have r1: "tm_reach (eX E) mode sk tm4 h" by simp
  from begin_active [OF b] obtain snap where
    "map_of (tm_active tm4) tx = Some (transaction_new tx snap now (Some ''reversal''))" by blast
  from add_active [OF a(1) this] obtain x where x: "map_of (tm_active tm5) tx = Some x" "t_idempotency_key x = None"
    "t_mutations x = [new_mutation (eX E) ta p1 l1 Insert da pa]" by (auto simp: transaction_new_def)
  from add_active [OF a(2) x(1,2)] x(3) obtain y where y: "map_of (tm_active tm6) tx = Some y" "t_idempotency_key y = None"
    "t_mutations y = [new_mutation (eX E) ta p1 l1 Insert da pa, new_mutation (eX E) tb p2 l2 Insert db None]" by auto
  have "tm_reach (eX E) mode sk (ls_tm s') (h @ [(tx, map mutation_payload (t_mutations y))])"
    by (rule commit_reach [OF X(1) reach_add [OF reach_add [OF r1 a(1)] a(2)] y(1,2) _ c])
      (use y(3) w1(1) w2(1) in \<open>auto simp: new_mutation_def\<close>)
  then have "tm_reach (eX E) mode sk (ls_tm s')
     (h @ [(tx, [row_payload E ta p1 l1 Insert da pa, row_payload E tb p2 l2 Insert db None])])"
    by (simp add: y(3) row_payload_def)
  then show ?thesis by blast
qed

subsection \<open>Replaying rows\<close>

text \<open>
  The part of the books that the log determines: not the reconciliation history and the
  registered currencies, which live in memory, nor the accounts table of the index.
\<close>

definition core :: "book \<Rightarrow> book" where
  "core b = b\<lparr>b_db := (b_db b)\<lparr>db_accounts := []\<rparr>, b_history := [], b_currencies := []\<rparr>"

lemma db_insert_accounts: "db_insert e (db\<lparr>db_accounts := x\<rparr>) = (db_insert e db)\<lparr>db_accounts := x\<rparr>"
  by (simp add: db_insert_def)

lemma insert_lines_accounts: "insert_lines e (db\<lparr>db_accounts := x\<rparr>) = (insert_lines e db)\<lparr>db_accounts := x\<rparr>"
proof -
  have c: "insert_account_entry a q (d\<lparr>db_accounts := x\<rparr>) = (insert_account_entry a q d)\<lparr>db_accounts := x\<rparr>" for a q d
    by (cases d) (simp add: insert_account_entry_def)
  have "foldl (\<lambda>d l. insert_account_entry (jl_account_id l) q d) (db\<lparr>db_accounts := x\<rparr>) ls =
      (foldl (\<lambda>d l. insert_account_entry (jl_account_id l) q d) db ls)\<lparr>db_accounts := x\<rparr>" for ls :: "journal_line list" and q
    by (induction ls arbitrary: db) (simp_all add: c)
  then show ?thesis by (simp add: insert_lines_def)
qed

text \<open>The abstract operations depend on and change the core alone.\<close>

lemma core_entry: "core (book_entry e b) = core (book_entry e (core b))"
  by (cases b) (simp add: core_def book_entry_def db_insert_accounts insert_lines_accounts)

lemma core_account: "core (book_account a b) = core (book_account a (core b))"
  by (cases b) (simp add: core_def book_account_def)

lemma core_reversal: "core (b\<lparr>b_reversals := AList.update i j (b_reversals b)\<rparr>) =
    core ((core b)\<lparr>b_reversals := AList.update i j (b_reversals (core b))\<rparr>)"
  by (cases b) (simp add: core_def)

lemma core_settlement: "core (b\<lparr>b_settlements := AList.update i j (b_settlements b)\<rparr>) =
    core ((core b)\<lparr>b_settlements := AList.update i j (b_settlements (core b))\<rparr>)"
  by (cases b) (simp add: core_def)

lemma core_db_accounts [simp]: "core (b\<lparr>b_db := upsert_account a (b_db b)\<rparr>) = core b"
  by (cases b) (simp add: core_def upsert_account_def)

lemma core_fields: "core b = core b' \<Longrightarrow> b_accounts b = b_accounts b' \<and> b_holds b = b_holds b' \<and> b_next b = b_next b'"
  by (cases b; cases b') (simp add: core_def)

text \<open>What replaying a payload does to the books, when the index is empty at the start.\<close>

lemma replay_entry_books:
  assumes "je_sequence e = ls_next_sequence s" "je_sequence e \<noteq> 0"
  shows "\<exists>s'. replay_entry False 0 e (s, False) = (s', False) \<and> books s' = book_entry e (books s)"
proof -
  define u where "u = (advance_sequence (je_sequence e) s)\<lparr>ls_last_chain_hash := je_chain_hash e\<rparr>"
  define v where "v = apply_balances e u"
  have "advance_sequence (je_sequence e) s = s\<lparr>ls_next_sequence := ls_next_sequence s + 1\<rparr>"
    unfolding advance_sequence_def assms(1) by simp
  then have "books u = (books s)\<lparr>b_next := b_next (books s) + 1, b_tip := je_chain_hash e\<rparr>"
    unfolding u_def by simp
  from books_record [OF this] have "books (index_entry e v) = book_entry e (books s)" unfolding v_def .
  moreover have "books (index_entry e (v\<lparr>ls_next_entry_page := k\<rparr>)) = books (index_entry e v)" for k
    unfolding index_entry_def by simp
  moreover have "\<not> je_sequence e \<le> 0" using assms(2) by simp
  then have "replay_entry False 0 e (s, False) = (index_entry e (v\<lparr>ls_next_entry_page := ls_next_entry_page v + 1\<rparr>), False)"
    unfolding replay_entry_def Let_def u_def v_def fst_conv snd_conv by simp
  ultimately show ?thesis by metis
qed

definition replays :: "env \<Rightarrow> ledger_store \<Rightarrow> data_payload list \<Rightarrow> ledger_store \<Rightarrow> bool" where
  "replays E s ps s' \<longleftrightarrow> replay_payloads E False 0 (s, False) ps = ((s', False), Inr ())"

lemma codec_okD:
  assumes "ledger_codec_ok C"
  shows "dec_account C (enc_account C a) = Inr a" "dec_entry C (enc_entry C e) = Inr e"
    "dec_reversal C (enc_reversal C rv) = Inr rv" "dec_settlement C (enc_settlement C sv) = Inr sv"
    "dec_recon C (enc_recon C rc) = Inr rc"
  using assms by (simp_all add: ledger_codec_ok_def)

lemma replays_single: "replays E s [p] s' \<longleftrightarrow> replay_payload E False 0 (s, False) p = ((s', False), Inr ())"
proof -
  obtain q r where "replay_payload E False 0 (s, False) p = (q, r)" by (rule prod.exhaust)
  then show ?thesis by (cases r) (simp_all add: replays_def)
qed

lemma replay_account:
  assumes "ledger_codec_ok (eC E)" "dp_table_id p = TABLE_ACCOUNTS" "dp_row_data p = enc_account (eC E) a"
  shows "replays E s [p] (apply_account a s)"
  unfolding replays_single replay_payload_def Let_def assms decode_row_def codec_okD [OF assms(1)] map_err_simps sum.case
  by simp

lemma replay_posted:
  assumes "ledger_codec_ok (eC E)" "dp_table_id p = TABLE_ENTRIES" "dp_mutation p = Insert" "dp_row_data p = enc_entry (eC E) e"
    "je_sequence e = ls_next_sequence s" "je_sequence e \<noteq> 0"
  shows "\<exists>s'. replays E s [p] s' \<and> books s' = book_entry e (books s)"
  using replay_entry_books [OF assms(5,6)]
  unfolding replays_single replay_payload_def Let_def assms(1-4) decode_row_def codec_okD [OF assms(1)] map_err_simps sum.case
  by (simp add: table_defs)

lemma replay_reversed:
  assumes "ledger_codec_ok (eC E)" "dp_table_id p = TABLE_REVERSAL_EVENTS" "dp_mutation p = Insert"
    "dp_row_data p = enc_reversal (eC E) ev"
  shows "\<exists>s'. replays E s [p] s' \<and> books s' = (books s)\<lparr>b_reversals :=
     AList.update (re_original_entry_id ev) (re_reversal_entry_id ev) (ls_reversal_event_index s)\<rparr>"
  unfolding replays_single replay_payload_def Let_def assms decode_row_def codec_okD [OF assms(1)] map_err_simps sum.case
  by (simp add: table_defs)

lemma replay_settled:
  assumes "ledger_codec_ok (eC E)" "dp_table_id p = TABLE_SETTLEMENT_EVENTS" "dp_mutation p = Insert"
    "dp_row_data p = enc_settlement (eC E) ev"
  shows "\<exists>s'. replays E s [p] s' \<and> books s' = (books s)\<lparr>b_settlements :=
     AList.update (se_entry_id ev) (se_new_status ev) (ls_settlement_event_index s)\<rparr>"
  unfolding replays_single replay_payload_def Let_def assms decode_row_def codec_okD [OF assms(1)] map_err_simps sum.case
  by (simp add: table_defs)

lemma replay_recon:
  assumes "ledger_codec_ok (eC E)" "dp_table_id p = TABLE_RECONCILIATION_EVENTS" "dp_mutation p = Insert"
    "dp_row_data p = enc_recon (eC E) r"
  shows "\<exists>s'. replays E s [p] s' \<and> core (books s') = core (books s)"
  unfolding replays_single replay_payload_def Let_def assms decode_row_def codec_okD [OF assms(1)] map_err_simps sum.case
  by (simp add: table_defs core_def)

lemma replay_payloads_append:
  "replay_payloads E m x q (ps @ qs) = and_then (replay_payloads E m x q ps) (\<lambda>q1 _. replay_payloads E m x q1 qs)"
proof (induction ps arbitrary: q)
  case (Cons p ps)
  obtain q1 r where "replay_payload E m x q p = (q1, r)" by (rule prod.exhaust)
  with Cons show ?case by (cases r) simp_all
qed simp

lemma replays_append:
  assumes "replays E s ps s1" "replays E s1 qs s2"
  shows "replays E s (ps @ qs) s2"
  using assms by (simp add: replays_def replay_payloads_append)

text \<open>
  \<open>logged E mode s s'\<close>: going from \<open>s\<close> to \<open>s'\<close> committed one transaction, and replaying its payloads on a
  store with the core of \<open>s\<close> gives the core of \<open>s'\<close>.
\<close>

definition logged :: "env \<Rightarrow> wal_sync_mode \<Rightarrow> ledger_store \<Rightarrow> ledger_store \<Rightarrow> bool" where
  "logged E mode s s' \<longleftrightarrow> (\<forall>h. tm_reach (eX E) mode None (ls_tm s) h \<longrightarrow>
     (\<exists>tx ps. tm_reach (eX E) mode None (ls_tm s') (h @ [(tx, ps)]) \<and>
        (\<forall>t. core (books t) = core (books s) \<longrightarrow> (\<exists>t'. replays E t ps t' \<and> core (books t') = core (books s')))))"

lemma row_logged:
  assumes E: "env_ok E" and p: "persist_row E now tbl row kind prev u = (s1, Inr w)"
    and tm: "ls_tm u = ls_tm s" "ls_tm s' = ls_tm s1"
    and step: "\<And>p t. dp_table_id p = tbl \<Longrightarrow> dp_mutation p = kind \<Longrightarrow> dp_row_data p = row \<Longrightarrow>
      core (books t) = core (books s) \<Longrightarrow> \<exists>t'. replays E t [p] t' \<and> core (books t') = core (books s')"
  shows "logged E mode s s'"
  unfolding logged_def
proof (intro allI impI)
  fix h assume "tm_reach (eX E) mode None (ls_tm s) h"
  moreover obtain page_id slot_id where "w = (page_id, slot_id)" by (rule prod.exhaust)
  ultimately obtain tx where "tm_reach (eX E) mode None (ls_tm s1)
      (h @ [(tx, [row_payload E tbl page_id slot_id kind row prev])])"
    using persist_row_reach [OF E _ p [unfolded \<open>w = _\<close>], of mode None h] tm(1) by auto
  with step [of "row_payload E tbl page_id slot_id kind row prev"] show "\<exists>tx ps. tm_reach (eX E) mode None (ls_tm s') (h @ [(tx, ps)]) \<and>
        (\<forall>t. core (books t) = core (books s) \<longrightarrow> (\<exists>t'. replays E t ps t' \<and> core (books t') = core (books s')))"
    unfolding tm(2) row_payload_fields by blast
qed

lemma env_codec: "env_ok E \<Longrightarrow> ledger_codec_ok (eC E)"
  by (simp add: env_ok_def)

lemma core_account_cong: "core b = core b' \<Longrightarrow> core (book_account a b) = core (book_account a b')"
  using core_account [of a b] core_account [of a b'] by simp

lemma core_entry_cong: "core b = core b' \<Longrightarrow> core (book_entry e b) = core (book_entry e b')"
  using core_entry [of e b] core_entry [of e b'] by simp

lemma core_reversal_cong: "core b = core b' \<Longrightarrow>
    core (b\<lparr>b_reversals := AList.update i j (b_reversals b)\<rparr>) = core (b'\<lparr>b_reversals := AList.update i j (b_reversals b')\<rparr>)"
  using core_reversal [of i j b] core_reversal [of i j b'] by simp

lemma core_settlement_cong: "core b = core b' \<Longrightarrow>
    core (b\<lparr>b_settlements := AList.update i j (b_settlements b)\<rparr>) = core (b'\<lparr>b_settlements := AList.update i j (b_settlements b')\<rparr>)"
  using core_settlement [of i j b] core_settlement [of i j b'] by simp

lemma account_logged:
  assumes E: "env_ok E" and p: "persist_row E now TABLE_ACCOUNTS (enc_account (eC E) a) kind None u = (s1, Inr w)"
    and tm: "ls_tm u = ls_tm s" "ls_tm s' = ls_tm s1" and b: "core (books s') = core (book_account a (books s))"
  shows "logged E mode s s'"
proof (rule row_logged [OF E p tm])
  fix p :: data_payload and t assume "dp_table_id p = TABLE_ACCOUNTS" "dp_row_data p = enc_account (eC E) a" and c: "core (books t) = core (books s)"
  from replay_account [OF env_codec [OF E] this(1,2), of t] core_account_cong [OF c, of a] b
  show "\<exists>t'. replays E t [p] t' \<and> core (books t') = core (books s')"
    by (intro exI [of _ "apply_account a t"]) (simp add: books_apply_account)
qed

text \<open>The operations, when they succeed.\<close>

lemma create_logged:
  assumes E: "env_ok E" and c: "create_account E now a s = (s', Inr i)"
  shows "logged E mode s s'" "core (books s') = core (book_account a (books s))"
proof -
  from c obtain s1 w where p: "persist_row E now TABLE_ACCOUNTS (enc_account (eC E) a) Insert None s = (s1, Inr w)"
    and s': "s' = apply_account a (s1\<lparr>ls_db := upsert_account a (ls_db s1)\<rparr>)"
    by (auto simp: create_account_def and_then_Inr_iff)
  have "books s' = book_account a ((books s)\<lparr>b_db := upsert_account a (b_db (books s))\<rparr>)"
    using create_account_books [OF c] by simp
  with core_account_cong [OF core_db_accounts] show b: "core (books s') = core (book_account a (books s))" by metis
  show "logged E mode s s'" by (rule account_logged [OF E p refl _ b]) (simp add: s' apply_account_def)
qed

text \<open>The set of accounts on hold is the set of accounts whose flag says so.\<close>

definition holds_ok :: "book \<Rightarrow> bool" where
  "holds_ok b \<longleftrightarrow> (\<forall>i a. map_of (b_accounts b) i = Some a \<longrightarrow> acc_id a = i \<and> (i \<in> b_holds b \<longleftrightarrow> acc_legal_hold a))"

lemma holds_ok_account: "holds_ok b \<Longrightarrow> holds_ok (book_account a b)"
  by (auto simp: holds_ok_def book_account_def update_conv')

lemma holds_ok_core: "core b = core b' \<Longrightarrow> holds_ok b = holds_ok b'"
  using core_fields [of b b'] by (simp add: holds_ok_def)

lemma close_logged:
  assumes E: "env_ok E" and h: "holds_ok (books s)" and c: "close_account E now i s = (s', Inr ())"
  shows "logged E mode s s'" "\<exists>a. core (books s') = core (book_account a (books s))"
proof -
  from close_account_books [OF c] obtain a where a: "map_of (ls_accounts s) i = Some a"
    "books s' = (books s)\<lparr>b_accounts := AList.update i (a\<lparr>acc_status := AccountIsClosed\<rparr>) (ls_accounts s),
       b_db := upsert_account (a\<lparr>acc_status := AccountIsClosed\<rparr>) (ls_db s)\<rparr>" by (auto simp: Let_def)
  let ?a = "a\<lparr>acc_status := AccountIsClosed\<rparr>"
  from h a(1) have i: "acc_id a = i" "i \<in> ls_legal_hold_accounts s \<longleftrightarrow> acc_legal_hold a" by (auto simp: holds_ok_def)
  have "book_account ?a (books s) = (books s)\<lparr>b_accounts := AList.update i ?a (ls_accounts s)\<rparr>"
    using i by (cases "books s") (auto simp: book_account_def books_def)
  then have b: "core (books s') = core (book_account ?a (books s))" by (simp add: a(2) core_def upsert_account_def)
  from c a(1) obtain s1 w where p: "persist_row E now TABLE_ACCOUNTS (enc_account (eC E) ?a) Delete None
      (s\<lparr>ls_accounts := AList.update i ?a (ls_accounts s)\<rparr>) = (s1, Inr w)" "ls_tm s' = ls_tm s1"
    by (auto simp: close_account_def and_then_Inr_iff Let_def split: option.splits)
  show "logged E mode s s'" by (rule account_logged [OF E p(1) _ p(2) b]) simp
  from b show "\<exists>a. core (books s') = core (book_account a (books s))" by blast
qed

lemma hold_logged:
  assumes E: "env_ok E" and h: "holds_ok (books s)" and c: "set_legal_hold E now i hold s = (s', Inr ())"
  shows "logged E mode s s'" "\<exists>a. core (books s') = core (book_account a (books s))"
proof -
  from set_legal_hold_books [OF c] obtain a where a: "map_of (ls_accounts s) i = Some a"
    "books s' = (books s)\<lparr>b_accounts := AList.update i (a\<lparr>acc_legal_hold := hold\<rparr>) (ls_accounts s),
       b_holds := (if hold then insert i (ls_legal_hold_accounts s) else ls_legal_hold_accounts s - {i})\<rparr>" by (auto simp: Let_def)
  let ?a = "a\<lparr>acc_legal_hold := hold\<rparr>"
  from h a(1) have i: "acc_id a = i" by (auto simp: holds_ok_def)
  have b: "core (books s') = core (book_account ?a (books s))" unfolding a(2) by (simp add: book_account_def i)
  from c a(1) obtain s1 w where p: "persist_row E now TABLE_ACCOUNTS (enc_account (eC E) ?a) Delete None
      (s\<lparr>ls_accounts := AList.update i ?a (ls_accounts s)\<rparr>) = (s1, Inr w)" "ls_tm s' = ls_tm s1"
    by (auto simp: set_legal_hold_def and_then_Inr_iff Let_def split: option.splits)
  show "logged E mode s s'" by (rule account_logged [OF E p(1) _ p(2) b]) simp
  from b show "\<exists>a. core (books s') = core (book_account a (books s))" by blast
qed

lemma tm_update_balances [simp]: "ls_tm (update_balances ls s) = ls_tm s"
proof (induction ls arbitrary: s)
  case (Cons l ls)
  have "ls_tm (update_balance_cache a x d t) = ls_tm t" for a x d t
    by (simp add: update_balance_cache_def split: option.split)
  with Cons show ?case by (simp add: update_balances_def)
qed (simp add: update_balances_def)

lemma tm_apply_balances [simp]: "ls_tm (apply_balances e s) = ls_tm s"
  by (simp add: apply_balances_def)

lemma number_entry_sequence [simp]: "je_sequence (number_entry E t e s) = ls_next_sequence s"
  by (simp add: number_entry_def)

lemma post_logged:
  assumes E: "env_ok E" and n: "ls_next_sequence s \<noteq> 0" and d: "duplicate_sequence s e = None"
    and c: "post_entry E now e s = (s', Inr q)"
  shows "logged E mode s s'" "\<exists>e. books s' = book_entry e (books s)"
proof -
  let ?e = "number_entry E (now 0) e s"
  from c d have b: "books s' = book_entry ?e (books s)"
    by (cases rule: post_entry_cases) auto
  from c d obtain s1 w where p: "persist_row E (now 1) TABLE_ENTRIES (enc_entry (eC E) ?e) Insert (Some (je_prev_hash ?e))
      (s\<lparr>ls_next_sequence := ls_next_sequence s + 1\<rparr>) = (s1, Inr w)"
    and s': "s' = index_entry ?e (apply_balances ?e (s1\<lparr>ls_last_committed_entry_bytes := Some (enc_entry (eC E) ?e),
       ls_last_chain_hash := je_chain_hash ?e\<rparr>))"
    by (auto simp: post_entry_def and_then_Inr_iff Let_def split: sum.splits)
  show "logged E mode s s'"
  proof (rule row_logged [OF E p])
    show "ls_tm s' = ls_tm s1" by (simp add: s' index_entry_def)
    fix p :: data_payload and t assume "dp_table_id p = TABLE_ENTRIES" "dp_mutation p = Insert" "dp_row_data p = enc_entry (eC E) ?e"
      and c: "core (books t) = core (books s)"
    moreover from core_fields [OF c] have "ls_next_sequence t = ls_next_sequence s" by simp
    ultimately obtain t' where "replays E t [p] t'" "books t' = book_entry ?e (books t)"
      using replay_posted [OF env_codec [OF E], of p ?e t] n by auto
    with core_entry_cong [OF c, of ?e] b show "\<exists>t'. replays E t [p] t' \<and> core (books t') = core (books s')" by auto
  qed simp
  from b show "\<exists>e. books s' = book_entry e (books s)" by blast
qed

lemma reverse_logged:
  assumes E: "env_ok E" and n: "ls_next_sequence s \<noteq> 0"
    and c: "reverse_entry E uid now i descr domain s = (s', Inr v)"
  shows "logged E mode s s'" "\<exists>e r. books s' = (book_entry e (books s))\<lparr>b_reversals := r\<rparr>"
proof -
  from c obtain original e where o: "reversible s i = Inr original"
    and e: "e = finalize_hashes (blake3 (eX E)) (ls_last_chain_hash s)
         ((reversal_of uid now i descr domain original)\<lparr>je_sequence := ls_next_sequence s, je_posted_at := now 2\<rparr>)"
    and b: "books s' = (book_entry e (books s))\<lparr>b_reversals :=
         AList.update i (uid (length (je_lines original))) (ls_reversal_event_index s)\<rparr>"
    by (cases rule: reverse_entry_cases) auto
  have e2: "je_sequence e = ls_next_sequence s" "je_id e = uid (length (je_lines original))"
    by (simp_all add: e finalize_hashes_def precompute_content_hash_def reversal_of_def)
  let ?ev = "\<lparr> re_original_entry_id = i, re_reversal_entry_id = je_id e, re_reversed_at = je_posted_at e \<rparr>"
  from c o obtain s1 where p: "persist_row_pair E (now 3) TABLE_ENTRIES (enc_entry (eC E) e) (Some (je_prev_hash e))
      TABLE_REVERSAL_EVENTS (enc_reversal (eC E) ?ev) (s\<lparr>ls_next_sequence := ls_next_sequence s + 1\<rparr>) = (s1, Inr ())"
    and s': "s' = index_entry e (update_balances (je_lines e) (s1\<lparr>ls_last_chain_hash := je_chain_hash e,
         ls_reversal_event_index := AList.update i (je_id e) (ls_reversal_event_index s1)\<rparr>))"
    unfolding e by (auto simp: reverse_entry_def and_then_Inr_iff Let_def)
  have tm: "ls_tm s' = ls_tm s1" by (simp add: s' index_entry_def)
  show "logged E mode s s'"
    unfolding logged_def
  proof (intro allI impI)
    fix h assume "tm_reach (eX E) mode None (ls_tm s) h"
    then have "tm_reach (eX E) mode None (ls_tm (s\<lparr>ls_next_sequence := ls_next_sequence s + 1\<rparr>)) h" by simp
    from persist_row_pair_reach [OF E this p] obtain tx p1 l1 p2 l2 where
      r: "tm_reach (eX E) mode None (ls_tm s') (h @ [(tx, [row_payload E TABLE_ENTRIES p1 l1 Insert (enc_entry (eC E) e) (Some (je_prev_hash e)),
         row_payload E TABLE_REVERSAL_EVENTS p2 l2 Insert (enc_reversal (eC E) ?ev) None])])" (is "tm_reach _ _ _ _ (h @ [(tx, [?p, ?q])])")
      unfolding tm by blast
    have "\<exists>t'. replays E t [?p, ?q] t' \<and> core (books t') = core (books s')" if c: "core (books t) = core (books s)" for t
    proof -
      from core_fields [OF c] have "je_sequence e = ls_next_sequence t" "je_sequence e \<noteq> 0" using e2 n by simp_all
      from replay_posted [OF env_codec [OF E] _ _ _ this, of ?p] obtain t1 where
        t1: "replays E t [?p] t1" "books t1 = book_entry e (books t)" by auto
      from replay_reversed [OF env_codec [OF E], of ?q ?ev t1] obtain t2 where
        t2: "replays E t1 [?q] t2" "books t2 = (books t1)\<lparr>b_reversals := AList.update i (je_id e) (b_reversals (books t1))\<rparr>" by auto
      have "core (books t1) = core (book_entry e (books s))" using core_entry_cong [OF c] t1(2) by simp
      from core_reversal_cong [OF this] t2(2) b e2(2) have "core (books t2) = core (books s')"
        by (simp add: book_entry_def)
      with replays_append [OF t1(1) t2(1)] show ?thesis by auto
    qed
    with r show "\<exists>tx ps. tm_reach (eX E) mode None (ls_tm s') (h @ [(tx, ps)]) \<and>
        (\<forall>t. core (books t) = core (books s) \<longrightarrow> (\<exists>t'. replays E t ps t' \<and> core (books t') = core (books s')))" by blast
  qed
  from b show "\<exists>e r. books s' = (book_entry e (books s))\<lparr>b_reversals := r\<rparr>" by blast
qed

lemma settle_logged:
  assumes E: "env_ok E" and c: "apply_settlement_event E now i st notes s = (s', Inr ())"
  shows "logged E mode s s'" "\<exists>r. books s' = (books s)\<lparr>b_settlements := r\<rparr>"
proof -
  from c have b: "books s' = (books s)\<lparr>b_settlements := AList.update i st (b_settlements (books s))\<rparr>"
    by (cases rule: settlement_cases) auto
  then show "\<exists>r. books s' = (books s)\<lparr>b_settlements := r\<rparr>" by blast
  let ?ev = "\<lparr> se_entry_id = i, se_new_status = st, se_settled_at = now 0, se_notes = notes \<rparr>"
  from c obtain s1 w where p: "persist_row E (now 1) TABLE_SETTLEMENT_EVENTS (enc_settlement (eC E) ?ev) Insert None s = (s1, Inr w)"
    "ls_tm s' = ls_tm s1"
    by (auto simp: apply_settlement_event_def and_then_Inr_iff Let_def split: sum.splits option.splits)
  show "logged E mode s s'"
  proof (rule row_logged [OF E p(1) refl p(2)])
    fix p :: data_payload and t assume "dp_table_id p = TABLE_SETTLEMENT_EVENTS" "dp_mutation p = Insert"
      "dp_row_data p = enc_settlement (eC E) ?ev" and c: "core (books t) = core (books s)"
    then obtain t' where "replays E t [p] t'" "books t' = (books t)\<lparr>b_settlements := AList.update i st (b_settlements (books t))\<rparr>"
      using replay_settled [OF env_codec [OF E], of p ?ev t] by auto
    with core_settlement_cong [OF c, of i st] b show "\<exists>t'. replays E t [p] t' \<and> core (books t') = core (books s')" by auto
  qed
qed

lemma reconcile_logged:
  assumes E: "env_ok E" and c: "reconcile_and_record E u now s = (s', Inr v)"
  shows "logged E mode s s'" "books s' = books s"
proof -
  show b: "books s' = books s" using reconcile_and_record_books [of E u now s] c by simp
  from c obtain r w where p: "persist_row E (now 1) TABLE_RECONCILIATION_EVENTS (enc_recon (eC E) r) Insert None s = (s', Inr w)"
    by (auto simp: reconcile_and_record_def and_then_Inr_iff Let_def)
  show "logged E mode s s'"
  proof (rule row_logged [OF E p refl refl])
    fix p :: data_payload and t assume "dp_table_id p = TABLE_RECONCILIATION_EVENTS" "dp_mutation p = Insert"
      "dp_row_data p = enc_recon (eC E) r" and c: "core (books t) = core (books s)"
    with replay_recon [OF env_codec [OF E], of p r t] b show "\<exists>t'. replays E t [p] t' \<and> core (books t') = core (books s')" by auto
  qed
qed

lemma checkpoint_reach:
  assumes E: "env_ok E" and r: "tm_reach (eX E) mode None (ls_tm s) h" and c: "ledger_checkpoint E s = (s', Inr n)"
  shows "tm_reach (eX E) mode None (ls_tm s') h" "books s' = books s"
proof -
  show "books s' = books s" using books_ledger_checkpoint [of E s] c by simp
  from c obtain root where "checkpoint_signed (eX E) (ls_tm s) root = (ls_tm s', Inr n)"
    by (auto simp: ledger_checkpoint_def tm_step_Inr split: prod.splits sum.splits)
  moreover have "payload_fits None (enc_checkpoint (eX E) (new_checkpoint (eX E) (ww_sequence (tm_wal (ls_tm s))) root None))"
    using E by (simp add: env_ok_def ext_small_def)
  ultimately show "tm_reach (eX E) mode None (ls_tm s') h" by (rule reach_checkpoint_signed [OF r])
qed

subsection \<open>Runs\<close>

text \<open>
  \<open>ledger_run E mode s bs\<close>: \<open>s\<close> was reached from a ledger opened on an empty directory, with no signing key,
  by operations that succeeded, and \<open>bs\<close> are the cores of the books at the start and after each
  transaction.  An operation that is rejected before it writes leaves the store as it is.
\<close>

inductive ledger_run :: "env \<Rightarrow> wal_sync_mode \<Rightarrow> ledger_store \<Rightarrow> book list \<Rightarrow> bool" for E :: env and mode :: wal_sync_mode where
  run_open: "os_files d = [] \<Longrightarrow> tm_open (eX E) d None mode = (d', Inr tm) \<Longrightarrow>
    s = ledger_store_init tm pg entry_db_empty \<Longrightarrow> ledger_run E mode s [core (books s)]"
| run_create: "ledger_run E mode s bs \<Longrightarrow> create_account E t a s = (s', Inr i) \<Longrightarrow> ledger_run E mode s' (bs @ [core (books s')])"
| run_close: "ledger_run E mode s bs \<Longrightarrow> close_account E t i s = (s', Inr ()) \<Longrightarrow> ledger_run E mode s' (bs @ [core (books s')])"
| run_hold: "ledger_run E mode s bs \<Longrightarrow> set_legal_hold E t i hold s = (s', Inr ()) \<Longrightarrow>
    ledger_run E mode s' (bs @ [core (books s')])"
| run_post: "ledger_run E mode s bs \<Longrightarrow> duplicate_sequence s e = None \<Longrightarrow> ls_next_sequence s \<noteq> - 1 \<Longrightarrow>
    post_entry E now e s = (s', Inr q) \<Longrightarrow> ledger_run E mode s' (bs @ [core (books s')])"
| run_reverse: "ledger_run E mode s bs \<Longrightarrow> ls_next_sequence s \<noteq> - 1 \<Longrightarrow>
    reverse_entry E uid now i descr domain s = (s', Inr v) \<Longrightarrow> ledger_run E mode s' (bs @ [core (books s')])"
| run_settle: "ledger_run E mode s bs \<Longrightarrow> apply_settlement_event E now i st notes s = (s', Inr ()) \<Longrightarrow>
    ledger_run E mode s' (bs @ [core (books s')])"
| run_reconcile: "ledger_run E mode s bs \<Longrightarrow> reconcile_and_record E u now s = (s', Inr w) \<Longrightarrow>
    ledger_run E mode s' (bs @ [core (books s')])"
| run_checkpoint: "ledger_run E mode s bs \<Longrightarrow> ledger_checkpoint E s = (s', Inr n) \<Longrightarrow> ledger_run E mode s' bs"
| run_currency: "ledger_run E mode s bs \<Longrightarrow> ledger_run E mode (register_currency c s) bs"

text \<open>Replaying any prefix of the history gives the books after its last transaction.\<close>

definition history_of :: "env \<Rightarrow> (u64 \<times> data_payload list) list \<Rightarrow> book list \<Rightarrow> bool" where
  "history_of E h bs \<longleftrightarrow> length bs = Suc (length h) \<and>
     (\<forall>s n. core (books s) = bs ! 0 \<longrightarrow> n \<le> length h \<longrightarrow>
        (\<exists>s'. replays E s (concat (map snd (take n h))) s' \<and> core (books s') = bs ! n))"

lemma last_at: "length xs = Suc n \<Longrightarrow> xs ! n = last xs"
  by (cases xs) (auto simp: last_conv_nth)

lemma history_of_init: "history_of E [] [b]"
  by (auto simp: history_of_def replays_def)

lemma history_of_snoc:
  assumes h: "history_of E h bs" and l: "last bs = core (books s)"
    and step: "\<And>t. core (books t) = core (books s) \<Longrightarrow> \<exists>t'. replays E t ps t' \<and> core (books t') = b"
  shows "history_of E (h @ [(tx, ps)]) (bs @ [b])"
  unfolding history_of_def
proof (intro conjI allI impI)
  from h have len: "length bs = Suc (length h)" by (simp add: history_of_def)
  then show "length (bs @ [b]) = Suc (length (h @ [(tx, ps)]))" by simp
  fix t n assume t: "core (books t) = (bs @ [b]) ! 0" and n: "n \<le> length (h @ [(tx, ps)])"
  from t len have t0: "core (books t) = bs ! 0" by (simp add: nth_append)
  show "\<exists>s'. replays E t (concat (map snd (take n (h @ [(tx, ps)])))) s' \<and> core (books s') = (bs @ [b]) ! n"
  proof (cases "n \<le> length h")
    case True
    with h t0 len show ?thesis by (auto simp: history_of_def nth_append)
  next
    case False
    with n have n: "n = Suc (length h)" by simp
    from h t0 have "\<exists>t1. replays E t (concat (map snd (take (length h) h))) t1 \<and> core (books t1) = bs ! length h"
      unfolding history_of_def by blast
    then obtain t1 where t1: "replays E t (concat (map snd h)) t1" "core (books t1) = bs ! length h" by auto
    from t1(2) l last_at [OF len] have "core (books t1) = core (books s)" by simp
    from step [OF this] obtain t2 where "replays E t1 ps t2" "core (books t2) = b" by blast
    with replays_append [OF t1(1)] n len show ?thesis by (auto simp: nth_append)
  qed
qed

definition run_inv :: "env \<Rightarrow> wal_sync_mode \<Rightarrow> ledger_store \<Rightarrow> book list \<Rightarrow> bool" where
  "run_inv E mode s bs \<longleftrightarrow> holds_ok (books s) \<and> ls_next_sequence s \<noteq> 0 \<and> last bs = core (books s) \<and>
     (\<forall>tm pg. core (books (ledger_store_init tm pg entry_db_empty)) = bs ! 0) \<and>
     (\<exists>h. tm_reach (eX E) mode None (ls_tm s) h \<and> history_of E h bs)"

lemma run_inv_logged:
  assumes "run_inv E mode s bs" "logged E mode s s'" "holds_ok (books s')" "ls_next_sequence s' \<noteq> 0"
  shows "run_inv E mode s' (bs @ [core (books s')])"
proof -
  from assms(1) obtain h where h: "tm_reach (eX E) mode None (ls_tm s) h" "history_of E h bs"
    "last bs = core (books s)" "\<forall>tm pg. core (books (ledger_store_init tm pg entry_db_empty)) = bs ! 0"
    by (auto simp: run_inv_def)
  from assms(2) h(1) obtain tx ps where p: "tm_reach (eX E) mode None (ls_tm s') (h @ [(tx, ps)])"
    "\<And>t. core (books t) = core (books s) \<Longrightarrow> \<exists>t'. replays E t ps t' \<and> core (books t') = core (books s')"
    unfolding logged_def by blast
  from h(2) have "bs \<noteq> []" by (auto simp: history_of_def)
  with history_of_snoc [OF h(2,3) p(2)] p(1) h(4) assms(3,4) show ?thesis
    by (auto simp: run_inv_def nth_append)
qed

lemma run_inv_account:
  assumes "run_inv E mode s bs" "logged E mode s s'" "core (books s') = core (book_account a (books s))"
  shows "run_inv E mode s' (bs @ [core (books s')])"
proof (rule run_inv_logged [OF assms(1,2)])
  from core_fields [OF assms(3)] have "ls_next_sequence s' = ls_next_sequence s" by (simp add: book_account_def)
  with assms(1) show "ls_next_sequence s' \<noteq> 0" by (simp add: run_inv_def)
  from assms(1) holds_ok_account holds_ok_core [OF assms(3)] show "holds_ok (books s')" by (simp add: run_inv_def)
qed

lemma run_inv_entry:
  assumes "run_inv E mode s bs" "logged E mode s s'"
    and b: "b_accounts (books s') = b_accounts (books s)" "b_holds (books s') = b_holds (books s)"
      "b_next (books s') = b_next (books s) \<or> ls_next_sequence s \<noteq> - 1 \<and> b_next (books s') = b_next (books s) + 1"
  shows "run_inv E mode s' (bs @ [core (books s')])"
proof (rule run_inv_logged [OF assms(1,2)])
  have "ls_next_sequence s \<noteq> - 1 \<Longrightarrow> ls_next_sequence s + 1 \<noteq> 0" by (simp add: add_eq_0_iff2)
  with assms(1) b(3) show "ls_next_sequence s' \<noteq> 0" by (auto simp: run_inv_def)
  from assms(1) b(1,2) show "holds_ok (books s')" by (simp add: run_inv_def holds_ok_def)
qed

lemma ledger_run_inv:
  assumes E: "env_ok E" and "ledger_run E mode s bs"
  shows "run_inv E mode s bs"
  using assms(2)
proof (induction rule: ledger_run.induct)
  case (run_open d d' tm s pg)
  have "tm_reach (eX E) mode None (ls_tm s) []"
    using reach_open [OF run_open(1,2)] run_open(3) by (simp add: ledger_store_init_def)
  moreover have "books (ledger_store_init tm' pg' entry_db_empty) = books s" for tm' pg'
    by (simp add: run_open(3) ledger_store_init_def books_def)
  moreover have "holds_ok (books s)" "ls_next_sequence s \<noteq> 0"
    by (simp_all add: run_open(3) holds_ok_def ledger_store_init_def)
  ultimately show ?case unfolding run_inv_def using history_of_init [of E "core (books s)"] by auto
next
  case (run_create s bs t a s' i)
  from create_logged [OF E run_create(2)] run_inv_account [OF run_create(3)] show ?case by blast
next
  case (run_close s bs t i s')
  from run_close(3) have "holds_ok (books s)" by (simp add: run_inv_def)
  from close_logged [OF E this run_close(2)] run_inv_account [OF run_close(3)] show ?case by blast
next
  case (run_hold s bs t i hold s')
  from run_hold(3) have "holds_ok (books s)" by (simp add: run_inv_def)
  from hold_logged [OF E this run_hold(2)] run_inv_account [OF run_hold(3)] show ?case by blast
next
  case (run_post s bs e now s' q)
  from run_post(5) have "ls_next_sequence s \<noteq> 0" by (simp add: run_inv_def)
  note l = post_logged [OF E this run_post(2,4)]
  from l(2) obtain e' where "books s' = book_entry e' (books s)" by blast
  with run_post(3) show ?case by (intro run_inv_entry [OF run_post(5) l(1)]) (simp_all add: book_entry_def del: books_fields)
next
  case (run_reverse s bs uid now i descr domain s' v)
  from run_reverse(4) have "ls_next_sequence s \<noteq> 0" by (simp add: run_inv_def)
  note l = reverse_logged [OF E this run_reverse(3)]
  from l(2) obtain e' r where "books s' = (book_entry e' (books s))\<lparr>b_reversals := r\<rparr>" by blast
  with run_reverse(2) show ?case
    by (intro run_inv_entry [OF run_reverse(4) l(1)]) (simp_all add: book_entry_def del: books_fields)
next
  case (run_settle s bs now i st nt s')
  note l = settle_logged [OF E run_settle(2)]
  from l(2) obtain r where "books s' = (books s)\<lparr>b_settlements := r\<rparr>" by blast
  then show ?case by (intro run_inv_entry [OF run_settle(3) l(1)]) (simp_all del: books_fields)
next
  case (run_reconcile s bs u now s' w)
  note l = reconcile_logged [OF E run_reconcile(2)]
  show ?case by (rule run_inv_entry [OF run_reconcile(3) l(1)]) (simp_all add: l(2) del: books_fields)
next
  case (run_checkpoint s bs s' n)
  from run_checkpoint(3) obtain h where h: "tm_reach (eX E) mode None (ls_tm s) h" "history_of E h bs" by (auto simp: run_inv_def)
  note c = checkpoint_reach [OF E h(1) run_checkpoint(2)]
  from run_checkpoint(3) h(2) c(1) books_eqD(4) [OF c(2)] show ?case by (auto simp: run_inv_def c(2))
next
  case (run_currency s bs c)
  then show ?case by (auto simp: run_inv_def register_currency_def holds_ok_def core_def)
qed

subsection \<open>Recovery\<close>

lemma commit_all_replay:
  "commit_all (replay_tx E m x) q ts = replay_payloads E m x q (concat (map ct_data_payloads ts))"
  by (induction ts arbitrary: q) (simp_all add: replay_tx_def replay_payloads_append)

lemma stx_of_payloads: "map stx_of ts = h \<Longrightarrow> map ct_data_payloads ts = map snd h"
  by (auto simp: stx_of_def)

text \<open>Recovery with any callback sees the transactions that \<^const>\<open>collect\<close> collects.\<close>

lemma recover_callback:
  assumes X: "ext_ok X" and r: "tm_reach X mode sk tm h" and e: "crash (ww_os (tm_wal tm)) e"
    and oc: "\<And>n ts. n \<le> length h \<Longrightarrow> map stx_of ts = take n h \<Longrightarrow> snd (commit_all oc s ts) = Inr ()"
  shows "\<exists>n ts rr. n \<le> length h \<and> (mode = PerRecord \<longrightarrow> n = length h) \<and> map stx_of ts = take n h \<and>
     recover_streaming X e None False None 0 from oc s = (fst (commit_all oc s ts), Inr rr)"
proof -
  from tm_reach_inv [OF X r] obtain rs m where inv: "tm_inv X mode tm h rs m" by blast
  from tm_inv_crash [OF X inv e, of "\<lambda>_. ()"] obtain n rr where n: "n \<le> length h" "mode = PerRecord \<longrightarrow> n = length h"
    "recover_streaming X e None False None 0 (\<lambda>_. ()) collect [] = (take n h, Inr rr)" by blast
  from inv have inv: "wal_inv X (tm_wal tm) rs m" "ww_encryption_key (tm_wal tm) = None" "\<forall>r \<in> set rs. valid_type r"
    by (auto simp: tm_inv_def)
  from crash_reads_back [OF X wal_inv_log [OF inv(1)] e] obtain ks where
    ks: "reads_back X (tm_wal tm) e ks" "prefix ks rs" by blast
  from reads_back_plain [OF inv(2) ks(1)] obtain t where t: "wal_items X e None 0 = map Inr ks @ t" "torn_tail t" .
  have v: "\<forall>r \<in> set ks. valid_type r" using inv(3) ks(2) set_mono_prefix by blast
  obtain s' res where r: "recover_streaming X e None False None 0 from oc s = (s', res)" by (rule prod.exhaust)
  from recover_streaming_spec [OF t v n(3)] have
    "take n h = map (\<lambda>(tx, pls). (tx, decode_payloads X pls)) (committed_spec (map rec_req ks))"
    by (auto simp: commit_all_collect)
  moreover from recover_streaming_spec [OF t v r] obtain ts where
    "map stx_of ts = map (\<lambda>(tx, pls). (tx, decode_payloads X pls)) (committed_spec (map rec_req ks))"
    and s': "s' = fst (commit_all oc s ts)"
    and res: "case snd (commit_all oc s ts) of Inl e \<Rightarrow> res = Inl e | Inr _ \<Rightarrow> \<exists>rr. res = Inr rr \<and> rr_torn_write_detected rr = (t \<noteq> [])"
    by blast
  ultimately have ts: "map stx_of ts = take n h" by simp
  from res oc [OF n(1) ts] obtain rr where "res = Inr rr" by auto
  with n(1,2) ts r s' show ?thesis by blast
qed

text \<open>
  C2: recovery.  A ledger was opened on an empty directory without a signing key and ran operations that succeeded.  Replaying
  the whole log that a crash leaves into an empty store with an empty index (no startup checkpoint, no import mode, no commit signatures) succeeds and restores the accounts, holds, entries, balances, chain tip,
  next sequence number, reversals and settlements as they were after some transaction of the
  run; with \<^verbatim>\<open>PerRecord\<close> sync, after the last one.
\<close>

theorem ledger_recovers:
  assumes E: "env_ok E" and run: "ledger_run E mode s bs" and e: "crash (ww_os (tm_wal (ls_tm s))) e"
    and key: "signing_pubkey (eX E) tm0 = None"
  shows "\<exists>n s'. n < length bs \<and> (mode = PerRecord \<longrightarrow> bs ! n = core (books s)) \<and>
     replay_from_wal_mode E e None False (ledger_store_init tm0 pg0 entry_db_empty) = (s', Inr ()) \<and> core (books s') = bs ! n"
proof -
  let ?s = "ledger_store_init tm0 pg0 entry_db_empty" and ?oc = "replay_tx E False 0"
  from ledger_run_inv [OF E run] obtain h where h: "tm_reach (eX E) mode None (ls_tm s) h" "history_of E h bs"
    "last bs = core (books s)" "core (books ?s) = bs ! 0"
    unfolding run_inv_def by blast
  have len: "length bs = Suc (length h)" using h(2) by (simp add: history_of_def)
  have rep: "\<exists>t. commit_all ?oc (?s, False) ts = ((t, False), Inr ()) \<and> core (books t) = bs ! n"
    if "n \<le> length h" "map stx_of ts = take n h" for n ts
  proof -
    from h(2,4) that(1) obtain t where "replays E ?s (concat (map snd (take n h))) t" "core (books t) = bs ! n"
      unfolding history_of_def by metis
    with stx_of_payloads [OF that(2)] show ?thesis by (auto simp: commit_all_replay replays_def)
  qed
  have "ext_ok (eX E)" using E by (simp add: env_ok_def)
  moreover have "snd (commit_all ?oc (?s, False) ts) = Inr ()" if "n \<le> length h" "map stx_of ts = take n h" for n ts
    using rep [OF that] by auto
  ultimately obtain n ts rr where n: "n \<le> length h" "mode = PerRecord \<longrightarrow> n = length h" "map stx_of ts = take n h"
    "recover_streaming (eX E) e None False None 0 LWal ?oc (?s, False) = (fst (commit_all ?oc (?s, False) ts), Inr rr)"
    using recover_callback [OF _ h(1) e, of ?oc "(?s, False)" LWal] by blast
  from rep [OF n(1,3)] obtain t where t: "commit_all ?oc (?s, False) ts = ((t, False), Inr ())" "core (books t) = bs ! n" by blast
  have f: "max_sequence (ls_db ?s) = 0" "load_accounts 0 False ?s = ?s" "ls_tm ?s = tm0"
    by (simp_all add: ledger_store_init_def entry_db_empty_def max_sequence_def load_accounts_def)
  have "replay_from_wal_mode E e None False ?s = (t, Inr ())"
    unfolding replay_from_wal_mode_def Let_def option.case f using n(4) t(1) key by simp
  moreover have "bs ! n = core (books s)" if "mode = PerRecord"
    using that n(2) h(3) last_at [OF len] by simp
  ultimately show ?thesis using t(2) n(1) len by (intro exI [of _ n] exI [of _ t]) auto
qed

subsection \<open>An index that lags behind the log\<close>

text \<open>
  What the property leaves out: an index that survived but lags behind the log.  Replay takes the index for current until
  it meets the first entry that the index lacks, adds only the entries from there on to the balances, and the rebuild from the index is
  then skipped: the balances miss every entry that was indexed before.
\<close>

definition same_money :: "ledger_store \<Rightarrow> ledger_store \<Rightarrow> bool" where
  "same_money t s \<longleftrightarrow> ls_balance_cache t = ls_balance_cache s \<and> ls_accounts t = ls_accounts s"

lemma same_money_line: "same_money t s \<Longrightarrow> same_money (update_balance_cache a x d t) (update_balance_cache a x d s)"
  by (simp add: same_money_def update_balance_cache_def split: option.split)

lemma same_money_lines: "same_money t s \<Longrightarrow> same_money (update_balances ls t) (update_balances ls s)"
  unfolding update_balances_def
proof (induction ls arbitrary: s t)
  case (Cons l ls)
  from Cons.IH [OF same_money_line [OF Cons.prems]] show ?case by (simp only: foldl_Cons)
qed simp

lemma same_money_apply: "same_money t s \<Longrightarrow> same_money (apply_balances e t) (apply_balances e s)"
  using same_money_lines by (simp add: apply_balances_def)

lemma replay_indexed:
  assumes "\<forall>e \<in> set es. je_sequence e \<le> mx"
  shows "\<exists>t. foldl (\<lambda>q e. replay_entry False mx e q) (s, True) es = (t, True) \<and> same_money t s"
  using assms
proof (induction es arbitrary: s)
  case (Cons e es)
  have le: "\<not> mx < je_sequence e" using Cons.prems by (simp add: not_less)
  obtain t b where t: "replay_entry False mx e (s, True) = (t, b)" by (rule prod.exhaust)
  with le have 1: "b" "same_money t s"
    unfolding replay_entry_def Let_def by (auto simp: advance_sequence_def same_money_def)
  have "\<forall>e \<in> set es. je_sequence e \<le> mx" using Cons.prems by simp
  from Cons.IH [OF this, of t] obtain u where "foldl (\<lambda>q e. replay_entry False mx e q) (t, True) es = (u, True)" "same_money u t" by blast
  moreover from this(2) 1(2) have "same_money u s" by (simp only: same_money_def)
  ultimately show ?case using 1(1) t by (intro exI [of _ u]) simp
qed (simp add: same_money_def)

lemma replay_new_entry:
  assumes "same_money t s" "je_sequence e > mx"
  shows "\<exists>u. replay_entry False mx e (t, b) = (u, False) \<and> same_money u (apply_balances e s)"
proof -
  let ?t = "(advance_sequence (je_sequence e) t)\<lparr>ls_last_chain_hash := je_chain_hash e\<rparr>"
  let ?v = "apply_balances e ?t"
  let ?u = "index_entry e (?v\<lparr>ls_next_entry_page := ls_next_entry_page ?v + 1\<rparr>)"
  have "same_money ?t s"
    using assms(1) by (simp add: same_money_def advance_sequence_def)
  from same_money_apply [OF this, of e] have "same_money ?u (apply_balances e s)"
    unfolding index_entry_def same_money_def by simp
  moreover have "\<not> je_sequence e \<le> mx" using assms(2) by (simp add: not_le)
  then have "replay_entry False mx e (t, b) = (?u, False)"
    using assms(2) unfolding replay_entry_def Let_def by simp
  ultimately show ?thesis by blast
qed

lemma replay_new:
  assumes "same_money t s" "\<forall>e \<in> set es. je_sequence e > mx"
  shows "\<exists>u. foldl (\<lambda>q e. replay_entry False mx e q) (t, False) es = (u, False) \<and>
     same_money u (foldl (\<lambda>s e. apply_balances e s) s es)"
  using assms
proof (induction es arbitrary: s t)
  case (Cons e es)
  then obtain u where "replay_entry False mx e (t, False) = (u, False)" "same_money u (apply_balances e s)"
    using replay_new_entry [of t s mx e False] by auto
  with Cons.IH [of u] Cons.prems show ?case by simp
qed simp

lemma lagging_index_loses_balances:
  assumes "\<forall>e \<in> set es. je_sequence e \<le> mx" "\<forall>e \<in> set (f # fs). je_sequence e > mx"
  shows "\<exists>t. foldl (\<lambda>q e. replay_entry False mx e q) (s, True) (es @ f # fs) = (t, False) \<and>
     ls_balance_cache t = ls_balance_cache (foldl (\<lambda>s e. apply_balances e s) s (f # fs))"
proof -
  from replay_indexed [OF assms(1)] obtain t where t: "foldl (\<lambda>q e. replay_entry False mx e q) (s, True) es = (t, True)" "same_money t s" by blast
  from replay_new_entry [OF t(2), of mx f True] assms(2) obtain u where
    u: "replay_entry False mx f (t, True) = (u, False)" "same_money u (apply_balances f s)" by auto
  have "\<forall>e \<in> set fs. je_sequence e > mx" using assms(2) by simp
  from replay_new [OF u(2) this] obtain v where
    v: "foldl (\<lambda>q e. replay_entry False mx e q) (u, False) fs = (v, False)"
      "same_money v (foldl (\<lambda>s e. apply_balances e s) (apply_balances f s) fs)" by blast
  have "foldl (\<lambda>q e. replay_entry False mx e q) (s, True) (es @ f # fs) = (v, False)"
    by (simp only: foldl_append foldl_Cons t(1) u(1) v(1))
  moreover have "ls_balance_cache v = ls_balance_cache (foldl (\<lambda>s e. apply_balances e s) s (f # fs))"
    using v(2) by (simp only: same_money_def foldl_Cons)
  ultimately show ?thesis by blast
qed

end
