(* ===== verification/Ledger_Props.thy ===== *)
theory Ledger_Props
  imports Ledger_Inv
begin

text \<open>
  What the ledger guarantees in every reachable state: double-entry bookkeeping, balances that
  are the sums of the entries, a verified hash chain, snapshots, and what posting and reversal
  do to the balances.
\<close>

subsection \<open>Facts of reachable states\<close>

lemma reach_facts:
  assumes "ledger_reach E s"
  shows "entries_inv (ls_db s) (ls_next_sequence s)" "accounts_inv (ls_accounts s) (db_entries (ls_db s))"
    "cache_inv (ls_accounts s) (ls_balance_cache s) (db_entries (ls_db s))"
    "stream_fold (check_link E) ZERO_HASH (db_entries (ls_db s)) = (ls_last_chain_hash s, Inr ())"
  using reach_inv [OF assms] by (simp_all add: book_inv_def)

lemma entries_inv_key:
  assumes "entries_inv db nxt" "e \<in> set (db_entries db)"
  shows "db_key e = uint (je_sequence e)" "0 < db_key e"
proof -
  from assms have "0 < je_sequence e" "je_sequence e < nxt" "unat nxt < 2 ^ 63" by (auto simp: entries_inv_def)
  then have "unat (je_sequence e) < 2 ^ 63" by (simp add: word_less_nat_alt)
  then show "db_key e = uint (je_sequence e)" by (simp add: db_key_def next_key)
  with \<open>0 < je_sequence e\<close> show "0 < db_key e" by (simp add: word_less_def)
qed

lemma entries_stream:
  assumes "entries_inv db nxt"
  shows "db_stream db = db_entries db"
proof (rule db_stream_sorted)
  have "map db_key (db_entries db) = map uint (map je_sequence (db_entries db))"
    using entries_inv_key(1) [OF assms] by simp
  moreover have "sorted (map je_sequence (db_entries db))"
    using assms by (auto simp: entries_inv_def intro: strict_sorted_imp_sorted)
  then have "sorted (map uint (map je_sequence (db_entries db)))"
    by (simp add: sorted_map word_le_def)
  ultimately show "sorted (map db_key (db_entries db))" by (simp only:)
qed

lemma reach_balance:
  assumes "ledger_reach E s"
  shows "balance s a = (\<Sum>e\<leftarrow>db_entries (ls_db s). entry_effect (ls_accounts s) a e)"
  using reach_facts(3) [OF assms] by (simp add: balance_def cache_inv_def)

subsection \<open>Double entry\<close>

text \<open>The amount by which a balance counts on the debit side.\<close>

definition debit_side :: "account \<Rightarrow> int \<Rightarrow> int" where
  "debit_side acct b = (if debit_normal (acc_type acct) then b else - b)"

lemma debit_side_normal [simp]:
  "debit_side acct (normal_delta (debit_normal (acc_type acct)) d a) = - signed_amount_of d a"
  by (cases d) (simp_all add: debit_side_def)

lemma debit_side_simps [simp]: "debit_side acct 0 = 0" "debit_side acct (a + b) = debit_side acct a + debit_side acct b"
  by (simp_all add: debit_side_def)

lemma debit_side_sum_list: "debit_side acct (\<Sum>x\<leftarrow>xs. f x) = (\<Sum>x\<leftarrow>xs. debit_side acct (f x))"
  by (induction xs) simp_all

lemma sum_list_zero: "(\<And>x. x \<in> set xs \<Longrightarrow> f x = (0 :: int)) \<Longrightarrow> (\<Sum>x\<leftarrow>xs. f x) = 0"
  by (induction xs) simp_all

lemma sum_list_swap: "(\<Sum>x\<leftarrow>xs. \<Sum>y\<leftarrow>ys. f x y) = (\<Sum>y\<leftarrow>ys. \<Sum>x\<leftarrow>xs. (f x y :: int))"
  by (induction xs) (simp_all add: sum_list_addf)

lemma sum_list_single:
  assumes "distinct (map fst m)" "map_of m k = Some v"
  shows "(\<Sum>p\<leftarrow>m. if fst p = k then f p else 0) = (f (k, v) :: int)"
  using assms
proof (induction m)
  case (Cons p m)
  show ?case
  proof (cases "fst p = k")
    case True
    with Cons.prems have "k \<notin> fst ` set m" and p: "p = (k, v)" by (auto simp: prod_eq_iff)
    then have "(\<Sum>q\<leftarrow>m. if fst q = k then f q else 0) = 0"
      by (intro sum_list_zero) (auto simp: image_iff)
    with p show ?thesis by simp
  next
    case False
    with Cons show ?thesis by (cases p) simp
  qed
qed simp

lemma line_debits:
  assumes "distinct (map fst accts)" "map_of accts (jl_account_id l) \<noteq> None"
  shows "(\<Sum>p\<leftarrow>accts. debit_side (snd p) (line_effect accts (fst p) l)) = - signed_amount l"
proof -
  from assms(2) obtain acct where a: "map_of accts (jl_account_id l) = Some acct" by auto
  have "map (\<lambda>p. debit_side (snd p) (line_effect accts (fst p) l)) accts =
      map (\<lambda>p. if fst p = jl_account_id l then debit_side (snd p) (line_effect accts (fst p) l) else 0) accts"
    by (auto simp: line_effect_def)
  then have "(\<Sum>p\<leftarrow>accts. debit_side (snd p) (line_effect accts (fst p) l)) =
      debit_side acct (line_effect accts (jl_account_id l) l)"
    using sum_list_single [OF assms(1) a, of "\<lambda>p. debit_side (snd p) (line_effect accts (fst p) l)"]
    by (simp only: fst_conv snd_conv)
  with a show ?thesis by (simp add: line_effect_def signed_amount_def)
qed

lemma entry_debits:
  assumes "distinct (map fst accts)" "lines_known accts e" "validate e = Inr ()"
  shows "(\<Sum>p\<leftarrow>accts. debit_side (snd p) (entry_effect accts (fst p) e)) = 0"
proof (cases "affects_balance (je_status e)")
  case True
  have "(\<Sum>p\<leftarrow>accts. debit_side (snd p) (entry_effect accts (fst p) e)) =
      (\<Sum>p\<leftarrow>accts. \<Sum>l\<leftarrow>je_lines e. debit_side (snd p) (line_effect accts (fst p) l))"
    using True by (simp add: entry_effect_def debit_side_sum_list)
  also have "\<dots> = (\<Sum>l\<leftarrow>je_lines e. \<Sum>p\<leftarrow>accts. debit_side (snd p) (line_effect accts (fst p) l))"
    by (rule sum_list_swap)
  also have "\<dots> = (\<Sum>l\<leftarrow>je_lines e. - signed_amount l)"
  proof -
    have "map (\<lambda>l. \<Sum>p\<leftarrow>accts. debit_side (snd p) (line_effect accts (fst p) l)) (je_lines e) =
        map (\<lambda>l. - signed_amount l) (je_lines e)"
      using assms(2) line_debits [OF assms(1)] unfolding lines_known_def by (intro map_cong refl) blast
    then show ?thesis by (simp only:)
  qed
  also have "\<dots> = 0" using assms(3) by (simp add: validate_balanced sum_list_uminus)
  finally show ?thesis .
qed (simp add: entry_effect_def)

lemma ledger_debits:
  assumes "ledger_reach E s"
  shows "(\<Sum>p\<leftarrow>ls_accounts s. debit_side (snd p) (balance s (fst p))) = 0"
proof -
  let ?A = "ls_accounts s" and ?es = "db_entries (ls_db s)"
  note i = reach_facts(2) [OF assms]
  have "(\<Sum>p\<leftarrow>?A. debit_side (snd p) (balance s (fst p))) =
      (\<Sum>e\<leftarrow>?es. \<Sum>p\<leftarrow>?A. debit_side (snd p) (entry_effect ?A (fst p) e))"
    unfolding reach_balance [OF assms] debit_side_sum_list by (rule sum_list_swap)
  also have "\<dots> = 0"
    by (rule sum_list_zero, rule entry_debits) (use i in \<open>simp_all add: accounts_inv_def\<close>)
  finally show ?thesis .
qed

lemma invariant_sums_lists:
  "invariant_sums s =
     ((\<Sum>acct\<leftarrow>all_accounts s. if acc_type acct \<in> {Asset, Expense} then balance s (acc_id acct) else 0),
      (\<Sum>acct\<leftarrow>all_accounts s. if acc_type acct \<in> {Liability, Equity, Income} then balance s (acc_id acct) else 0))"
proof -
  have "foldl (\<lambda>(d, c) acct.
     let b = get0 (ls_balance_cache s) (acc_id acct) in
     case acc_type acct of
       Asset \<Rightarrow> (d + b, c) | Expense \<Rightarrow> (d + b, c)
     | Liability \<Rightarrow> (d, c + b) | Equity \<Rightarrow> (d, c + b) | Income \<Rightarrow> (d, c + b)
     | Contra \<Rightarrow> (d, c) | Suspense \<Rightarrow> (d, c)) (x, y) as =
     (x + (\<Sum>acct\<leftarrow>as. if acc_type acct \<in> {Asset, Expense} then balance s (acc_id acct) else 0),
      y + (\<Sum>acct\<leftarrow>as. if acc_type acct \<in> {Liability, Equity, Income} then balance s (acc_id acct) else 0))" for as :: "account list" and x y
  proof (induction as arbitrary: x y)
    case (Cons acct as)
    then show ?case by (cases "acc_type acct") (simp_all add: Let_def balance_def)
  qed simp
  from this [of 0 0 "all_accounts s"] show ?thesis by (simp only: invariant_sums_def add_0)
qed

text \<open>
  C1: double entry.  In every reachable state the balances of the debit-normal accounts and
  of the credit-normal accounts have the same sum.  So \<^verbatim>\<open>check_financial_invariants\<close>, which
  leaves contra and suspense accounts out, succeeds exactly when these net to zero; in
  particular when there are none.
\<close>

theorem ledger_double_entry:
  assumes "ledger_reach E s"
  shows "(\<Sum>acct\<leftarrow>all_accounts s. if debit_normal (acc_type acct) then balance s (acc_id acct) else 0) =
     (\<Sum>acct\<leftarrow>all_accounts s. if debit_normal (acc_type acct) then 0 else balance s (acc_id acct)) \<and>
   (check_financial_invariants s = Inr () \<longleftrightarrow>
     (\<Sum>acct\<leftarrow>all_accounts s. if acc_type acct \<in> {Contra, Suspense} then balance s (acc_id acct) else 0) = 0)"
proof -
  let ?sum = "\<lambda>T. \<Sum>acct\<leftarrow>all_accounts s. if acc_type acct \<in> T then balance s (acc_id acct) else 0"
  have k: "acc_id (snd p) = fst p" if "p \<in> set (ls_accounts s)" for p
    using reach_facts(2) [OF assms] that by (cases p) (simp add: accounts_inv_def)
  have "map (\<lambda>p. debit_side (snd p) (balance s (fst p))) (ls_accounts s) =
      map (\<lambda>p. debit_side (snd p) (balance s (acc_id (snd p)))) (ls_accounts s)"
    using k by (intro map_cong refl) simp
  then have "(\<Sum>acct\<leftarrow>all_accounts s. debit_side acct (balance s (acc_id acct))) = 0"
    using ledger_debits [OF assms] by (simp only: all_accounts_def map_map comp_def)
  moreover have "(\<Sum>acct\<leftarrow>as. debit_side acct (balance s (acc_id acct))) =
      (\<Sum>acct\<leftarrow>as. if debit_normal (acc_type acct) then balance s (acc_id acct) else 0) -
      (\<Sum>acct\<leftarrow>as. if debit_normal (acc_type acct) then 0 else balance s (acc_id acct))" for as :: "account list"
    by (induction as) (simp_all add: debit_side_def)
  ultimately have eq: "(\<Sum>acct\<leftarrow>all_accounts s. if debit_normal (acc_type acct) then balance s (acc_id acct) else 0) =
     (\<Sum>acct\<leftarrow>all_accounts s. if debit_normal (acc_type acct) then 0 else balance s (acc_id acct))" by simp
  have "(\<Sum>acct\<leftarrow>as. if debit_normal (acc_type acct) then balance s (acc_id acct) else 0) =
      (\<Sum>acct\<leftarrow>as. if acc_type acct \<in> {Asset, Expense} then balance s (acc_id acct) else 0) \<and>
    (\<Sum>acct\<leftarrow>as. if debit_normal (acc_type acct) then 0 else balance s (acc_id acct)) =
      (\<Sum>acct\<leftarrow>as. if acc_type acct \<in> {Liability, Equity, Income} then balance s (acc_id acct) else 0) +
      (\<Sum>acct\<leftarrow>as. if acc_type acct \<in> {Contra, Suspense} then balance s (acc_id acct) else 0)" for as :: "account list"
  proof (induction as)
    case (Cons acct as)
    then show ?case by (cases "acc_type acct") (simp_all add: debit_normal_def)
  qed simp
  with eq have "?sum {Asset, Expense} = ?sum {Liability, Equity, Income} + ?sum {Contra, Suspense}" by simp
  with eq show ?thesis by (simp add: check_financial_invariants_def invariant_sums_lists)
qed

subsection \<open>Three ways to compute a balance\<close>

lemma rebuild_lines_cache:
  assumes "\<forall>l \<in> set ls. map_of accts (jl_account_id l) \<noteq> None"
  shows "rebuild_lines accts ls cache = foldl (line_cache accts) cache ls"
  using assms
proof (induction ls arbitrary: cache)
  case (Cons l ls)
  then obtain acct where "map_of accts (jl_account_id l) = Some acct" by auto
  with Cons show ?case by (simp add: line_cache_def)
qed simp

lemma rebuild_entries_cache:
  assumes "\<forall>e \<in> set es. lines_known accts e"
  shows "get0 (foldl (rebuild_entry accts) cache es) a = get0 cache a + (\<Sum>e\<leftarrow>es. entry_effect accts a e)"
  using assms
proof (induction es arbitrary: cache)
  case (Cons e es)
  then have "rebuild_entry accts cache e = entry_cache accts e cache"
    using rebuild_lines_cache [of "je_lines e" accts cache]
    by (simp add: rebuild_entry_def entry_cache_def lines_known_def)
  with Cons show ?case by simp
qed simp

lemma snapshot_line: "map_of accts a = Some acct \<Longrightarrow> snapshot_delta a (debit_normal (acc_type acct)) l = line_effect accts a l"
  by (simp add: snapshot_delta_def line_effect_def)

lemma snapshot_entry:
  assumes "map_of accts a = Some acct"
  shows "foldl (\<lambda>b l. b + snapshot_delta a (debit_normal (acc_type acct)) l) bal ls = bal + (\<Sum>l\<leftarrow>ls. line_effect accts a l)"
  by (induction ls arbitrary: bal) (simp_all add: snapshot_line [OF assms])

lemma snapshot_entries:
  assumes "map_of accts a = Some acct"
  shows "foldl (\<lambda>bal e.
         if je_sequence e > q then bal
         else if \<not> affects_balance (je_status e) then bal
         else foldl (\<lambda>b l. b + snapshot_delta a (debit_normal (acc_type acct)) l) bal (je_lines e)) bal es =
     bal + (\<Sum>e\<leftarrow>filter (\<lambda>e. je_sequence e \<le> q) es. entry_effect accts a e)"
proof (induction es arbitrary: bal)
  case (Cons e es)
  then show ?case by (auto simp: entry_effect_def snapshot_entry [OF assms] not_le)
qed simp

lemma entry_effect_elsewhere:
  "\<forall>l \<in> set (je_lines e). jl_account_id l \<noteq> a \<Longrightarrow> entry_effect accts a e = 0"
  by (auto simp: entry_effect_def line_effect_def intro!: sum_list_zero)

lemma sum_list_filter_zero:
  "(\<And>x. x \<in> set xs \<Longrightarrow> \<not> P x \<Longrightarrow> f x = (0 :: int)) \<Longrightarrow> (\<Sum>x\<leftarrow>filter P xs. f x) = (\<Sum>x\<leftarrow>xs. f x)"
  by (induction xs) auto

lemma snapshot_sum:
  assumes s: "ledger_reach E s" and a: "map_of (ls_accounts s) a = Some acct"
  shows "balance_at_snapshot s a q =
     (\<Sum>e\<leftarrow>filter (\<lambda>e. je_sequence e \<le> q) (db_entries (ls_db s)). entry_effect (ls_accounts s) a e)"
proof -
  let ?A = "ls_accounts s" and ?db = "ls_db s"
  let ?es = "filter (\<lambda>e. (a, db_key e) \<in> set (db_account_entries ?db)) (db_entries ?db)"
  note i = reach_facts [OF s]
  have "balance_at_snapshot s a q = (\<Sum>e\<leftarrow>filter (\<lambda>e. je_sequence e \<le> q) ?es. entry_effect ?A a e)"
    using a by (simp add: balance_at_snapshot_def entries_for_account_def entries_stream [OF i(1)] snapshot_entries [OF a])
  also have "filter (\<lambda>e. je_sequence e \<le> q) ?es =
      filter (\<lambda>e. (a, db_key e) \<in> set (db_account_entries ?db)) (filter (\<lambda>e. je_sequence e \<le> q) (db_entries ?db))"
    by (simp add: conj_commute)
  also have "(\<Sum>e\<leftarrow>\<dots>. entry_effect ?A a e) = (\<Sum>e\<leftarrow>filter (\<lambda>e. je_sequence e \<le> q) (db_entries ?db). entry_effect ?A a e)"
  proof (rule sum_list_filter_zero)
    fix e assume e: "e \<in> set (filter (\<lambda>e. je_sequence e \<le> q) (db_entries ?db))" "(a, db_key e) \<notin> set (db_account_entries ?db)"
    then have "\<forall>l \<in> set (je_lines e). jl_account_id l \<noteq> a"
      using i(1) by (auto simp: entries_inv_def)
    then show "entry_effect ?A a e = 0" by (rule entry_effect_elsewhere)
  qed
  finally show ?thesis .
qed

lemma current_covers:
  assumes "entries_inv db nxt" "e \<in> set (db_entries db)"
  shows "je_sequence e \<le> nxt - 1"
proof -
  from assms have "je_sequence e < nxt" by (simp add: entries_inv_def)
  moreover from this have "nxt \<noteq> 0" by auto
  ultimately show ?thesis by (simp add: word_le_nat_alt word_less_nat_alt unat_minus_one)
qed

lemma recompute_effect:
  "get0 (foldl (recompute_entry s) m es) a =
     get0 m a + (if \<exists>acct. map_of (ls_accounts s) a = Some acct \<and> acc_type acct = Suspense then -1 else 1) *
       (\<Sum>e\<leftarrow>es. entry_effect (ls_accounts s) a e)"
proof -
  let ?c = "if \<exists>acct. map_of (ls_accounts s) a = Some acct \<and> acc_type acct = Suspense then -1 else (1 :: int)"
  have d: "reconcile_delta t x y = (if t = Suspense then -1 else 1) * normal_delta (debit_normal t) x y" for t x y
    by (cases t; cases x) (simp_all add: debit_normal_def)
  have l: "get0 (recompute_line s m l) a = get0 m a + ?c * line_effect (ls_accounts s) a l" for m l
    by (auto simp: recompute_line_def line_effect_def d split: option.splits)
  have ls: "get0 (foldl (recompute_line s) m ls) a = get0 m a + ?c * (\<Sum>l\<leftarrow>ls. line_effect (ls_accounts s) a l)" for m ls
    by (induction ls arbitrary: m) (simp_all add: l ring_distribs)
  have e: "get0 (recompute_entry s m e) a = get0 m a + ?c * entry_effect (ls_accounts s) a e" for m e
    by (simp add: recompute_entry_def entry_effect_def ls)
  show ?thesis by (induction es arbitrary: m) (simp_all add: e ring_distribs)
qed

lemma map_of_keyD: "map_of m k = Some v \<Longrightarrow> k \<in> fst ` set m"
  by (rule rev_image_eqI [OF map_of_SomeD]) simp_all

lemma map_filter_Nil: "List.map_filter f xs = [] \<longleftrightarrow> (\<forall>x \<in> set xs. f x = None)"
  by (induction xs) (auto simp: map_filter_simps split: option.splits)

text \<open>
  C11: what reconciliation finds.  In a state reached from an empty ledger by operations on the open store, \<^verbatim>\<open>reconcile\<close> reports nothing exactly when
  every suspense account has balance zero: for all other types the cache agrees with the
  recomputation, but for suspense accounts the two computations use opposite signs.
\<close>

theorem reconcile_iff:
  assumes "ledger_reach E s"
  shows "reconcile s = [] \<longleftrightarrow> (\<forall>a acct. map_of (ls_accounts s) a = Some acct \<longrightarrow> acc_type acct = Suspense \<longrightarrow> balance s a = 0)"
proof -
  let ?sus = "\<lambda>a. \<exists>acct. map_of (ls_accounts s) a = Some acct \<and> acc_type acct = Suspense"
  note i = reach_facts [OF assms]
  have r: "get0 (recompute s) a = (if ?sus a then - balance s a else balance s a)" for a
    by (auto simp: recompute_def entries_stream [OF i(1)] recompute_effect reach_balance [OF assms])
  have "reconcile s = [] \<longleftrightarrow> (\<forall>a \<in> fst ` set (ls_accounts s) \<union> fst ` set (ls_balance_cache s). balance s a = get0 (recompute s) a)"
    by (auto simp: reconcile_def map_filter_Nil discrepancy_def Let_def balance_def)
  also have "\<dots> \<longleftrightarrow> (\<forall>a \<in> fst ` set (ls_accounts s). balance s a = get0 (recompute s) a)"
    using i(3) unfolding cache_inv_def by blast
  also have "\<dots> \<longleftrightarrow> (\<forall>a \<in> fst ` set (ls_accounts s). ?sus a \<longrightarrow> balance s a = 0)"
    by (auto simp: r)
  also have "\<dots> \<longleftrightarrow> (\<forall>a. ?sus a \<longrightarrow> balance s a = 0)"
    by (blast dest: map_of_keyD)
  finally show ?thesis by auto
qed

text \<open>
  C10: one balance, three computations.  In a state reached from an empty ledger by operations on the open store, the cached balance is the sum of
  the effects of the recorded entries, the scan of the index at startup recomputes it, and it
  is the balance at the current snapshot.
\<close>

theorem balances_agree:
  assumes "ledger_reach E s" and "map_of (ls_accounts s) a = Some acct"
  shows "balance s a = (\<Sum>e\<leftarrow>db_entries (ls_db s). entry_effect (ls_accounts s) a e) \<and>
     get0 (rebuild_balance_cache (ls_accounts s) [] (ls_db s)) a = balance s a \<and>
     balance_at_snapshot s a (current_snapshot s) = balance s a"
proof -
  note i = reach_facts [OF assms(1)]
  have "filter (\<lambda>e. je_sequence e \<le> current_snapshot s) (db_entries (ls_db s)) = db_entries (ls_db s)"
    using current_covers [OF i(1)] i(1) by (auto simp: current_snapshot_def entries_inv_def intro!: filter_True)
  with snapshot_sum [OF assms] have "balance_at_snapshot s a (current_snapshot s) = balance s a"
    by (simp add: reach_balance [OF assms(1)])
  moreover have "get0 (rebuild_balance_cache (ls_accounts s) [] (ls_db s)) a = balance s a"
    using rebuild_entries_cache [of "db_entries (ls_db s)" "ls_accounts s" "[]" a] i(2)
    by (simp add: rebuild_balance_cache_def entries_stream [OF i(1)] reach_balance [OF assms(1)] accounts_inv_def)
  ultimately show ?thesis using reach_balance [OF assms(1)] by blast
qed

subsection \<open>Snapshots\<close>

text \<open>What a step may do to the entries and the account types.\<close>

definition extends :: "ledger_store \<Rightarrow> ledger_store \<Rightarrow> bool" where
  "extends s s' \<longleftrightarrow> (\<exists>new. db_entries (ls_db s') = db_entries (ls_db s) @ new \<and> (\<forall>e \<in> set new. ls_next_sequence s \<le> je_sequence e)) \<and>
     ls_next_sequence s \<le> ls_next_sequence s' \<and>
     (\<forall>a acct. map_of (ls_accounts s) a = Some acct \<longrightarrow> map_option acc_type (map_of (ls_accounts s') a) = Some (acc_type acct))"

lemma extends_refl [simp]: "books s' = books s \<Longrightarrow> extends s s'"
  by (auto simp: extends_def dest: books_eqD(1,2,4))

lemma extends_trans: "extends s t \<Longrightarrow> extends t u \<Longrightarrow> extends s u"
proof -
  assume a: "extends s t" "extends t u"
  from a(1) obtain n1 where 1: "db_entries (ls_db t) = db_entries (ls_db s) @ n1" "\<forall>e \<in> set n1. ls_next_sequence s \<le> je_sequence e"
    "ls_next_sequence s \<le> ls_next_sequence t"
    "\<forall>x acct. map_of (ls_accounts s) x = Some acct \<longrightarrow> map_option acc_type (map_of (ls_accounts t) x) = Some (acc_type acct)"
    by (auto simp: extends_def)
  from a(2) obtain n2 where 2: "db_entries (ls_db u) = db_entries (ls_db t) @ n2" "\<forall>e \<in> set n2. ls_next_sequence t \<le> je_sequence e"
    "ls_next_sequence t \<le> ls_next_sequence u"
    "\<forall>x acct. map_of (ls_accounts t) x = Some acct \<longrightarrow> map_option acc_type (map_of (ls_accounts u) x) = Some (acc_type acct)"
    by (auto simp: extends_def)
  have "map_option acc_type (map_of (ls_accounts u) x) = Some (acc_type acct)" if "map_of (ls_accounts s) x = Some acct" for x acct
    using that 1(4) 2(4) by fastforce
  then show ?thesis using 1(1-3) 2(1-3) by (fastforce simp: extends_def intro: order_trans)
qed

lemma extends_entry:
  assumes "book_inv E (books s)" "next_entry E (books s) e" "unat (ls_next_sequence s) < 2 ^ 63 - 1"
    and "db_entries (ls_db s') = db_entries (b_db (book_entry e (books s)))"
    and "ls_accounts s' = ls_accounts s" "ls_next_sequence s' = ls_next_sequence s + 1"
  shows "extends s s'"
proof -
  from assms(1) have i: "entries_inv (ls_db s) (ls_next_sequence s)" by (simp add: book_inv_def)
  have "db_entries (ls_db s') = db_entries (ls_db s) @ [e]"
    using assms(2,4) db_insert_next [OF i, of e] by (simp add: book_entry_def next_entry_def)
  moreover have "ls_next_sequence s \<le> ls_next_sequence s + 1"
    using next_word [OF assms(3)] by (simp add: word_le_nat_alt)
  ultimately show ?thesis using assms(2,5,6) by (simp add: extends_def next_entry_def)
qed

lemma extends_update:
  assumes "ls_accounts s' = AList.update a acct' (ls_accounts s)" "db_entries (ls_db s') = db_entries (ls_db s)"
    "ls_next_sequence s' = ls_next_sequence s"
    and "map_of (ls_accounts s) a = None \<or> map_option acc_type (map_of (ls_accounts s) a) = Some (acc_type acct')"
  shows "extends s s'"
  using assms by (auto simp: extends_def)

lemma extends_next:
  assumes "books s' = (books s)\<lparr>b_next := ls_next_sequence s + 1\<rparr>" "unat (ls_next_sequence s) < 2 ^ 63 - 1"
  shows "extends s s'"
proof -
  from arg_cong [OF assms(1), of b_db] arg_cong [OF assms(1), of b_accounts] arg_cong [OF assms(1), of b_next]
  have "ls_db s' = ls_db s" "ls_accounts s' = ls_accounts s" "ls_next_sequence s' = ls_next_sequence s + 1" by simp_all
  with next_word [OF assms(2)] show ?thesis by (simp add: extends_def word_le_nat_alt)
qed

lemma books_fieldsD:
  assumes "books s' = b"
  shows "ls_db s' = b_db b" "ls_accounts s' = b_accounts b" "ls_next_sequence s' = b_next b"
  using assms by auto

lemma step_extends:
  assumes "ledger_step E s s'" and inv: "book_inv E (books s)"
  shows "extends s s'"
  using assms(1)
proof cases
  case (step_create a t r)
  from create_account_books [OF step_create(2)] show ?thesis
  proof (elim disjE conjE)
    assume b: "books s' = book_account a ((books s)\<lparr>b_db := upsert_account a (ls_db s)\<rparr>)"
    show ?thesis using books_fieldsD [OF b] step_create(1)
      by (intro extends_update [of s' "acc_id a" a]) (simp_all add: book_account_def upsert_account_def)
  qed simp
next
  case (step_close t i r)
  from close_account_books [OF step_close] show ?thesis
  proof (elim disjE conjE exE)
    fix acct assume a: "map_of (ls_accounts s) i = Some acct" and
      b: "let acct' = acct\<lparr>acc_status := AccountIsClosed\<rparr>;
             b = (books s)\<lparr>b_accounts := AList.update i acct' (ls_accounts s)\<rparr>
         in (\<exists>err. r = Inl err) \<and> books s' = b \<or> r = Inr () \<and> books s' = b\<lparr>b_db := upsert_account acct' (ls_db s)\<rparr>"
    let ?a = "acct\<lparr>acc_status := AccountIsClosed\<rparr>"
    from b have "b_accounts (books s') = AList.update i ?a (ls_accounts s) \<and>
      db_entries (b_db (books s')) = db_entries (ls_db s) \<and> b_next (books s') = ls_next_sequence s"
      unfolding Let_def by (elim disjE conjE) (simp only:, simp add: upsert_account_def)+
    then show ?thesis using a by (intro extends_update [of s' i ?a]) simp_all
  qed simp
next
  case (step_hold t i hold r)
  from set_legal_hold_books [OF step_hold] show ?thesis
  proof (elim disjE conjE exE)
    fix acct assume a: "map_of (ls_accounts s) i = Some acct" and
      b: "let b = (books s)\<lparr>b_accounts := AList.update i (acct\<lparr>acc_legal_hold := hold\<rparr>) (ls_accounts s)\<rparr>
         in (\<exists>err. r = Inl err) \<and> books s' = b \<or>
            r = Inr () \<and> books s' = b\<lparr>b_holds := (if hold then insert i (ls_legal_hold_accounts s) else ls_legal_hold_accounts s - {i})\<rparr>"
    let ?a = "acct\<lparr>acc_legal_hold := hold\<rparr>"
    from b have "b_accounts (books s') = AList.update i ?a (ls_accounts s) \<and>
      db_entries (b_db (books s')) = db_entries (ls_db s) \<and> b_next (books s') = ls_next_sequence s"
      unfolding Let_def by (elim disjE conjE) (simp only:, simp add: upsert_account_def)+
    then show ?thesis using a by (intro extends_update [of s' i ?a]) simp_all
  qed simp
next
  case (step_post e now r)
  from step_post(3) show ?thesis
  proof (cases rule: post_entry_cases)
    case posted
    note n = posted_next [OF posted(2-4) step_post(1)]
    from books_fieldsD [OF posted(5)] show ?thesis
      by (intro extends_entry [OF inv n step_post(2)]) (simp_all add: book_entry_def)
  next
    case (failed err)
    with step_post(2) extends_next show ?thesis by blast
  qed simp_all
next
  case (step_reverse uid now i descr domain r)
  from step_reverse(2) show ?thesis
  proof (cases rule: reverse_entry_cases)
    case (failed err)
    with step_reverse(1) extends_next show ?thesis by blast
  next
    case (reversed original e)
    note n = reversal_next [OF inv reversed(1,2)]
    from books_fieldsD [OF reversed(4)] show ?thesis
      by (intro extends_entry [OF inv n step_reverse(1)]) (simp_all add: book_entry_def)
  qed simp
next
  case (step_settle now i st nts r)
  then show ?thesis
  proof (cases rule: settlement_cases)
    case (settled e)
    from books_fieldsD [OF settled(4)] show ?thesis by (simp add: extends_def)
  qed simp_all
next
  case (step_reconcile u now r)
  with reconcile_and_record_books [of E u now s] show ?thesis by simp
next
  case (step_checkpoint r)
  with books_ledger_checkpoint [of E s] show ?thesis by simp
next
  case (step_currency c)
  then show ?thesis by (auto simp: register_currency_def extends_def)
qed

lemma steps_extend:
  assumes "(ledger_step E)\<^sup>*\<^sup>* s s'" and "ledger_reach E s"
  shows "ledger_reach E s' \<and> extends s s'"
  using assms
proof (induction rule: rtranclp_induct)
  case (step t u)
  then have t: "ledger_reach E t" "extends s t" by simp_all
  from step_extends [OF step(2) reach_inv [OF t(1)]] t reach_step [OF t(1) step(2)] extends_trans
  show ?case by blast
qed simp


subsection \<open>The hash chain\<close>

lemma check_link_chain:
  "stream_fold (check_link E) p es = (t, Inr ()) \<longleftrightarrow>
     chain_ok (verify_hashes (blake3 (eX E))) je_prev_hash je_chain_hash p es \<and> t = chain_end je_chain_hash p es"
  by (induction es arbitrary: p) (auto simp: check_link_def)

lemma check_link_Inr:
  "snd (stream_fold (check_link E) p es) = Inr () \<longleftrightarrow>
     chain_ok (verify_hashes (blake3 (eX E))) je_prev_hash je_chain_hash p es"
  by (induction es arbitrary: p) (auto simp: check_link_def)

lemma sorted_dropWhile:
  fixes k :: "'a \<Rightarrow> int"
  shows "sorted (map k es) \<Longrightarrow> filter (\<lambda>e. lo \<le> k e) es = dropWhile (\<lambda>e. k e < lo) es"
proof (induction es)
  case (Cons e es)
  show ?case
  proof (cases "k e < lo")
    case False
    with Cons.prems have "\<forall>f \<in> set (e # es). lo \<le> k f" by auto
    with False show ?thesis by (simp add: filter_id_conv)
  qed (use Cons in simp)
qed simp

lemma sorted_takeWhile:
  fixes k :: "'a \<Rightarrow> int"
  shows "sorted (map k es) \<Longrightarrow> filter (\<lambda>e. k e \<le> hi) es = takeWhile (\<lambda>e. k e \<le> hi) es"
proof (induction es)
  case (Cons e es)
  show ?case
  proof (cases "k e \<le> hi")
    case False
    with Cons.prems have "\<forall>f \<in> set (e # es). \<not> k f \<le> hi" by auto
    with False show ?thesis by (simp add: filter_empty_conv)
  qed (use Cons in simp)
qed simp

text \<open>A range of a sorted list is a piece of it.\<close>

lemma sorted_range:
  fixes k :: "'a \<Rightarrow> int"
  assumes "sorted (map k es)"
  shows "\<exists>pre post. es = pre @ filter (\<lambda>e. lo \<le> k e \<and> k e \<le> hi) es @ post"
proof -
  let ?d = "dropWhile (\<lambda>e. k e < lo) es"
  have d: "filter (\<lambda>e. lo \<le> k e) es = ?d" by (rule sorted_dropWhile [OF assms])
  have "sorted (map k ?d)" using assms by (simp flip: d add: sorted_filter)
  from sorted_takeWhile [OF this, of hi] have "filter (\<lambda>e. lo \<le> k e \<and> k e \<le> hi) es = takeWhile (\<lambda>e. k e \<le> hi) ?d"
    by (simp flip: d add: conj_commute)
  then have "es = takeWhile (\<lambda>e. k e < lo) es @ filter (\<lambda>e. lo \<le> k e \<and> k e \<le> hi) es @ dropWhile (\<lambda>e. k e \<le> hi) ?d" by simp
  then show ?thesis by blast
qed

lemma entries_sorted:
  assumes "entries_inv db nxt"
  shows "sorted (map db_key (db_entries db))"
  using entries_stream [OF assms] by (metis db_stream_def sorted_sort_key)

lemma reach_chain:
  assumes "ledger_reach E s"
  shows "verify_chain_integrity E s = Inr ()" "chain_end je_chain_hash ZERO_HASH (db_stream (ls_db s)) = ls_last_chain_hash s"
  using reach_facts(1,4) [OF assms]
  by (auto simp: check_link_chain verify_chain_integrity_def stream_all_def entries_stream check_link_Inr)


text \<open>
  C14: an open range verifies nothing.  Called without an upper bound, \<^verbatim>\<open>verify_chain_range\<close> asks
  the index for sequence numbers up to \<open>-1\<close> (the bound \<^verbatim>\<open>u64::MAX\<close> as a signed integer) and
  reports success with no entry checked, whatever the entries are.
\<close>

theorem verify_open_range_vacuous:
  assumes "\<forall>e \<in> set (db_entries (ls_db s)). 0 < db_key e"
  shows "verify_chain_range E s from_seq None = Inr (0, ZERO_HASH)"
proof -
  have "scan_range (ls_db s) lo (- 1) = []" for lo
    using assms by (auto simp: scan_range_def filter_empty_conv db_stream_def)
  then show ?thesis by (simp add: verify_chain_range_def)
qed

text \<open>
  C4: the journal is tamper evident.  If the chain of another set of entries is accepted by
  \<^verbatim>\<open>verify_chain_integrity\<close> and ends in the tip of a reachable ledger, the entries are those of
  the ledger, unless BLAKE3 collides on a message hashed in them or hits the zero hash.  The strings of the entries are shorter than
  \<open>2 ^ 32 - 1\<close> bytes, their lines fewer than \<open>2 ^ 32\<close>, and their instants have a count of nanoseconds in 64 bits; other instants are hashed as 0.
\<close>

theorem ledger_tamper_evident:
  assumes "ledger_reach E s" and "verify_chain_integrity E s' = Inr ()"
    and "chain_end je_chain_hash ZERO_HASH (db_stream (ls_db s')) = ls_last_chain_hash s"
    and "\<forall>e \<in> set (db_stream (ls_db s)) \<union> set (db_stream (ls_db s')). entry_ok e"
    and "inj_on (blake3 (eX E)) (\<Union>(entry_msgs ` (set (db_stream (ls_db s)) \<union> set (db_stream (ls_db s')))))"
    and "ZERO_HASH \<notin> blake3 (eX E) ` \<Union>(entry_msgs ` (set (db_stream (ls_db s)) \<union> set (db_stream (ls_db s'))))"
  shows "db_stream (ls_db s') = db_stream (ls_db s)"
proof -
  let ?b3 = "blake3 (eX E)"
  have ok: "chain_ok (\<lambda>e. entry_ok e \<and> verify_hashes ?b3 e) je_prev_hash je_chain_hash p es"
    if "chain_ok (verify_hashes ?b3) je_prev_hash je_chain_hash p es" "\<forall>e \<in> set es. entry_ok e" for p es
    using that by (induction es arbitrary: p) auto
  note i = reach_facts [OF assms(1)]
  have s: "chain_ok (verify_hashes ?b3) je_prev_hash je_chain_hash ZERO_HASH (db_stream (ls_db s))"
    "ls_last_chain_hash s = chain_end je_chain_hash ZERO_HASH (db_stream (ls_db s))"
    using i(4) by (auto simp: check_link_chain entries_stream [OF i(1)])
  have s': "chain_ok (verify_hashes ?b3) je_prev_hash je_chain_hash ZERO_HASH (db_stream (ls_db s'))"
    using assms(2) by (simp add: verify_chain_integrity_def stream_all_def check_link_Inr)
  have "list_all2 (=) (db_stream (ls_db s)) (db_stream (ls_db s'))"
    by (rule journal.chains_agree [OF ok [OF s(1)] ok [OF s'] _ assms(5,6)])
      (use assms(3,4) s(2) in simp_all)
  then show ?thesis by (simp add: list.rel_eq)
qed

end
