(* ===== verification/Ledger_Post.thy ===== *)
theory Ledger_Post
  imports Ledger_Props
begin

text \<open>
  Posting and reversal: limits, idempotency, legal holds and error behaviour.
\<close>

subsection \<open>Balances after an operation\<close>

lemma balance_book:
  assumes "books s' = b"
  shows "balance s' a = get0 (b_cache b) a" "ls_accounts s' = b_accounts b"
  using assms by (auto simp: balance_def)

lemma balance_entry:
  assumes "ls_balance_cache s' = b_cache (book_entry e (books s))"
  shows "balance s' a = balance s a + entry_effect (ls_accounts s) a e"
  by (simp add: balance_def assms book_entry_def)

lemma posted_balance:
  assumes "books s' = book_entry (number_entry E now e s) (books s)"
  shows "balance s' a = balance s a + entry_effect (ls_accounts s) a e" "ls_accounts s' = ls_accounts s"
proof -
  have "entry_effect (ls_accounts s) a (number_entry E now e s) = entry_effect (ls_accounts s) a e"
    by (simp add: entry_effect_def)
  with balance_entry [of s' "number_entry E now e s" s a] arg_cong [OF assms, of b_cache]
  show "balance s' a = balance s a + entry_effect (ls_accounts s) a e" by simp
  show "ls_accounts s' = ls_accounts s" using arg_cong [OF assms, of b_accounts] by (simp add: book_entry_def)
qed

subsection \<open>Aggregates\<close>

lemma get0_foldl_add_at:
  "get0 (foldl (\<lambda>m l. if P l then add_at (k l) (f l) m else m) m ls) a =
     get0 m a + (\<Sum>l\<leftarrow>ls. if P l \<and> k l = a then f l else 0)"
  by (induction ls arbitrary: m) auto

lemma get0_net_debit_delta:
  "get0 (net_debit_delta ls) a =
     (\<Sum>l\<leftarrow>ls. if jl_account_id l = a then normal_delta True (jl_dr_cr l) (amount_as_i128 (jl_amount l)) else 0)"
  using get0_foldl_add_at [of "\<lambda>_. True" jl_account_id
      "\<lambda>l. normal_delta True (jl_dr_cr l) (amount_as_i128 (jl_amount l))" "[]" ls a]
  by (simp add: net_debit_delta_def)

lemma get0_total_debit:
  "get0 (total_debit ls) a = (\<Sum>l\<leftarrow>ls. if jl_dr_cr l = Debit \<and> jl_account_id l = a then amount_as_i128 (jl_amount l) else 0)"
  using get0_foldl_add_at [of "\<lambda>l. jl_dr_cr l = Debit" jl_account_id "\<lambda>l. amount_as_i128 (jl_amount l)" "[]" ls a]
  by (simp add: total_debit_def)

lemma get0_mem: "get0 m a \<noteq> 0 \<Longrightarrow> (a, get0 m a) \<in> set m"
  by (auto simp: get0_def dest: map_of_SomeD split: option.splits)

lemma net_delta_key:
  assumes "l \<in> set ls"
  shows "\<exists>d. (jl_account_id l, d) \<in> set (net_debit_delta ls)"
proof -
  have "fst ` set (foldl (\<lambda>m l. add_at (jl_account_id l) (f l) m) m ls) = fst ` set m \<union> jl_account_id ` set ls" for m f
    by (induction ls arbitrary: m) auto
  then have "jl_account_id l \<in> fst ` set (net_debit_delta ls)" using assms by (simp add: net_debit_delta_def)
  then show ?thesis by force
qed

lemma debit_normal_effect:
  assumes "map_of accts a = Some acct" "debit_normal (acc_type acct)" "affects_balance (je_status e)"
  shows "entry_effect accts a e = get0 (net_debit_delta (je_lines e)) a"
proof -
  have "line_effect accts a = (\<lambda>l. if jl_account_id l = a then normal_delta True (jl_dr_cr l) (amount_as_i128 (jl_amount l)) else 0)"
    using assms(1,2) by (auto simp: line_effect_def)
  then show ?thesis unfolding entry_effect_def get0_net_debit_delta using assms(3) by simp
qed

subsection \<open>Limits\<close>

definition nonneg :: "ledger_store \<Rightarrow> bool" where
  "nonneg s \<longleftrightarrow> (\<forall>a acct. map_of (ls_accounts s) a = Some acct \<longrightarrow> acc_require_non_negative_balance acct \<longrightarrow>
     debit_normal (acc_type acct) \<longrightarrow> 0 \<le> balance s a)"

lemma check_limits_Inr:
  assumes "check_limits s debits (a, delta) = Inr ()" "map_of (ls_accounts s) a = Some acct"
  shows "acc_exposure_limit acct = Some lim \<Longrightarrow> get0 debits a \<le> sint lim"
    and "acc_require_non_negative_balance acct \<Longrightarrow> debit_normal (acc_type acct) \<Longrightarrow> delta < 0 \<Longrightarrow> 0 \<le> balance s a + delta"
  using assms by (auto simp: check_limits_def split: option.splits if_splits)

lemma posted_nonneg:
  assumes ok: "check_entry s e = Inr ()" and "nonneg s"
    and acct: "map_of (ls_accounts s) a = Some acct" "acc_require_non_negative_balance acct" "debit_normal (acc_type acct)"
  shows "0 \<le> balance s a + entry_effect (ls_accounts s) a e"
proof (cases "affects_balance (je_status e) \<and> get0 (net_debit_delta (je_lines e)) a < 0")
  case True
  let ?d = "get0 (net_debit_delta (je_lines e)) a"
  have "(a, ?d) \<in> set (net_debit_delta (je_lines e))" using True by (intro get0_mem) simp
  then have "check_limits s (total_debit (je_lines e)) (a, ?d) = Inr ()" using ok by (simp add: check_entry_Inr)
  from check_limits_Inr(2) [OF this acct(1,2,3)] True show ?thesis
    by (simp add: debit_normal_effect [OF acct(1,3)])
next
  case False
  then have "0 \<le> entry_effect (ls_accounts s) a e"
    using debit_normal_effect [OF acct(1,3), of e] by (cases "affects_balance (je_status e)") (auto simp: entry_effect_def)
  with assms(2) acct show ?thesis by (auto simp: nonneg_def intro: add_nonneg_nonneg)
qed

text \<open>
  C6: posting respects the limits.  If no constrained debit-normal account is negative before
  \<^verbatim>\<open>post_entry\<close>, none is afterwards, whatever the result; and an entry that is posted debits no
  account by more than its exposure limit.
\<close>

theorem post_entry_limits:
  assumes "post_entry E now e s = (s', r)" and "nonneg s"
  shows "nonneg s' \<and> (db_entries (ls_db s') \<noteq> db_entries (ls_db s) \<longrightarrow>
     (\<forall>a acct lim. map_of (ls_accounts s) a = Some acct \<longrightarrow> acc_exposure_limit acct = Some lim \<longrightarrow> a \<in> jl_account_id ` set (je_lines e) \<longrightarrow>
       (\<Sum>l\<leftarrow>je_lines e. if jl_dr_cr l = Debit \<and> jl_account_id l = a then amount_as_i128 (jl_amount l) else 0) \<le> sint lim))"
  using assms(1)
proof (cases rule: post_entry_cases)
  case (failed err)
  then have "nonneg s'" using assms(2) balance_book [OF failed(2)] by (simp add: nonneg_def balance_def)
  with books_fieldsD(1) [OF failed(2)] show ?thesis by simp
next
  case posted
  note b = posted_balance [OF posted(5)]
  have "nonneg s'"
    unfolding nonneg_def using posted_nonneg [OF posted(4) assms(2)] by (simp add: b)
  moreover have "(\<Sum>l\<leftarrow>je_lines e. if jl_dr_cr l = Debit \<and> jl_account_id l = a then amount_as_i128 (jl_amount l) else 0) \<le> sint lim"
    if "map_of (ls_accounts s) a = Some acct" "acc_exposure_limit acct = Some lim" "a \<in> jl_account_id ` set (je_lines e)" for a acct lim
  proof -
    from that(3) net_delta_key obtain d where "(a, d) \<in> set (net_debit_delta (je_lines e))" by blast
    then have "check_limits s (total_debit (je_lines e)) (a, d) = Inr ()" using posted(4) by (simp add: check_entry_Inr)
    from check_limits_Inr(1) [OF this that(1,2)] show ?thesis by (simp add: get0_total_debit)
  qed
  ultimately show ?thesis by blast
qed (use assms(2) in simp_all)

subsection \<open>Posting\<close>

lemma posted_entries:
  assumes "ledger_reach E s" "je_content_hash e = ZERO_HASH"
    and "validate e = Inr ()" "duplicate_sequence s e = None" "check_entry s e = Inr ()"
    and "books s' = book_entry (number_entry E now e s) (books s)"
  shows "db_entries (ls_db s') = db_entries (ls_db s) @ [number_entry E now e s]"
proof -
  note n = posted_next [OF assms(3-5,2)]
  from db_insert_next [OF reach_facts(1) [OF assms(1)], of "number_entry E now e s"] n
  show ?thesis using arg_cong [OF assms(6), of b_db] by (simp add: book_entry_def next_entry_def)
qed

text \<open>
  C5: what posting does.  A successful \<^verbatim>\<open>post_entry\<close> either finds its idempotency key in the
  index and changes nothing, or records the entry under the next sequence number at the end
  of the journal, linked to the old tip, adds its effect to every balance and keeps the
  accounts.  A failing one changes at most the next sequence number of the books.
\<close>

theorem post_entry_spec:
  assumes "ledger_reach E s" and "je_content_hash e = ZERO_HASH" and "post_entry E now e s = (s', r)"
  shows "case r of
       Inl err \<Rightarrow> books s' = (books s)\<lparr>b_next := b_next (books s')\<rparr> \<and> (\<forall>a. balance s' a = balance s a)
     | Inr q \<Rightarrow> s' = s \<and> duplicate_sequence s e = Some q \<or>
         q = ls_next_sequence s \<and>
         (\<exists>e'. db_stream (ls_db s') = db_stream (ls_db s) @ [e'] \<and> je_sequence e' = q \<and> je_lines e' = je_lines e \<and>
            je_id e' = je_id e \<and> je_prev_hash e' = ls_last_chain_hash s \<and> ls_last_chain_hash s' = je_chain_hash e') \<and>
         (\<forall>a. balance s' a = balance s a + entry_effect (ls_accounts s) a e) \<and> ls_accounts s' = ls_accounts s"
  using assms(3)
proof (cases rule: post_entry_cases)
  case (failed err)
  with arg_cong [OF failed(2), of b_next] balance_book [OF failed(2)] show ?thesis by (simp add: balance_def)
next
  case posted
  let ?e = "number_entry E (now 0) e s"
  note es = posted_entries [OF assms(1,2) posted(2-5)]
  have "db_stream (ls_db s') = db_stream (ls_db s) @ [?e]"
  proof -
    note i = reach_facts(1) [OF assms(1)]
    have "db_key f < db_key ?e" if "f \<in> set (db_entries (ls_db s))" for f
    proof -
      have "sint (ls_next_sequence s) = uint (ls_next_sequence s)" using i by (intro next_key) (simp add: entries_inv_def)
      with entries_inv_key(1) [OF i that] i that show ?thesis
        by (simp add: db_key_def entries_inv_def word_less_def)
    qed
    then have "sorted (map db_key (db_entries (ls_db s) @ [?e]))"
      using entries_sorted [OF i] by (auto simp: sorted_append less_imp_le)
    with db_stream_sorted [of "ls_db s'"] es entries_stream [OF i] show ?thesis by simp
  qed
  moreover have "ls_last_chain_hash s' = je_chain_hash ?e"
    using arg_cong [OF posted(5), of b_tip] by (simp add: book_entry_def)
  ultimately show ?thesis
    using posted(1) posted_balance [OF posted(5)] by (auto intro!: exI [of _ ?e])
qed simp_all
subsection \<open>Idempotency\<close>

text \<open>The sequence number that the index returns for a key.\<close>

lemma duplicate_unique:
  assumes "entries_inv db nxt" "e \<in> set (db_entries db)" "je_idempotency_key e = Some k"
  shows "idempotency_key_exists db k \<and> sequence_for_idempotency_key db k = Some (je_sequence e)"
proof -
  have d: "distinct (filter (\<lambda>k. k \<noteq> None) (map je_idempotency_key (db_entries db)))"
    using assms(1) by (simp add: entries_inv_def)
  have "find (\<lambda>e. je_idempotency_key e = Some k) es = Some e"
    if "e \<in> set es" "distinct (filter (\<lambda>k. k \<noteq> None) (map je_idempotency_key es))" for es
    using that
  proof (induction es)
    case (Cons f es)
    show ?case
    proof (cases "je_idempotency_key f = Some k")
      case True
      with Cons.prems assms(3) have "f = e" by (auto simp: image_iff)
      with True show ?thesis by simp
    next
      case False
      with Cons assms(3) show ?thesis by (auto split: if_splits)
    qed
  qed simp
  from this [OF assms(2) d] show ?thesis
    using assms(2,3) by (auto simp: idempotency_key_exists_def sequence_for_idempotency_key_def db_key_def filter_empty_conv)
qed

text \<open>
  C7: retries are idempotent.  Once an entry with an idempotency key has been posted, every
  later attempt to post a valid entry with that key, in any state reached from there, returns
  the original sequence number and changes nothing.
\<close>

theorem post_entry_idempotent:
  assumes "ledger_reach E s" and "je_content_hash e = ZERO_HASH" and "unat (ls_next_sequence s) < 2 ^ 63 - 1"
    and "je_idempotency_key e = Some k" and "post_entry E now e s = (s1, Inr q)"
    and "(ledger_step E)\<^sup>*\<^sup>* s1 s2"
    and "validate e2 = Inr ()" and "je_idempotency_key e2 = Some k"
  shows "post_entry E now2 e2 s2 = (s2, Inr q)"
proof -
  have r1: "ledger_reach E s1" using reach_step [OF assms(1) step_post [OF assms(2,3,5)]] .
  have "\<exists>f \<in> set (db_entries (ls_db s1)). je_idempotency_key f = Some k \<and> je_sequence f = q"
    using assms(5)
  proof (cases rule: post_entry_cases)
    case (duplicate q')
    then obtain f where "f \<in> set (db_entries (ls_db s))" "je_idempotency_key f = Some k"
      using assms(4) by (auto simp: duplicate_sequence_def idempotency_key_exists_def filter_empty_conv split: if_splits)
    with duplicate_unique [OF reach_facts(1) [OF assms(1)] this] duplicate assms(4) show ?thesis
      by (auto simp: duplicate_sequence_def)
  next
    case posted
    from posted_entries [OF assms(1,2) posted(2-5)] posted(1) assms(4) show ?thesis by simp
  qed simp_all
  then obtain f where f: "f \<in> set (db_entries (ls_db s1))" "je_idempotency_key f = Some k" "je_sequence f = q" by blast
  from steps_extend [OF assms(6) r1] have s2: "ledger_reach E s2" "f \<in> set (db_entries (ls_db s2))"
    using f(1) by (auto simp: extends_def)
  from duplicate_unique [OF reach_facts(1) [OF s2(1)] s2(2) f(2)] assms(8) f(3)
  have "duplicate_sequence s2 e2 = Some q" by (simp add: duplicate_sequence_def)
  with assms(7) show ?thesis by (simp add: post_entry_def)
qed

subsection \<open>Reversal\<close>

lemma reversed_fails:
  assumes "is_reversed s i"
  shows "\<exists>err. reverse_entry E uid now i descr domain s = (s, Inl err)"
proof -
  have "\<exists>err. reversible s i = Inl err"
    using assms by (auto simp: reversible_def is_reversed_def split: option.splits sum.splits)
  then show ?thesis by (auto simp: reverse_entry_def)
qed

lemma step_reversed:
  assumes "ledger_step E s s'" and "is_reversed s i"
  shows "is_reversed s' i"
proof -
  have b: "is_reversed t i" if "b_reversals (books t) = b_reversals (books s)" for t
    using that assms(2) by (simp add: is_reversed_def)
  from assms(1) show ?thesis
  proof cases
    case (step_create a t r)
    from create_account_books [OF step_create(2)] show ?thesis by (auto intro!: b simp: book_account_def)
  next
    case (step_close t j r)
    from close_account_books [OF step_close] show ?thesis using assms(2) by (auto intro!: b simp: Let_def)
  next
    case (step_hold t j hold r)
    from set_legal_hold_books [OF step_hold] show ?thesis using assms(2) by (auto intro!: b simp: Let_def)
  next
    case (step_post e now r)
    from step_post(3) show ?thesis
      by (cases rule: post_entry_cases) (use assms(2) in \<open>auto intro!: b simp: book_entry_def\<close>)
  next
    case (step_reverse uid now j descr domain r)
    from step_reverse(2) show ?thesis
    proof (cases rule: reverse_entry_cases)
      case (failed err)
      then show ?thesis by (intro b) simp
    next
      case (reversed original e)
      from arg_cong [OF reversed(4), of b_reversals] assms(2) show ?thesis by (simp add: is_reversed_def)
    qed (use assms(2) in simp)
  next
    case (step_settle now j st nts r)
    then show ?thesis by (cases rule: settlement_cases) (use assms(2) in \<open>auto intro!: b\<close>)
  next
    case (step_reconcile u now r)
    with reconcile_and_record_books [of E u now s] show ?thesis by (intro b) simp
  next
    case (step_checkpoint r)
    with books_ledger_checkpoint [of E s] show ?thesis by (intro b) simp
  next
    case (step_currency c)
    with assms(2) show ?thesis by (auto simp: register_currency_def is_reversed_def)
  qed
qed

lemma reversible_found:
  assumes "entries_inv (ls_db s) nxt" and "reversible s i = Inr e"
  shows "find_last (ls_db s) i = Some e"
proof -
  from assms(2) obtain f where f: "find_last (ls_db s) i = Some f" "get_by_sequence (ls_db s) (je_sequence f) = Some e"
    by (auto simp: reversible_def split: option.splits if_splits sum.splits)
  have "e \<in> set (db_entries (ls_db s)) \<and> sint (je_sequence e) = sint (je_sequence f)"
    using find_SomeD [OF f(2) [unfolded get_by_sequence_def]] by (simp add: db_key_def)
  then have "e \<in> set (db_entries (ls_db s))" "f \<in> set (db_entries (ls_db s))" "je_sequence e = je_sequence f"
    using find_last_in [OF f(1)] signed_word_eqI by blast+
  moreover have "inj_on je_sequence (set (db_entries (ls_db s)))"
    using assms(1) by (auto simp: entries_inv_def strict_sorted_iff distinct_map)
  ultimately show ?thesis using f(1) by (auto dest: inj_onD)
qed

text \<open>
  C8: a reversal undoes the entry it names, once.  In a state reached from an empty ledger with fewer than \<open>2 ^ 63 - 1\<close> sequence numbers used, a successful
  \<^verbatim>\<open>reverse_entry\<close> takes the effect of the newest entry with that id, which is posted, back
  from every balance and marks the id reversed; in every state that further operations on the open
  store reach, reversing the id again fails and changes nothing.
\<close>

theorem reverse_entry_undoes:
  assumes "ledger_reach E s" and "unat (ls_next_sequence s) < 2 ^ 63 - 1"
    and "reverse_entry E uid now i descr domain s = (s1, Inr rid)"
  shows "(\<exists>e. find_last (ls_db s) i = Some e \<and> je_id e = i \<and> je_status e = Posted \<and>
       (\<forall>a. balance s1 a = balance s a - entry_effect (ls_accounts s) a e)) \<and>
     reversed_by s1 i = Some rid \<and>
     ((ledger_step E)\<^sup>*\<^sup>* s1 s2 \<longrightarrow> (\<exists>err. reverse_entry E uid2 now2 i descr2 domain2 s2 = (s2, Inl err)))"
  using assms(3)
proof (cases rule: reverse_entry_cases)
  case (reversed original e)
  have o: "original \<in> set (db_entries (ls_db s))" "je_status original = Posted"
    using reversible_in [OF reversed(1)] by simp_all
  have st: "affects_balance (je_status e)" "je_lines e = je_lines (reversal_of uid now i descr domain original)"
    by (simp_all add: reversed(2) finalize_hashes_def precompute_content_hash_def affects_balance_def) (simp add: reversal_of_def)
  have "balance s1 a = balance s a - entry_effect (ls_accounts s) a original" for a
    using balance_entry [of s1 e s a] arg_cong [OF reversed(4), of b_cache] st o(2)
    by (simp add: entry_effect_def reversal_effect affects_balance_def)
  moreover have rb: "reversed_by s1 i = Some rid"
    using arg_cong [OF reversed(4), of b_reversals] reversed(3) by (simp add: reversed_by_def)
  moreover have "is_reversed s2 i" if "(ledger_step E)\<^sup>*\<^sup>* s1 s2"
  proof -
    have "is_reversed s1 i" using rb by (simp add: is_reversed_def reversed_by_def)
    with that show ?thesis by (induction rule: rtranclp_induct) (blast intro: step_reversed)+
  qed
  ultimately show ?thesis
    using o reversed_fails reversible_found [OF reach_facts(1) [OF assms(1)] reversed(1)] find_last_in by blast
qed simp_all

subsection \<open>Legal holds\<close>

lemma check_all_fails: "x \<in> set xs \<Longrightarrow> f x = Inl err \<Longrightarrow> \<exists>err. check_all f xs = Inl err"
  by (induction xs) (auto split: sum.splits)

text \<open>
  C12: a legal hold blocks the account.  In the state that \<^verbatim>\<open>place_legal_hold\<close> returns, posting an entry
  with a line on the account changes nothing and returns an error, except that a valid retry under an idempotency
  key that was posted before returns the old sequence number; a settlement event and a reversal for an entry
  with a line on the account return an error and change nothing.
\<close>

theorem legal_hold_blocks:
  assumes "place_legal_hold E t a s = (s1, Inr ())" and "l \<in> set (je_lines e)" and "jl_account_id l = a"
  shows "(case post_entry E now e s1 of
        (s2, Inl err) \<Rightarrow> s2 = s1
      | (s2, Inr q) \<Rightarrow> s2 = s1 \<and> validate e = Inr () \<and> duplicate_sequence s1 e = Some q) \<and>
     (find_last (ls_db s1) i = Some e \<longrightarrow> (\<exists>err. apply_settlement_event E now i st ns s1 = (s1, Inl err))) \<and>
     (find_last (ls_db s1) i = Some f \<and> get_by_sequence (ls_db s1) (je_sequence f) = Some e \<longrightarrow>
        (\<exists>err. reverse_entry E uid now i descr domain s1 = (s1, Inl err)))"
proof -
  from assms(1) have "set_legal_hold E t a True s = (s1, Inr ())" by (simp add: place_legal_hold_def)
  from set_legal_hold_books [OF this] obtain acct where
    b: "books s1 = (books s)\<lparr>b_accounts := AList.update a (acct\<lparr>acc_legal_hold := True\<rparr>) (ls_accounts s),
       b_holds := insert a (ls_legal_hold_accounts s)\<rparr>" by (auto simp: Let_def)
  have h: "a \<in> ls_legal_hold_accounts s1" using arg_cong [OF b, of b_holds] by simp
  have m: "map_of (ls_accounts s1) a = Some (acct\<lparr>acc_legal_hold := True\<rparr>)" using arg_cong [OF b, of b_accounts] by simp
  obtain er where "check_line s1 e l = Inl er"
    using m assms(3) by (cases "acc_is_active acct") (auto simp: check_line_def acc_is_active_def)
  from check_all_fails [of _ _ "check_line s1 e", OF assms(2) this] obtain e1 where e1: "check_all (check_line s1 e) (je_lines e) = Inl e1" ..
  have post: "case post_entry E now e s1 of (s2, Inl err) \<Rightarrow> s2 = s1
      | (s2, Inr q) \<Rightarrow> s2 = s1 \<and> validate e = Inr () \<and> duplicate_sequence s1 e = Some q"
    by (cases "validate e"; cases "duplicate_sequence s1 e") (simp_all add: post_entry_def check_entry_def e1)
  have "check_hold s1 l = Inl (AccountUnderLegalHold a)" using h assms(3) by (simp add: check_hold_def)
  from check_all_fails [of _ _ "check_hold s1", OF assms(2) this] obtain e2 where e2: "check_all (check_hold s1) (je_lines e) = Inl e2" ..
  have settle: "find_last (ls_db s1) i = Some e \<longrightarrow> (\<exists>err. apply_settlement_event E now i st ns s1 = (s1, Inl err))"
    by (simp add: apply_settlement_event_def e2)
  have "\<exists>err. reversible s1 i = Inl err" if "find_last (ls_db s1) i = Some f" "get_by_sequence (ls_db s1) (je_sequence f) = Some e"
    using that by (simp add: reversible_def e2)
  then have reverse: "find_last (ls_db s1) i = Some f \<and> get_by_sequence (ls_db s1) (je_sequence f) = Some e \<longrightarrow>
      (\<exists>err. reverse_entry E uid now i descr domain s1 = (s1, Inl err))"
    by (auto simp: reverse_entry_def)
  from post settle reverse show ?thesis by (intro conjI)
qed

end
