(* ===== verification/Ledger_Live.thy ===== *)
theory Ledger_Live
  imports Ledger_Durable Ledger_Post
begin

text \<open>
  Progress of the ledger: without I/O errors every operation whose preconditions hold succeeds.
  A small ledger on which the witnesses are taken is in \<open>Ledger_Sample\<close>.
\<close>

subsection \<open>Writing rows\<close>

lemma ps_io_clean: "ps_faults s = [] \<Longrightarrow> ps_io s = (s, IoOk)"
  by (simp add: ps_io_def)

lemma open_handle_clean:
  assumes "ps_faults s = []"
  shows "\<exists>s' f'. open_handle key f s = (s', Inr f') \<and> ps_faults s' = []"
  using assms by (cases "map_of (ps_handles s) key") (simp_all add: open_handle_def ps_io_clean)

lemma ps_write_clean:
  assumes "ps_faults s = []"
  shows "\<exists>s'. ps_write f off bs s = (s', Inr ()) \<and> ps_faults s' = []"
  using assms by (simp add: ps_write_def ps_io_clean)

lemma write_page_clean:
  assumes "ps_faults s = []" "pg_sealed p"
  shows "\<exists>s'. write_page X p s = (s', Inr ()) \<and> ps_faults s' = []"
proof -
  let ?t = "ph_table_id (pg_header p)"
  have handle: "\<exists>s3. and_then (open_handle key g s1) (\<lambda>s2 f. ps_write f off bs s2) = (s3, Inr ()) \<and> ps_faults s3 = []"
    if "ps_faults s1 = []" for key g off bs s1
  proof -
    from open_handle_clean [OF that] obtain s2 f where 2: "open_handle key g s1 = (s2, Inr f)" "ps_faults s2 = []" by blast
    with ps_write_clean [OF 2(2)] show ?thesis by simp
  qed
  show ?thesis
  proof (cases "map_of (ps_table_keys s) ?t")
    case None
    from handle [OF assms(1), of ?t "PagesFile ?t" "record_offset s ?t (ph_page_id (pg_header p))" "pg_buf p"]
    obtain s3 where "and_then (file_for_table ?t s) (\<lambda>s2 f. ps_write f (record_offset s ?t (ph_page_id (pg_header p))) (pg_buf p) s2) =
        (s3, Inr ())" "ps_faults s3 = []" by (auto simp: file_for_table_def)
    with None assms(2) show ?thesis by (simp add: write_page_def Let_def)
  next
    case (Some key)
    obtain s1 nonce where n: "ps_nonce s = (s1, nonce)" by (rule prod.exhaust)
    then have "ps_faults s1 = []" using assms(1) by (auto simp: ps_nonce_def)
    from handle [OF this] obtain s3 where
      "and_then (efile_for_table ?t s1) (\<lambda>s2 f. ps_write f (record_offset s ?t (ph_page_id (pg_header p)))
         (encrypt_bytes X key (pg_buf p) (make_aad ?t (ph_page_id (pg_header p))) nonce @ u32_le (of_nat (ps_page_size s))) s2) =
        (s3, Inr ())" "ps_faults s3 = []" unfolding efile_for_table_def by blast
    with Some n assms(2) show ?thesis by (simp add: write_page_def Let_def)
  qed
qed

text \<open>A store whose log and page files report no error.\<close>

definition ready :: "env \<Rightarrow> ledger_store \<Rightarrow> bool" where
  "ready E s \<longleftrightarrow> ps_faults (ls_pages s) = [] \<and> no_faults (tm_wal (ls_tm s)) \<and>
     (\<exists>mode h. tm_reach (eX E) mode None (ls_tm s) h)"

lemma ready_frame [simp]:
  "ready E (s\<lparr>ls_next_account_page := x1\<rparr>) = ready E s" "ready E (s\<lparr>ls_next_entry_page := x2\<rparr>) = ready E s"
  "ready E (s\<lparr>ls_next_sequence := x3\<rparr>) = ready E s" "ready E (s\<lparr>ls_accounts := x4\<rparr>) = ready E s"
  "ready E (s\<lparr>ls_db := x5\<rparr>) = ready E s" "ready E (s\<lparr>ls_last_chain_hash := x6\<rparr>) = ready E s"
  "ready E (s\<lparr>ls_last_committed_entry_bytes := x7\<rparr>) = ready E s" "ready E (s\<lparr>ls_legal_hold_accounts := x8\<rparr>) = ready E s"
  "ready E (s\<lparr>ls_reversal_event_index := x9\<rparr>) = ready E s" "ready E (s\<lparr>ls_settlement_event_index := x10\<rparr>) = ready E s"
  "ready E (s\<lparr>ls_balance_cache := x11\<rparr>) = ready E s"
  by (simp_all add: ready_def)

lemma ready_apply_balances [simp]: "ready E (update_balances ls s) = ready E s" "ready E (apply_balances e s) = ready E s"
proof -
  show u: "ready E (update_balances ls s) = ready E s" for ls
  proof (induction ls arbitrary: s)
    case (Cons l ls)
    have "ready E (update_balance_cache a x d t) = ready E t" for a x d t
      by (simp add: update_balance_cache_def split: option.split)
    with Cons show ?case by (simp add: update_balances_def)
  qed (simp add: update_balances_def)
  show "ready E (apply_balances e s) = ready E s" by (simp add: apply_balances_def u)
qed

lemma ready_index [simp]: "ready E (index_entry e s) = ready E s"
  by (simp add: index_entry_def)

lemma ready_account [simp]: "ready E (apply_account a s) = ready E s"
  by (simp add: apply_account_def)

lemma write_to_page_clean:
  assumes "env_ok E" "ready E s" "length row \<le> 8122"
  shows "\<exists>s' pid sl nxt. write_to_page E t row c s = (s', Inr (pid, sl, nxt)) \<and> ready E s' \<and> ls_tm s' = ls_tm s"
proof -
  from assms(1) have P: "page_codec_ok (eP E)" by (simp add: env_ok_def)
  from write_slot_fresh [OF P, of c t row] assms(3) obtain p where p: "write_slot (page_new (eP E) c t) row = (p, Inr 0)" by auto
  have "ps_faults (ls_pages s) = []" using assms(2) by (simp add: ready_def)
  moreover have "pg_sealed (seal (eX E) (eP E) p)" by (simp add: seal_def Let_def)
  ultimately obtain ps where "write_page (eX E) (seal (eX E) (eP E) p) (ls_pages s) = (ps, Inr ())" "ps_faults ps = []"
    using write_page_clean by blast
  with p assms(2) show ?thesis by (simp add: write_to_page_def ready_def)
qed

lemma tm_add_clean:
  assumes "map_of (tm_active tm) tx = Some x" "t_state x = Active"
  shows "\<exists>tm' x'. tm_add_mutation X tm tx t p sl kind row prev = (tm', Inr ()) \<and> tm_wal tm' = tm_wal tm \<and>
     map_of (tm_active tm') tx = Some x' \<and> t_state x' = Active \<and> t_idempotency_key x' = t_idempotency_key x \<and>
     t_mutations x' = t_mutations x @ [new_mutation X t p sl kind row prev]"
  using assms by (simp add: tm_add_mutation_def on_active_def tx_add_mutation_def ensure_active_def)

text \<open>One transaction with the given rows.\<close>

lemma tm_begin_clean:
  assumes E: "env_ok E" and r: "tm_reach (eX E) mode None tm h" and nf: "no_faults (tm_wal tm)"
    and d: "length (case descr of None \<Rightarrow> [] | Some x \<Rightarrow> x) \<le> 8"
  shows "\<exists>tm' tx x. tm_begin (eX E) tm now descr = (tm', Inr tx) \<and> tm_reach (eX E) mode None tm' h \<and> no_faults (tm_wal tm') \<and>
     map_of (tm_active tm') tx = Some x \<and> t_state x = Active \<and> t_idempotency_key x = None \<and> t_mutations x = []"
proof -
  from E have X: "ext_ok (eX E)" "ext_small (eX E)" by (simp_all add: env_ok_def)
  from tm_reach_inv [OF X(1) r] obtain rs m where "tm_inv (eX E) mode tm h rs m" by blast
  from tm_begin_progress [OF nf this, of now descr] obtain tm' where
    b: "tm_begin (eX E) tm now descr = (tm', Inr (tm_next_tx_id tm))" "no_faults (tm_wal tm')" by auto
  have "payload_fits None (enc_begin (eX E) descr)" using X(2) d by (simp add: ext_small_def)
  from reach_begin [OF r this b(1)] begin_active [OF b(1)] b show ?thesis by (auto simp: transaction_new_def)
qed

lemma tm_commit_clean:
  assumes E: "env_ok E" and r: "tm_reach (eX E) mode None tm h" and nf: "no_faults (tm_wal tm)"
    and x: "map_of (tm_active tm) tx = Some x" "t_state x = Active" "t_idempotency_key x = None"
      "\<forall>m \<in> set (t_mutations x). length (pm_row_data m) \<le> 8122"
  shows "\<exists>tm' h'. tm_commit (eX E) tm tx = (tm', Inr ()) \<and> tm_reach (eX E) mode None tm' h' \<and> no_faults (tm_wal tm')"
proof -
  from E have X: "ext_ok (eX E)" "ext_small (eX E)" by (simp_all add: env_ok_def)
  from tm_reach_inv [OF X(1) r] obtain rs m where inv: "tm_inv (eX E) mode tm h rs m" by blast
  have k: "\<not> key_committed tm x" using x(3) by (simp add: key_committed_def)
  have "payload_fits None (enc_data (eX E) (mutation_payload m))" if "m \<in> set (t_mutations x)" for m
    using X(2) x(4) that by (simp add: ext_small_def mutation_payload_def)
  then have "\<forall>a \<in> set (commit_batch (eX E) (tm_signing_key tm) x tx). payload_fits None (snd (snd a))"
    using X(2) by (auto simp: commit_batch_def data_reqs_def ext_small_def)
  from tm_commit_progress [OF X(1) nf inv x(1,2) k this] obtain tm' where
    c: "tm_commit (eX E) tm tx = (tm', Inr ())" "no_faults (tm_wal tm')" by blast
  with commit_reach [OF X(2) r x(1,3,4) c(1)] show ?thesis by blast
qed

lemma persist_row_clean:
  assumes E: "env_ok E" and s: "ready E s" and len: "length row \<le> 8122"
  shows "\<exists>s' v. persist_row E now t row kind prev s = (s', Inr v) \<and> ready E s' \<and> books s' = books s"
proof -
  let ?c = "if t = TABLE_ACCOUNTS then ls_next_account_page s else ls_next_entry_page s"
  from write_to_page_clean [OF E s len, of t ?c] obtain s1 pid sl nxt where
    w: "write_to_page E t row ?c s = (s1, Inr (pid, sl, nxt))" "ready E s1" by blast
  let ?s = "if t = TABLE_ACCOUNTS then s1\<lparr>ls_next_account_page := nxt\<rparr> else s1\<lparr>ls_next_entry_page := nxt\<rparr>"
  have r2: "ready E ?s" using w(2) by simp
  then obtain mode h where 2: "tm_reach (eX E) mode None (ls_tm ?s) h" "no_faults (tm_wal (ls_tm ?s))" "ps_faults (ls_pages ?s) = []"
    unfolding ready_def by blast
  from tm_begin_clean [OF E 2(1,2), of None now] obtain tm3 tx x where 3: "tm_begin (eX E) (ls_tm ?s) now None = (tm3, Inr tx)"
    "tm_reach (eX E) mode None tm3 h" "no_faults (tm_wal tm3)" "map_of (tm_active tm3) tx = Some x" "t_state x = Active"
    "t_idempotency_key x = None" "t_mutations x = []" by auto
  from tm_add_clean [OF 3(4,5), of "eX E" t pid sl kind row prev] 3(6,7) obtain tm4 x4 where
    4: "tm_add_mutation (eX E) tm3 tx t pid sl kind row prev = (tm4, Inr ())" "tm_wal tm4 = tm_wal tm3"
    "map_of (tm_active tm4) tx = Some x4" "t_state x4 = Active" "t_idempotency_key x4 = None"
    "t_mutations x4 = [new_mutation (eX E) t pid sl kind row prev]" by auto
  have "\<forall>m \<in> set (t_mutations x4). length (pm_row_data m) \<le> 8122" using 4(6) len by (simp add: new_mutation_def)
  from tm_commit_clean [OF E reach_add [OF 3(2) 4(1)] _ 4(3-5) this] 4(2) 3(3) obtain tm5 h5 where
    5: "tm_commit (eX E) tm4 tx = (tm5, Inr ())" "tm_reach (eX E) mode None tm5 h5" "no_faults (tm_wal tm5)" by auto
  have p: "persist_row E now t row kind prev s = (?s\<lparr>ls_tm := tm5\<rparr>, Inr (pid, sl))"
    unfolding persist_row_def w(1) by (simp add: Let_def tm_step_def lift_tm_def 3(1) [simplified] 4(1) 5(1) split: if_splits)
  moreover have "books (?s\<lparr>ls_tm := tm5\<rparr>) = books s"
    using books_persist_row [of E now t row kind prev s] p by simp
  moreover have "ready E (?s\<lparr>ls_tm := tm5\<rparr>)" unfolding ready_def using 5(2,3) 2(3) by auto
  ultimately show ?thesis by blast
qed

lemma persist_row_pair_clean:
  assumes E: "env_ok E" and s: "ready E s" and len: "length da \<le> 8122" "length db \<le> 8122"
  shows "\<exists>s'. persist_row_pair E now ta da pa tb db s = (s', Inr ()) \<and> ready E s' \<and> books s' = books s"
proof -
  from write_to_page_clean [OF E s len(1), of ta "ls_next_entry_page s"] obtain s1 p1 l1 n1 where
    w1: "write_to_page E ta da (ls_next_entry_page s) s = (s1, Inr (p1, l1, n1))" "ready E s1" by blast
  then have "ready E (s1\<lparr>ls_next_entry_page := n1\<rparr>)" by simp
  from write_to_page_clean [OF E this len(2), of tb n1] obtain s3 p2 l2 n2 where
    w2: "write_to_page E tb db n1 (s1\<lparr>ls_next_entry_page := n1\<rparr>) = (s3, Inr (p2, l2, n2))" "ready E s3" by blast
  let ?s = "s3\<lparr>ls_next_entry_page := n2\<rparr>"
  have "ready E ?s" using w2(2) by simp
  then obtain mode h where 2: "tm_reach (eX E) mode None (ls_tm ?s) h" "no_faults (tm_wal (ls_tm ?s))" "ps_faults (ls_pages ?s) = []"
    unfolding ready_def by blast
  from tm_begin_clean [OF E 2(1,2), of "Some ''reversal''" now] obtain tm3 tx x where
    3: "tm_begin (eX E) (ls_tm ?s) now (Some ''reversal'') = (tm3, Inr tx)"
    "tm_reach (eX E) mode None tm3 h" "no_faults (tm_wal tm3)" "map_of (tm_active tm3) tx = Some x" "t_state x = Active"
    "t_idempotency_key x = None" "t_mutations x = []" by auto
  from tm_add_clean [OF 3(4,5), of "eX E" ta p1 l1 Insert da pa] 3(6,7) obtain tm4 x4 where
    4: "tm_add_mutation (eX E) tm3 tx ta p1 l1 Insert da pa = (tm4, Inr ())" "tm_wal tm4 = tm_wal tm3"
    "map_of (tm_active tm4) tx = Some x4" "t_state x4 = Active" "t_idempotency_key x4 = None"
    "t_mutations x4 = [new_mutation (eX E) ta p1 l1 Insert da pa]" by auto
  from tm_add_clean [OF 4(3,4), of "eX E" tb p2 l2 Insert db None] 4(5,6) obtain tm5 x5 where
    5: "tm_add_mutation (eX E) tm4 tx tb p2 l2 Insert db None = (tm5, Inr ())" "tm_wal tm5 = tm_wal tm4"
    "map_of (tm_active tm5) tx = Some x5" "t_state x5 = Active" "t_idempotency_key x5 = None"
    "t_mutations x5 = [new_mutation (eX E) ta p1 l1 Insert da pa, new_mutation (eX E) tb p2 l2 Insert db None]" by auto
  have "\<forall>m \<in> set (t_mutations x5). length (pm_row_data m) \<le> 8122" using 5(6) len by (simp add: new_mutation_def)
  from tm_commit_clean [OF E reach_add [OF reach_add [OF 3(2) 4(1)] 5(1)] _ 5(3-5) this] 5(2) 4(2) 3(3) obtain tm6 h6 where
    6: "tm_commit (eX E) tm5 tx = (tm6, Inr ())" "tm_reach (eX E) mode None tm6 h6" "no_faults (tm_wal tm6)" by auto
  have p: "persist_row_pair E now ta da pa tb db s = (?s\<lparr>ls_tm := tm6\<rparr>, Inr ())"
    unfolding persist_row_pair_def w1(1)
    by (simp add: Let_def tm_step_def lift_tm_def w2(1) 3(1) [simplified] 4(1) 5(1) 6(1))
  moreover have "books (?s\<lparr>ls_tm := tm6\<rparr>) = books s"
    using books_persist_row_pair [of E now ta da pa tb db s] p by simp
  moreover have "ready E (?s\<lparr>ls_tm := tm6\<rparr>)" unfolding ready_def using 6(2,3) 2(3) by auto
  ultimately show ?thesis by blast
qed

subsection \<open>Operations that succeed\<close>

lemma create_account_clean:
  assumes "env_ok E" "ready E s" "length (enc_account (eC E) a) \<le> 8122"
  shows "\<exists>s'. create_account E now a s = (s', Inr (acc_id a)) \<and> ready E s'"
proof -
  from persist_row_clean [OF assms, of now TABLE_ACCOUNTS Insert None] obtain s1 v where
    "persist_row E now TABLE_ACCOUNTS (enc_account (eC E) a) Insert None s = (s1, Inr v)" "ready E s1" by blast
  then show ?thesis by (simp add: create_account_def)
qed

lemma set_legal_hold_clean:
  assumes "env_ok E" "ready E s" "map_of (ls_accounts s) i = Some a" "length (enc_account (eC E) (a\<lparr>acc_legal_hold := hold\<rparr>)) \<le> 8122"
  shows "\<exists>s'. set_legal_hold E now i hold s = (s', Inr ()) \<and> ready E s'"
proof -
  let ?a = "a\<lparr>acc_legal_hold := hold\<rparr>" and ?s = "s\<lparr>ls_accounts := AList.update i (a\<lparr>acc_legal_hold := hold\<rparr>) (ls_accounts s)\<rparr>"
  have "ready E ?s" using assms(2) by simp
  from persist_row_clean [OF assms(1) this assms(4), of now TABLE_ACCOUNTS Delete None] obtain s1 v where
    "persist_row E now TABLE_ACCOUNTS (enc_account (eC E) ?a) Delete None ?s = (s1, Inr v)" "ready E s1" by blast
  then show ?thesis using assms(3) by (simp add: set_legal_hold_def Let_def)
qed

lemma post_entry_clean:
  assumes "env_ok E" "ready E s" "validate e = Inr ()" "duplicate_sequence s e = None" "check_entry s e = Inr ()"
    "length (enc_entry (eC E) (number_entry E (now 0) e s)) \<le> 8122"
  shows "\<exists>s'. post_entry E now e s = (s', Inr (ls_next_sequence s)) \<and> ready E s'"
proof -
  let ?e = "number_entry E (now 0) e s"
  have "ready E (s\<lparr>ls_next_sequence := ls_next_sequence s + 1\<rparr>)" using assms(2) by simp
  from persist_row_clean [OF assms(1) this assms(6), of "now 1" TABLE_ENTRIES Insert "Some (je_prev_hash ?e)"] obtain s1 v where
    "persist_row E (now 1) TABLE_ENTRIES (enc_entry (eC E) ?e) Insert (Some (je_prev_hash ?e)) (s\<lparr>ls_next_sequence := ls_next_sequence s + 1\<rparr>) =
       (s1, Inr v)" "ready E s1" by blast
  then show ?thesis using assms(3-5) by (simp add: post_entry_def Let_def)
qed

lemma reverse_entry_clean:
  assumes "env_ok E" "ready E s" "reversible s i = Inr original"
    and e: "e = finalize_hashes (blake3 (eX E)) (ls_last_chain_hash s)
       ((reversal_of uid now i descr domain original)\<lparr>je_sequence := ls_next_sequence s, je_posted_at := now 2\<rparr>)"
    and "length (enc_entry (eC E) e) \<le> 8122"
    and "length (enc_reversal (eC E) \<lparr> re_original_entry_id = i, re_reversal_entry_id = je_id e, re_reversed_at = je_posted_at e \<rparr>) \<le> 8122"
  shows "\<exists>s'. reverse_entry E uid now i descr domain s = (s', Inr (je_id e)) \<and> ready E s'"
proof -
  let ?ev = "\<lparr> re_original_entry_id = i, re_reversal_entry_id = je_id e, re_reversed_at = je_posted_at e \<rparr>"
  have "ready E (s\<lparr>ls_next_sequence := ls_next_sequence s + 1\<rparr>)" using assms(2) by simp
  from persist_row_pair_clean [OF assms(1) this assms(5,6), of "now 3" TABLE_ENTRIES "Some (je_prev_hash e)" TABLE_REVERSAL_EVENTS]
  obtain s1 where p: "persist_row_pair E (now 3) TABLE_ENTRIES (enc_entry (eC E) e) (Some (je_prev_hash e)) TABLE_REVERSAL_EVENTS
      (enc_reversal (eC E) ?ev) (s\<lparr>ls_next_sequence := ls_next_sequence s + 1\<rparr>) = (s1, Inr ())" "ready E s1" by blast
  let ?f = "\<lambda>s2. index_entry e (update_balances (je_lines e) (s2\<lparr>ls_last_chain_hash := je_chain_hash e,
      ls_reversal_event_index := AList.update i (je_id e) (ls_reversal_event_index s2)\<rparr>))"
  have "reverse_entry E uid now i descr domain s = and_then (persist_row_pair E (now 3) TABLE_ENTRIES (enc_entry (eC E) e)
      (Some (je_prev_hash e)) TABLE_REVERSAL_EVENTS (enc_reversal (eC E) ?ev) (s\<lparr>ls_next_sequence := ls_next_sequence s + 1\<rparr>))
      (\<lambda>s2 _. (?f s2, Inr (je_id e)))"
    unfolding reverse_entry_def assms(3) sum.case Let_def e [symmetric] ..
  with p show ?thesis by simp
qed

text \<open>
  C13: posting succeeds.  When the log and the page files report no error and the row fits a
  page, \<^verbatim>\<open>post_entry\<close> accepts an entry exactly when it is valid and either is a retry or
  passes the checks on accounts and limits.
\<close>

theorem post_entry_accepts:
  assumes "env_ok E" and "ready E s" and "length (enc_entry (eC E) (number_entry E (now 0) e s)) \<le> 8122"
  shows "(\<exists>q. snd (post_entry E now e s) = Inr q) \<longleftrightarrow>
     validate e = Inr () \<and> (duplicate_sequence s e \<noteq> None \<or> check_entry s e = Inr ())"
proof (cases "validate e")
  case (Inl err)
  then show ?thesis by (simp add: post_entry_def)
next
  case v: (Inr u)
  show ?thesis
  proof (cases "duplicate_sequence s e")
    case (Some q)
    with v show ?thesis by (simp add: post_entry_def)
  next
    case d: None
    show ?thesis
    proof (cases "check_entry s e")
      case (Inl err)
      with v d show ?thesis by (simp add: post_entry_def)
    next
      case (Inr u)
      with post_entry_clean [of E s e now] assms v d show ?thesis by auto
    qed
  qed
qed

end
