(* ===== verification/Serial.thy ===== *)
theory Serial
  imports Wal_Sample
begin

text \<open>
  Self-delimiting serializers.  The concrete codecs that the witnesses use for rows, audit
  events and approval records are put together from them.
\<close>

record 'a ser =
  put :: "'a \<Rightarrow> bytes"
  get :: "bytes \<Rightarrow> 'a \<times> bytes"

definition ser_ok :: "'a ser \<Rightarrow> bool" where
  "ser_ok c \<longleftrightarrow> (\<forall>x r. get c (put c x @ r) = (x, r))"

named_theorems ser_intros
named_theorems ser_lengths

lemma ser_okD: "ser_ok c \<Longrightarrow> get c (put c x @ r) = (x, r)"
  by (simp add: ser_ok_def)

definition ser_nat :: "nat ser" where
  "ser_nat = \<lparr> put = (\<lambda>n. replicate n 1 @ [0]),
     get = (\<lambda>bs. (length (takeWhile (\<lambda>b. b = 1) bs), tl (dropWhile (\<lambda>b. b = 1) bs))) \<rparr>"

lemma ser_nat_ok [ser_intros]: "ser_ok ser_nat"
proof -
  have "dropWhile (\<lambda>b. b = 1) (replicate n (1 :: byte) @ 0 # r) = 0 # r" for n r
    by (induction n) auto
  then show ?thesis by (simp add: ser_ok_def ser_nat_def takeWhile_ones)
qed

definition ser_word :: "nat \<Rightarrow> 'w::len word ser" where
  "ser_word n = \<lparr> put = (\<lambda>w. le_bytes n (unat w)), get = (\<lambda>bs. (of_nat (of_le (take n bs)), drop n bs)) \<rparr>"

lemma ser_word_ok [ser_intros]:
  assumes "LENGTH('w::len) \<le> 8 * n"
  shows "ser_ok (ser_word n :: 'w word ser)"
proof -
  have "unat w < 256 ^ n" for w :: "'w word"
  proof -
    have "unat w < 2 ^ LENGTH('w)" by (rule unsigned_less)
    also have "\<dots> \<le> 2 ^ (8 * n)" using assms by (intro power_increasing) simp_all
    also have "\<dots> = (256 :: nat) ^ n" by (simp add: power_mult)
    finally show ?thesis .
  qed
  then show ?thesis by (simp add: ser_ok_def ser_word_def of_le_le_bytes_small)
qed

definition ser_map :: "('a \<Rightarrow> 'b) \<Rightarrow> ('b \<Rightarrow> 'a) \<Rightarrow> 'a ser \<Rightarrow> 'b ser" where
  "ser_map f g c = \<lparr> put = (\<lambda>x. put c (g x)), get = (\<lambda>bs. apfst f (get c bs)) \<rparr>"

lemma ser_map_ok [ser_intros]: "ser_ok c \<Longrightarrow> (\<And>x. f (g x) = x) \<Longrightarrow> ser_ok (ser_map f g c)"
  by (simp add: ser_ok_def ser_map_def)

definition ser_pair :: "'a ser \<Rightarrow> 'b ser \<Rightarrow> ('a \<times> 'b) ser" where
  "ser_pair c d = \<lparr> put = (\<lambda>(x, y). put c x @ put d y),
     get = (\<lambda>bs. let (x, r) = get c bs; (y, r') = get d r in ((x, y), r')) \<rparr>"

lemma ser_pair_ok [ser_intros]: "ser_ok c \<Longrightarrow> ser_ok d \<Longrightarrow> ser_ok (ser_pair c d)"
  by (simp add: ser_ok_def ser_pair_def)

fun get_n :: "'a ser \<Rightarrow> nat \<Rightarrow> bytes \<Rightarrow> 'a list \<times> bytes" where
  "get_n c 0 bs = ([], bs)"
| "get_n c (Suc n) bs = (let (x, r) = get c bs; (xs, r') = get_n c n r in (x # xs, r'))"

definition ser_list :: "'a ser \<Rightarrow> 'a list ser" where
  "ser_list c = \<lparr> put = (\<lambda>xs. put ser_nat (length xs) @ concat (map (put c) xs)),
     get = (\<lambda>bs. let (n, r) = get ser_nat bs in get_n c n r) \<rparr>"

lemma ser_list_ok [ser_intros]:
  assumes "ser_ok c"
  shows "ser_ok (ser_list c)"
proof -
  have "get_n c (length xs) (concat (map (put c) xs) @ r) = (xs, r)" for xs r
    by (induction xs) (simp_all add: ser_okD [OF assms])
  then show ?thesis
    unfolding ser_ok_def ser_list_def by (simp add: ser_okD [OF ser_nat_ok])
qed

definition ser_option :: "'a ser \<Rightarrow> 'a option ser" where
  "ser_option c = ser_map (\<lambda>xs. case xs of [] \<Rightarrow> None | x # _ \<Rightarrow> Some x)
     (\<lambda>x. case x of None \<Rightarrow> [] | Some y \<Rightarrow> [y]) (ser_list c)"

lemma ser_option_ok [ser_intros]: "ser_ok c \<Longrightarrow> ser_ok (ser_option c)"
  unfolding ser_option_def by (intro ser_map_ok ser_list_ok) (auto split: option.split)

definition ser_bool :: "bool ser" where
  "ser_bool = ser_map (\<lambda>n. n = 1) (\<lambda>b. if b then 1 else 0) ser_nat"

lemma ser_bool_ok [ser_intros]: "ser_ok ser_bool"
  unfolding ser_bool_def by (intro ser_map_ok ser_nat_ok) simp

definition ser_int :: "int ser" where
  "ser_int = ser_map (\<lambda>(b, n). if b then - int n else int n) (\<lambda>i. (i < 0, nat \<bar>i\<bar>)) (ser_pair ser_bool ser_nat)"

lemma ser_int_ok [ser_intros]: "ser_ok ser_int"
  unfolding ser_int_def by (intro ser_map_ok ser_pair_ok ser_bool_ok ser_nat_ok) simp

definition ser_string :: "string ser" where
  "ser_string = ser_list (ser_map (\<lambda>b. char_of (unat b)) (\<lambda>c. of_nat (of_char c)) (ser_word 1 :: byte ser))"

lemma ser_string_ok [ser_intros]: "ser_ok ser_string"
proof -
  have "char_of (unat (of_nat (of_char c) :: byte)) = c" for c
    using nat_of_char_less_256 [of c] by (simp add: unat_of_nat)
  then show ?thesis unfolding ser_string_def by (intro ser_list_ok ser_map_ok ser_word_ok) simp_all
qed

text \<open>An enumeration is the position of its value in a list.\<close>

fun index_of :: "'a \<Rightarrow> 'a list \<Rightarrow> nat" where
  "index_of x [] = 0"
| "index_of x (y # ys) = (if x = y then 0 else Suc (index_of x ys))"

lemma nth_index_of: "x \<in> set xs \<Longrightarrow> xs ! index_of x xs = x"
  by (induction xs) auto

definition ser_enum :: "'a list \<Rightarrow> 'a ser" where
  "ser_enum xs = ser_map (\<lambda>n. xs ! n) (\<lambda>x. index_of x xs) ser_nat"

lemma ser_enum_ok: "(\<And>x. x \<in> set xs) \<Longrightarrow> ser_ok (ser_enum xs)"
  unfolding ser_enum_def by (intro ser_map_ok ser_nat_ok) (simp add: nth_index_of)

text \<open>Sizes.\<close>

lemma put_length_nat [ser_lengths]: "length (put ser_nat n) = Suc n"
  by (simp add: ser_nat_def)

lemma put_length_word [ser_lengths]: "length (put (ser_word k) w) = k"
  by (simp add: ser_word_def)

lemma put_length_map [ser_lengths]: "length (put (ser_map f g c) x) = length (put c (g x))"
  by (simp add: ser_map_def)

lemma put_length_pair [ser_lengths]: "length (put (ser_pair c d) (x, y)) = length (put c x) + length (put d y)"
  by (simp add: ser_pair_def)

lemma put_length_list [ser_lengths]: "length (put (ser_list c) xs) = Suc (length xs) + (\<Sum>x\<leftarrow>xs. length (put c x))"
  by (simp add: ser_list_def length_concat comp_def put_length_nat)

lemma put_length_derived [ser_lengths]:
  "length (put (ser_option c) None) = 1" "length (put (ser_option c) (Some x)) = 2 + length (put c x)"
  "length (put ser_bool b) = (if b then 2 else 1)" "length (put ser_string cs) = Suc (2 * length cs)"
  "length (put ser_int i) = (if i < 0 then 3 else 2) + nat \<bar>i\<bar>" "length (put (ser_enum xs) x) = Suc (index_of x xs)"
  by (simp_all add: ser_option_def ser_bool_def ser_string_def ser_int_def ser_enum_def ser_lengths sum_list_triv)

lemma get_put: "ser_ok c \<Longrightarrow> get c (put c x) = (x, [])"
  using ser_okD [of c x "[]"] by simp

subsection \<open>The sample hash\<close>

text \<open>The sample hash of a message of at least 32 bytes is determined by its first 32 bytes.\<close>

lemma sample_blake3:
  assumes "length m \<ge> 32"
  shows "blake3 sample_ext m = 1 + hash_of_raw (take 32 m)"
proof -
  have split: "of_le (xs @ ys) = of_le xs + 256 ^ length xs * of_le ys" for xs ys
    by (induction xs) (simp_all add: algebra_simps)
  have "of_le m = of_le (take 32 m) + 256 ^ 32 * of_le (drop 32 m)"
    using split [of "take 32 m" "drop 32 m"] assms by simp
  then have "(of_nat (of_le m) :: hash) = of_nat (of_le (take 32 m)) + of_nat (256 ^ 32) * of_nat (of_le (drop 32 m))"
    by (metis of_nat_add of_nat_mult)
  moreover have z: "(of_nat (256 ^ 32) :: hash) = 0" by simp
  ultimately have "(of_nat (of_le m) :: hash) = of_nat (of_le (take 32 m))" unfolding z by simp
  then show ?thesis by (simp add: sample_ext_def hash_of_raw_def)
qed

lemma hash_of_raw_inject:
  assumes "hash_of_raw (take 32 m) = hash_of_raw (take 32 m')" "length m \<ge> 32" "length m' \<ge> 32"
  shows "take 32 m = take 32 m'"
proof -
  have u: "unat b < 256" for b :: byte
  proof -
    have "unat b < 2 ^ LENGTH(8)" by (rule unsigned_less)
    then show ?thesis by simp
  qed
  have lt: "of_le bs < 256 ^ length bs" for bs
  proof (induction bs)
    case (Cons b bs)
    then have "256 * (of_le bs + 1) \<le> 256 * 256 ^ length bs" by (intro mult_le_mono2) simp
    with u [of b] show ?case by simp
  qed simp
  have le: "le_bytes (length bs) (of_le bs) = bs" for bs
    by (induction bs) (use u in \<open>simp_all add: mod_less\<close>)
  have raw: "hash_raw (hash_of_raw bs) = bs" if "length bs = 32" for bs
    using lt [of bs] le [of bs] that by (simp add: hash_of_raw_def hash_raw_def unat_of_nat)
  from arg_cong [OF assms(1), of hash_raw] raw assms(2,3) show ?thesis by simp
qed

lemma nth_le_bytes: "i < n \<Longrightarrow> le_bytes n x ! i = of_nat (x div 256 ^ i mod 256)"
proof (induction n arbitrary: x i)
  case (Suc n)
  then show ?case by (cases i) (simp_all add: div_mult2_eq)
qed simp

lemma sample_hash_nonzero:
  assumes "m \<noteq> []" "hd m \<noteq> 255"
  shows "blake3 sample_ext m \<noteq> 0"
proof
  assume "blake3 sample_ext m = 0"
  then have "(of_nat (1 + of_le m) :: hash) = 0" by (simp add: sample_ext_def)
  then have "2 ^ 256 dvd 1 + of_le m" unfolding word_of_nat_eq_0_iff by simp
  moreover have "(256 :: nat) dvd 2 ^ 256" by (rule dvdI [of _ _ "2 ^ 248"]) simp
  ultimately have d: "256 dvd 1 + of_le m" by (rule dvd_trans [rotated])
  obtain b bs where m: "m = b # bs" using assms(1) by (cases m) auto
  have "1 + of_le m = 256 * of_le bs + Suc (unat b)" by (simp add: m)
  with d have "256 dvd Suc (unat b)" by (metis dvd_add_right_iff dvd_triv_left)
  then have "256 \<le> Suc (unat b)" by (rule dvd_imp_le) simp
  moreover have "unat b < 2 ^ LENGTH(8)" by (rule unsigned_less)
  ultimately have "unat b = 255" by simp
  then have "b = 255" by (simp add: word_unat_eq_iff)
  with assms(2) m show False by simp
qed

end
