(* ===== verification/Row_Sample.thy ===== *)
theory Row_Sample
  imports Ledger_Store Serial
begin

text \<open>
  A concrete row codec that satisfies \<open>ledger_codec_ok\<close>, put together from the serializers.
  It shows that the hypothesis on the row codec can hold, and the witnesses use it.
\<close>

subsection \<open>Rows\<close>

definition ser_type :: "account_type ser" where
  "ser_type = ser_enum [Asset, Liability, Equity, Income, Expense, Contra, Suspense]"

definition ser_account_status :: "account_status ser" where
  "ser_account_status = ser_enum [AccountActive, AccountIsClosed, AccountFrozen]"

definition ser_dr_cr :: "dr_cr ser" where
  "ser_dr_cr = ser_enum [Debit, Credit]"

definition ser_status :: "entry_status ser" where
  "ser_status = ser_enum [Posted, Reversed, Reversal, PendingApproval, Rejected, Pending, Settled, Failed]"

lemma ser_enums_ok [ser_intros]: "ser_ok ser_type" "ser_ok ser_account_status" "ser_ok ser_dr_cr" "ser_ok ser_status"
proof -
  have "x \<in> set [Asset, Liability, Equity, Income, Expense, Contra, Suspense]" for x by (cases x) simp_all
  then show "ser_ok ser_type" unfolding ser_type_def by (rule ser_enum_ok)
  have "x \<in> set [AccountActive, AccountIsClosed, AccountFrozen]" for x by (cases x) simp_all
  then show "ser_ok ser_account_status" unfolding ser_account_status_def by (rule ser_enum_ok)
  have "x \<in> set [Debit, Credit]" for x by (cases x) simp_all
  then show "ser_ok ser_dr_cr" unfolding ser_dr_cr_def by (rule ser_enum_ok)
  have "x \<in> set [Posted, Reversed, Reversal, PendingApproval, Rejected, Pending, Settled, Failed]" for x by (cases x) simp_all
  then show "ser_ok ser_status" unfolding ser_status_def by (rule ser_enum_ok)
qed

abbreviation ser_uuid :: "uuid ser" where "ser_uuid \<equiv> ser_word 16"
abbreviation ser_u64 :: "u64 ser" where "ser_u64 \<equiv> ser_word 8"
abbreviation ser_hash :: "hash ser" where "ser_hash \<equiv> ser_word 32"

definition ser_account :: "account ser" where
  "ser_account = ser_map
     (\<lambda>(i, co, nm, ty, cu, st, nn, ex, fe, pa, cr, do, lh). \<lparr> acc_id = i, acc_code = co, acc_name = nm, acc_type = ty,
        acc_currency_code = cu, acc_status = st, acc_require_non_negative_balance = nn, acc_exposure_limit = ex,
        acc_require_four_eyes = fe, acc_parent_id = pa, acc_created_at = cr, acc_domain = do, acc_legal_hold = lh \<rparr>)
     (\<lambda>a. (acc_id a, acc_code a, acc_name a, acc_type a, acc_currency_code a, acc_status a,
        acc_require_non_negative_balance a, acc_exposure_limit a, acc_require_four_eyes a, acc_parent_id a,
        acc_created_at a, acc_domain a, acc_legal_hold a))
     (ser_pair ser_uuid (ser_pair ser_string (ser_pair ser_string (ser_pair ser_type (ser_pair ser_string
       (ser_pair ser_account_status (ser_pair ser_bool (ser_pair (ser_option ser_u64) (ser_pair ser_bool
       (ser_pair (ser_option ser_uuid) (ser_pair ser_int (ser_pair ser_string ser_bool))))))))))))"

definition ser_line :: "journal_line ser" where
  "ser_line = ser_map
     (\<lambda>(i, a, cu, am, d, m). \<lparr> jl_id = i, jl_account_id = a, jl_currency_code = cu, jl_amount = Amount am,
        jl_dr_cr = d, jl_memo = m \<rparr>)
     (\<lambda>l. (jl_id l, jl_account_id l, jl_currency_code l, amount_raw (jl_amount l), jl_dr_cr l, jl_memo l))
     (ser_pair ser_uuid (ser_pair ser_uuid (ser_pair ser_string (ser_pair ser_u64 (ser_pair ser_dr_cr (ser_option ser_string))))))"

definition ser_entry :: "journal_entry ser" where
  "ser_entry = ser_map
     (\<lambda>(i, sq, st, de, ls, ef, po, er, ik, rv, rb, do, ch, ph, nh, ap, md).
        \<lparr> je_id = i, je_sequence = sq, je_status = st, je_description = de, je_lines = ls, je_effective_at = ef,
          je_posted_at = po, je_external_ref = er, je_idempotency_key = ik, je_reverses_entry_id = rv,
          je_reversed_by_entry_id = rb, je_domain = do, je_content_hash = ch, je_prev_hash = ph, je_chain_hash = nh,
          je_approved_by = ap, je_metadata = md \<rparr>)
     (\<lambda>e. (je_id e, je_sequence e, je_status e, je_description e, je_lines e, je_effective_at e, je_posted_at e,
        je_external_ref e, je_idempotency_key e, je_reverses_entry_id e, je_reversed_by_entry_id e, je_domain e,
        je_content_hash e, je_prev_hash e, je_chain_hash e, je_approved_by e, je_metadata e))
     (ser_pair ser_uuid (ser_pair ser_u64 (ser_pair ser_status (ser_pair ser_string (ser_pair (ser_list ser_line)
       (ser_pair ser_int (ser_pair ser_int (ser_pair (ser_option ser_string) (ser_pair (ser_option ser_string)
       (ser_pair (ser_option ser_uuid) (ser_pair (ser_option ser_uuid) (ser_pair ser_string (ser_pair ser_hash
       (ser_pair ser_hash (ser_pair ser_hash (ser_pair (ser_option ser_string) (ser_option ser_string)))))))))))))))))"

definition ser_reversal :: "reversal_event ser" where
  "ser_reversal = ser_map
     (\<lambda>(a, b, c). \<lparr> re_original_entry_id = a, re_reversal_entry_id = b, re_reversed_at = c \<rparr>)
     (\<lambda>r. (re_original_entry_id r, re_reversal_entry_id r, re_reversed_at r)) (ser_pair ser_uuid (ser_pair ser_uuid ser_int))"

definition ser_settlement :: "settlement_event ser" where
  "ser_settlement = ser_map
     (\<lambda>(a, b, c, d). \<lparr> se_entry_id = a, se_new_status = b, se_settled_at = c, se_notes = d \<rparr>)
     (\<lambda>r. (se_entry_id r, se_new_status r, se_settled_at r, se_notes r))
     (ser_pair ser_uuid (ser_pair ser_status (ser_pair ser_int (ser_option ser_string))))"

definition ser_recon :: "reconciliation_record ser" where
  "ser_recon = ser_map
     (\<lambda>(a, b, c, d, e, f, g, h). \<lparr> rc_id = a, rc_run_at = b, rc_entries_scanned = c, rc_accounts_checked = d,
        rc_discrepancy_count = e, rc_discrepancy_json = f, rc_ledger_sequence_at_run = g, rc_chain_tip_at_run = h \<rparr>)
     (\<lambda>r. (rc_id r, rc_run_at r, rc_entries_scanned r, rc_accounts_checked r, rc_discrepancy_count r,
        rc_discrepancy_json r, rc_ledger_sequence_at_run r, rc_chain_tip_at_run r))
     (ser_pair ser_uuid (ser_pair ser_int (ser_pair ser_u64 (ser_pair ser_u64 (ser_pair ser_u64
       (ser_pair ser_string (ser_pair ser_u64 ser_string)))))))"

lemma ser_line_ok [ser_intros]: "ser_ok ser_line"
  unfolding ser_line_def by (intro ser_intros) simp_all

lemma ser_rows_ok: "ser_ok ser_account" "ser_ok ser_entry" "ser_ok ser_reversal" "ser_ok ser_settlement" "ser_ok ser_recon"
  unfolding ser_account_def ser_entry_def ser_reversal_def ser_settlement_def ser_recon_def
  by (intro ser_intros; simp)+

lemmas row_lengths [ser_lengths] = ser_account_def ser_line_def ser_entry_def ser_reversal_def ser_settlement_def ser_recon_def
  ser_type_def ser_account_status_def ser_dr_cr_def ser_status_def

definition sample_ledger_codec :: ledger_codec where
  "sample_ledger_codec = \<lparr> enc_account = put ser_account, dec_account = (\<lambda>bs. Inr (fst (get ser_account bs))),
     enc_entry = put ser_entry, dec_entry = (\<lambda>bs. Inr (fst (get ser_entry bs))),
     enc_reversal = put ser_reversal, dec_reversal = (\<lambda>bs. Inr (fst (get ser_reversal bs))),
     enc_settlement = put ser_settlement, dec_settlement = (\<lambda>bs. Inr (fst (get ser_settlement bs))),
     enc_recon = put ser_recon, dec_recon = (\<lambda>bs. Inr (fst (get ser_recon bs))),
     discrepancies_json = (\<lambda>ds. ''[]'') \<rparr>"

lemma sample_ledger_codec_ok: "ledger_codec_ok sample_ledger_codec"
  by (simp add: ledger_codec_ok_def sample_ledger_codec_def get_put ser_rows_ok)

end
