(* ===== verification/Ledger_Sample.thy ===== *)
theory Ledger_Sample
  imports Ledger_Live Row_Sample
begin

text \<open>
  A small ledger on the concrete external functions: two accounts, one posted entry and its
  reversal.  The witnesses of the ledger's properties follow.
\<close>

definition sample_env :: env where
  "sample_env = \<lparr> eX = sample_ext, eP = sample_page_codec, eC = sample_ledger_codec \<rparr>"

lemma sample_env_fields [simp]:
  "eX sample_env = sample_ext" "eP sample_env = sample_page_codec" "eC sample_env = sample_ledger_codec"
  by (simp_all add: sample_env_def)

lemma sample_ext_small: "ext_small sample_ext"
proof -
  have l: "length (cp_signature (commit_payload_of sample_ext sk t)) \<le> 64"
    "length (cp_signer_pubkey (commit_payload_of sample_ext sk t)) \<le> 32" for sk t
    by (cases sk; simp add: commit_payload_of_def Let_def sign_with_def sample_lengths)+
  have c: "payload_fits None (enc_commit sample_ext (commit_payload_of sample_ext sk t))" for sk t
    using l [of sk t] unfolding payload_fits_def MAX_RECORD_PAYLOAD_def sample_lengths by simp
  have d: "payload_fits None (enc_data sample_ext d)" if "length (dp_row_data d) \<le> 8122" for d
    using that unfolding payload_fits_def MAX_RECORD_PAYLOAD_def sample_lengths by simp
  have b: "payload_fits None (enc_begin sample_ext descr)" if "length (case descr of None \<Rightarrow> [] | Some x \<Rightarrow> x) \<le> 8" for descr
    using that unfolding payload_fits_def MAX_RECORD_PAYLOAD_def by (cases descr) (simp_all add: sample_ext_def)
  have k: "payload_fits None (enc_checkpoint sample_ext c)" for c
    unfolding payload_fits_def MAX_RECORD_PAYLOAD_def by (simp add: sample_ext_def)
  show ?thesis unfolding ext_small_def using b c d k by blast
qed

lemma sample_env_ok: "env_ok sample_env"
  by (simp add: env_ok_def sample_ext_ok sample_ext_small sample_page_codec_ok sample_ledger_codec_ok)

definition cash :: account where
  "cash = account_new 1 0 ''1000'' ''Cash'' Asset ''USD'' ''test''"

definition sales :: account where
  "sales = account_new 2 0 ''4000'' ''Sales'' Income ''USD'' ''test''"

definition sale :: journal_entry where
  "sale = sample_entry\<lparr>je_idempotency_key := Some ''k1''\<rparr>"

definition sample_pages :: page_store where
  "sample_pages = \<lparr> ps_page_size = 8192, ps_files = [], ps_handles = [], ps_table_keys = [], ps_dirty = False,
     ps_faults = [], ps_rng = (\<lambda>_. []), ps_tick = 0 \<rparr>"

lemma sample_open:
  "\<exists>s tm d'. tm_open sample_ext (sample_os []) None PerRecord = (d', Inr tm) \<and>
     s = ledger_store_init tm sample_pages entry_db_empty \<and> ready sample_env s"
proof -
  obtain d' tm where tm: "tm_open sample_ext (sample_os []) None PerRecord = (d', Inr tm)" "no_faults (tm_wal tm)"
    using tm_open_progress [OF sample_ext_ok, of "sample_os []" None PerRecord] by auto
  have "tm_reach sample_ext PerRecord None tm []" by (rule reach_open [OF _ tm(1)]) simp
  with tm show ?thesis by (auto simp: ready_def ledger_store_init_def sample_pages_def)
qed

lemma sample_row_sizes:
  "length (enc_account sample_ledger_codec cash) \<le> 8122" "length (enc_account sample_ledger_codec sales) \<le> 8122"
  "length (enc_account sample_ledger_codec (cash\<lparr>acc_legal_hold := True\<rparr>)) \<le> 8122"
  by (simp_all add: sample_ledger_codec_def ser_lengths cash_def sales_def account_new_def to_uppercase_def)

lemma sale_size: "length (enc_entry sample_ledger_codec (number_entry E 0 sale s)) \<le> 8122"
  by (simp add: sample_ledger_codec_def ser_lengths number_entry_def finalize_chain_hash_def sale_def sample_entry_def
      sample_line_def build_def builder_new_def Let_def)

definition sample_books :: book where
  "sample_books = \<lparr> b_db = upsert_account sales (upsert_account cash entry_db_empty), b_accounts = [(1, cash), (2, sales)],
     b_cache = [], b_next = 1, b_tip = ZERO_HASH, b_reversals = [], b_settlements = [], b_history = [], b_holds = {},
     b_currencies = currency_registry_new \<rparr>"

lemma account_ids [simp]: "acc_id cash = 1" "acc_id sales = 2" "acc_legal_hold cash = False" "acc_legal_hold sales = False"
  by (simp_all add: cash_def sales_def account_new_def)

lemma sample_accounts:
  "\<exists>s bs. ledger_reach sample_env s \<and> ledger_run sample_env PerRecord s bs \<and> length bs = 3 \<and> ready sample_env s \<and>
     books s = sample_books"
proof -
  from sample_open obtain s0 tm d' where o: "tm_open sample_ext (sample_os []) None PerRecord = (d', Inr tm)"
    "s0 = ledger_store_init tm sample_pages entry_db_empty" "ready sample_env s0" by blast
  from create_account_clean [OF sample_env_ok o(3), of cash 0] sample_row_sizes obtain s1 where
    1: "create_account sample_env 0 cash s0 = (s1, Inr 1)" "ready sample_env s1" by auto
  from create_account_clean [OF sample_env_ok 1(2), of sales 0] sample_row_sizes obtain s2 where
    2: "create_account sample_env 0 sales s1 = (s2, Inr 2)" "ready sample_env s2" by auto
  have b0: "books s0 = \<lparr> b_db = entry_db_empty, b_accounts = [], b_cache = [], b_next = 1, b_tip = ZERO_HASH, b_reversals = [],
      b_settlements = [], b_history = [], b_holds = {}, b_currencies = currency_registry_new \<rparr>"
    by (simp add: o(2) ledger_store_init_def books_def)
  have b1: "books s1 = book_account cash ((books s0)\<lparr>b_db := upsert_account cash (b_db (books s0))\<rparr>)"
    using create_account_books [OF 1(1)] by simp
  have b2: "books s2 = book_account sales ((books s1)\<lparr>b_db := upsert_account sales (b_db (books s1))\<rparr>)"
    using create_account_books [OF 2(1)] by simp
  have b: "books s2 = sample_books" unfolding b2 b1 b0 by (simp add: book_account_def sample_books_def)
  have "map_of (b_accounts (books s0)) 1 = None" "map_of (b_accounts (books s1)) 2 = None"
    unfolding b1 b0 by (simp_all add: book_account_def)
  then have r: "ledger_step sample_env s0 s1" "ledger_step sample_env s1 s2"
    using step_create [of s0 cash sample_env 0 s1 "Inr 1"] step_create [of s1 sales sample_env 0 s2 "Inr 2"] 1 2 by simp_all
  have "ledger_reach sample_env s2"
    using reach_init [of sample_env tm sample_pages] o(2) r by (auto intro: reach_step)
  moreover have "ledger_run sample_env PerRecord s0 [core (books s0)]"
    by (rule run_open [where d = "sample_os []" and d' = d' and tm = tm and pg = sample_pages]) (use o in simp_all)
  from run_create [OF run_create [OF this 1(1)] 2(1)]
  have "ledger_run sample_env PerRecord s2 [core (books s0), core (books s1), core (books s2)]" by simp
  ultimately show ?thesis using 2(2) b
    by (intro exI [of _ s2] exI [of _ "[core (books s0), core (books s1), core (books s2)]"]) simp
qed

lemma sale_fields [simp]: "je_idempotency_key sale = Some ''k1''" "je_content_hash sale = ZERO_HASH" "je_id sale = 9"
  "je_lines sale = [sample_line Debit 1, sample_line Credit 2]" "je_status sale = Posted"
  by (simp_all add: sale_def sample_entry_def build_def builder_new_def)

lemma sale_valid: "validate sale = Inr ()"
  by (simp add: validate_def sample_line_def)

lemma usd: "currency_precision currency_registry_new ''USD'' = Some 2"
  by code_simp

lemma sale_precision: "check_precision currency_registry_new (sample_line Debit 1) = Inr ()"
  "check_precision currency_registry_new (sample_line Credit 2) = Inr ()"
  by code_simp+

lemma sample_line_fields: "jl_account_id (sample_line d a) = a" "jl_currency_code (sample_line d a) = ''USD''"
  by (simp_all add: sample_line_def)

lemma account_fields: "acc_status cash = AccountActive" "acc_status sales = AccountActive" "acc_currency_code cash = ''USD''"
  "acc_currency_code sales = ''USD''" "acc_require_four_eyes cash = False" "acc_require_four_eyes sales = False"
  "acc_exposure_limit cash = None" "acc_exposure_limit sales = None" "acc_type cash = Asset" "acc_type sales = Income"
  by (simp_all add: cash_def sales_def account_new_def to_uppercase_def)

lemma sale_checked:
  assumes "books s = sample_books"
  shows "check_entry s sale = Inr ()" "duplicate_sequence s sale = None" "ls_next_sequence s = 1"
proof -
  from books_fields [of s, unfolded assms, symmetric]
  have s: "ls_accounts s = [(1, cash), (2, sales)]" "ls_db s = upsert_account sales (upsert_account cash entry_db_empty)"
    "ls_balance_cache s = []" "ls_currency_registry s = currency_registry_new" "ls_next_sequence s = 1"
    by (simp_all add: sample_books_def)
  show "ls_next_sequence s = 1" by fact
  have "check_line s sale (sample_line Debit 1) = Inr ()" "check_line s sale (sample_line Credit 2) = Inr ()"
    by (simp_all add: check_line_def s sample_line_fields account_fields sale_precision acc_is_active_def)
  moreover have "check_limits s debits (1, 100) = Inr ()" "check_limits s debits (2, - 100) = Inr ()" for debits
    by (simp_all add: check_limits_def s account_fields debit_normal_def balance_def)
  moreover have "net_debit_delta (je_lines sale) = [(1, 100), (2, - 100)]"
    by (simp add: net_debit_delta_def add_at_def sample_line_def amount_as_i128_def)
  ultimately show "check_entry s sale = Inr ()" by (simp add: check_entry_def)
  show "duplicate_sequence s sale = None"
    by (simp add: duplicate_sequence_def s upsert_account_def idempotency_key_exists_def entry_db_empty_def)
qed

subsection \<open>The sale\<close>

lemma number_sale:
  assumes "books s = sample_books"
  shows "je_lines (number_entry sample_env t sale s) = [sample_line Debit 1, sample_line Credit 2]"
    "je_id (number_entry sample_env t sale s) = 9" "je_sequence (number_entry sample_env t sale s) = 1"
    "je_status (number_entry sample_env t sale s) = Posted" "je_idempotency_key (number_entry sample_env t sale s) = Some ''k1''"
  using sale_checked(3) [OF assms] by (simp_all add: number_entry_def finalize_chain_hash_def Let_def)

lemma sample_sale:
  "\<exists>s s1 bs. ledger_reach sample_env s \<and> books s = sample_books \<and> ready sample_env s \<and>
     post_entry sample_env (\<lambda>_. 0) sale s = (s1, Inr 1) \<and> ready sample_env s1 \<and> ledger_step sample_env s s1 \<and>
     ledger_run sample_env PerRecord s1 bs \<and> length bs = 4 \<and>
     books s1 = book_entry (number_entry sample_env 0 sale s) sample_books"
proof -
  from sample_accounts obtain s bs where s: "ledger_reach sample_env s" "ledger_run sample_env PerRecord s bs" "length bs = 3"
    "ready sample_env s" "books s = sample_books" by blast
  note c = sale_checked [OF s(5)]
  from post_entry_clean [OF sample_env_ok s(4) sale_valid c(2,1), of "\<lambda>_. 0"] sale_size c(3) obtain s1 where
    p: "post_entry sample_env (\<lambda>_. 0) sale s = (s1, Inr 1)" "ready sample_env s1" by auto
  have "ledger_step sample_env s s1" by (rule step_post [OF _ _ p(1)]) (simp_all add: c(3))
  moreover have "ledger_run sample_env PerRecord s1 (bs @ [core (books s1)])"
    by (rule run_post [OF s(2) c(2) _ p(1)]) (simp add: c(3))
  moreover from p(1) c(2) have "books s1 = book_entry (number_entry sample_env 0 sale s) sample_books"
    by (cases rule: post_entry_cases) (auto simp: s(5))
  ultimately show ?thesis using s p by (intro exI [of _ s] exI [of _ s1] exI [of _ "bs @ [core (books s1)]"]) simp
qed

lemma sale_books:
  assumes s: "books s = sample_books" and s1: "books s1 = book_entry (number_entry sample_env 0 sale s) sample_books"
  shows "ls_accounts s1 = [(1, cash), (2, sales)]" "db_entries (ls_db s1) = [number_entry sample_env 0 sale s]"
    "balance s1 1 = 100" "balance s1 2 = 100" "ls_next_sequence s1 = 2" "ls_legal_hold_accounts s1 = {}"
    "ls_reversal_event_index s1 = []"
proof -
  note n = number_sale [OF s, of 0]
  have db: "db_entries (upsert_account sales (upsert_account cash entry_db_empty)) = []"
    by (simp add: upsert_account_def entry_db_empty_def)
  from books_fields [of s1, unfolded s1, symmetric]
  show "ls_accounts s1 = [(1, cash), (2, sales)]" "ls_next_sequence s1 = 2" "ls_legal_hold_accounts s1 = {}"
    "ls_reversal_event_index s1 = []"
    by (simp_all add: book_entry_def sample_books_def)
  from books_fields(1) [of s1, unfolded s1, symmetric] show "db_entries (ls_db s1) = [number_entry sample_env 0 sale s]"
    by (simp add: book_entry_def sample_books_def db_insert_def db db_key_def n sale_checked(3) [OF s])
  have "ls_balance_cache s1 = [(1, 100), (2, 100)]"
    using books_fields(3) [of s1, unfolded s1, symmetric] n
    by (simp add: book_entry_def sample_books_def entry_cache_def affects_balance_def line_cache_def sample_line_def
        account_fields debit_normal_def amount_as_i128_def add_at_def)
  then show "balance s1 1 = 100" "balance s1 2 = 100" by (simp_all add: balance_def get0_def)
qed

text \<open>A reachable ledger with the posted sale.\<close>

lemma sold:
  "\<exists>s. ledger_reach sample_env s \<and> ls_next_sequence s = 2 \<and> ls_accounts s = [(1, cash), (2, sales)] \<and>
     balance s 1 = 100 \<and> balance s 2 = 100 \<and> length (db_entries (ls_db s)) = 1"
proof -
  from sample_sale obtain s s1 where s: "ledger_reach sample_env s" "books s = sample_books" "ledger_step sample_env s s1"
    "books s1 = book_entry (number_entry sample_env 0 sale s) sample_books" by blast
  from reach_step [OF s(1,3)] sale_books [OF s(2,4)] show ?thesis by (intro exI [of _ s1]) simp
qed

subsection \<open>Witnesses\<close>

theorem ledger_double_entry_witness:
  "\<exists>s. ls_next_sequence s = 2 \<and> balance s 1 = 100 \<and> check_financial_invariants s = Inr ()"
proof -
  from sold obtain s where s: "ledger_reach sample_env s" "ls_next_sequence s = 2" "ls_accounts s = [(1, cash), (2, sales)]"
    "balance s 1 = 100" by blast
  from ledger_double_entry [OF s(1)] s show ?thesis
    by (intro exI [of _ s]) (simp add: all_accounts_def account_fields)
qed

theorem reconcile_iff_witness: "\<exists>s. ls_next_sequence s = 2 \<and> balance s 1 = 100 \<and> reconcile s = []"
proof -
  from sold obtain s where s: "ledger_reach sample_env s" "ls_next_sequence s = 2" "ls_accounts s = [(1, cash), (2, sales)]"
    "balance s 1 = 100" by blast
  from reconcile_iff [OF s(1)] s show ?thesis
    by (intro exI [of _ s]) (simp add: account_fields split: if_splits)
qed

theorem balances_agree_witness:
  "\<exists>s. ls_next_sequence s = 2 \<and> get0 (rebuild_balance_cache (ls_accounts s) [] (ls_db s)) 1 = 100 \<and>
     balance_at_snapshot s 1 (current_snapshot s) = 100"
proof -
  from sold obtain s where s: "ledger_reach sample_env s" "ls_next_sequence s = 2" "ls_accounts s = [(1, cash), (2, sales)]"
    "balance s 1 = 100" by blast
  then have "map_of (ls_accounts s) 1 = Some cash" by simp
  from balances_agree [OF s(1) this] s show ?thesis by (intro exI [of _ s]) simp
qed


theorem verify_open_range_vacuous_witness:
  "\<exists>s. length (db_entries (ls_db s)) = 1 \<and> verify_chain_range sample_env s None None = Inr (0, ZERO_HASH)"
proof -
  from sample_sale obtain s s1 where s: "books s = sample_books"
    "books s1 = book_entry (number_entry sample_env 0 sale s) sample_books" by blast
  note b = sale_books(2) [OF s]
  have "\<forall>e \<in> set (db_entries (ls_db s1)). 0 < db_key e" by (simp add: b db_key_def sale_checked(3) [OF s(1)])
  from verify_open_range_vacuous [OF this, of sample_env None] b show ?thesis by (intro exI [of _ s1]) simp
qed

theorem post_entry_limits_witness: "\<exists>s s1. post_entry sample_env (\<lambda>_. 0) sale s = (s1, Inr 1) \<and> nonneg s1"
proof -
  from sample_sale obtain s s1 where s: "books s = sample_books" "post_entry sample_env (\<lambda>_. 0) sale s = (s1, Inr 1)" by blast
  have "nonneg s" using books_fields(3) [of s, unfolded s(1)] by (simp add: nonneg_def balance_def get0_def sample_books_def)
  from post_entry_limits [OF s(2) this] s(2) show ?thesis by blast
qed

theorem post_entry_spec_witness:
  "\<exists>s s1. post_entry sample_env (\<lambda>_. 0) sale s = (s1, Inr 1) \<and> ls_accounts s1 = [(1, cash), (2, sales)] \<and>
     balance s1 1 = balance s 1 + entry_effect (ls_accounts s) 1 sale"
proof -
  from sample_sale obtain s s1 where s: "books s = sample_books" "ledger_reach sample_env s"
    "post_entry sample_env (\<lambda>_. 0) sale s = (s1, Inr 1)" by blast
  have "ls_accounts s = [(1, cash), (2, sales)]" using books_fields(2) [of s, unfolded s(1)] by (simp add: sample_books_def)
  with post_entry_spec [OF s(2) _ s(3)] sale_checked(2) [OF s(1)] s(3) show ?thesis
    by (intro exI [of _ s] exI [of _ s1]) simp
qed

theorem post_entry_idempotent_witness:
  "\<exists>s s1. post_entry sample_env (\<lambda>_. 0) sale s = (s1, Inr 1) \<and> post_entry sample_env (\<lambda>_. 7) sale s1 = (s1, Inr 1)"
proof -
  from sample_sale obtain s s1 where s: "books s = sample_books" "ledger_reach sample_env s"
    "post_entry sample_env (\<lambda>_. 0) sale s = (s1, Inr 1)" by blast
  have "unat (ls_next_sequence s) < 2 ^ 63 - 1" using sale_checked(3) [OF s(1)] by simp
  from post_entry_idempotent [OF s(2) _ this _ s(3) rtranclp.rtrancl_refl sale_valid, of "''k1''" "\<lambda>_. 7"] s(3)
  show ?thesis by auto
qed

theorem post_entry_accepts_witness:
  "\<exists>s. ready sample_env s \<and> (\<exists>q. snd (post_entry sample_env (\<lambda>_. 0) sale s) = Inr q)"
proof -
  from sample_accounts obtain s where s: "ready sample_env s" "books s = sample_books" by blast
  have "length (enc_entry (eC sample_env) (number_entry sample_env ((\<lambda>_. 0) (0 :: nat)) sale s)) \<le> 8122" using sale_size by simp
  from post_entry_accepts [OF sample_env_ok s(1) this] sale_valid sale_checked [OF s(2)] s(1) show ?thesis by blast
qed

theorem legal_hold_blocks_witness:
  "\<exists>s s1 err err2. place_legal_hold sample_env 0 1 s = (s1, Inr ()) \<and>
     apply_settlement_event sample_env (\<lambda>_. 0) 9 Settled None s1 = (s1, Inl err) \<and>
     reverse_entry sample_env (\<lambda>i. 20 + of_nat i) (\<lambda>_. 0) 9 ''Refund'' ''test'' s1 = (s1, Inl err2)"
proof -
  from sample_sale obtain s s1 where s: "books s = sample_books" "ready sample_env s1"
    "books s1 = book_entry (number_entry sample_env 0 sale s) sample_books" by blast
  note b = sale_books [OF s(1,3)] and n = number_sale [OF s(1), of 0]
  have "map_of (ls_accounts s1) 1 = Some cash" by (simp add: b)
  from set_legal_hold_clean [OF sample_env_ok s(2) this, of True 0] sample_row_sizes(3) obtain s2 where
    h: "place_legal_hold sample_env 0 1 s1 = (s2, Inr ())" by (auto simp: place_legal_hold_def)
  from set_legal_hold_books [OF h [unfolded place_legal_hold_def]] have "b_db (books s2) = b_db (books s1)"
    by (auto simp: Let_def simp del: books_fields)
  then have f: "find_last (ls_db s2) 9 = Some (number_entry sample_env 0 sale s)"
    by (simp add: find_last_def db_stream_def b n)
  have g: "get_by_sequence (ls_db s2) (je_sequence (number_entry sample_env 0 sale s)) = Some (number_entry sample_env 0 sale s)"
    using \<open>b_db (books s2) = b_db (books s1)\<close> by (simp add: get_by_sequence_def b n db_key_def)
  have l: "sample_line Debit 1 \<in> set (je_lines (number_entry sample_env 0 sale s))" "jl_account_id (sample_line Debit 1) = 1"
    by (simp_all add: n sample_line_fields)
  from legal_hold_blocks [OF h l, where now = "\<lambda>_. 0" and i = 9 and st = Settled and ns = None and f = "number_entry sample_env 0 sale s"
      and uid = "\<lambda>i. 20 + of_nat i" and descr = "''Refund''" and domain = "''test''"] f g h show ?thesis
    by blast
qed

theorem ledger_recovers_witness:
  "\<exists>s e s'. ls_next_sequence s = 2 \<and> crash (ww_os (tm_wal (ls_tm s))) e \<and>
     replay_from_wal_mode sample_env e None False (ledger_store_init (ls_tm s) sample_pages entry_db_empty) = (s', Inr ()) \<and>
     core (books s') = core (books s)"
proof -
  from sample_sale obtain s s1 bs where s: "books s = sample_books" "ledger_run sample_env PerRecord s1 bs" "length bs = 4"
    "books s1 = book_entry (number_entry sample_env 0 sale s) sample_books" by blast
  from ledger_run_inv [OF sample_env_ok s(2)] obtain h where "tm_reach sample_ext PerRecord None (ls_tm s1) h" by (auto simp: run_inv_def)
  from tm_reach_inv [OF sample_ext_ok this] have "tm_signing_key (ls_tm s1) = None" by blast
  then have "signing_pubkey (eX sample_env) (ls_tm s1) = None" by (simp add: signing_pubkey_def)
  from ledger_recovers [OF sample_env_ok s(2) crash_refl this, of sample_pages] obtain n s' where
    "n < length bs" "PerRecord = PerRecord \<longrightarrow> bs ! n = core (books s1)"
    "replay_from_wal_mode sample_env (ww_os (tm_wal (ls_tm s1))) None False (ledger_store_init (ls_tm s1) sample_pages entry_db_empty) = (s', Inr ())"
    "core (books s') = bs ! n" by blast
  with crash_refl s(3) sale_books(5) [OF s(1,4)] show ?thesis
    by (intro exI [of _ s1] exI [of _ "ww_os (tm_wal (ls_tm s1))"] exI [of _ s']) auto
qed

lemma length_uuid_string: "length (uuid_string u) = 36"
  by (simp add: uuid_string_def Let_def)

lemma sample_reversal:
  "\<exists>s s1. ledger_reach sample_env s \<and> ls_next_sequence s = 2 \<and> ls_accounts s = [(1, cash), (2, sales)] \<and> balance s 1 = 100 \<and>
     reverse_entry sample_env (\<lambda>i. 20 + of_nat i) (\<lambda>_. 0) 9 ''Refund'' ''test'' s = (s1, Inr 22) \<and> ledger_step sample_env s s1"
proof -
  from sample_sale obtain s s1 where s: "books s = sample_books" "ready sample_env s1" "ledger_reach sample_env s" "ledger_step sample_env s s1"
    "books s1 = book_entry (number_entry sample_env 0 sale s) sample_books" by blast
  note b = sale_books [OF s(1,5)] and n = number_sale [OF s(1), of 0]
  let ?o = "number_entry sample_env 0 sale s"
  have r: "reversible s1 9 = Inr ?o"
    by (simp add: reversible_def find_last_def get_by_sequence_def db_stream_def b n db_key_def check_hold_def)
  define e where "e = finalize_hashes (blake3 (eX sample_env)) (ls_last_chain_hash s1)
     ((reversal_of (\<lambda>i. 20 + of_nat i) (\<lambda>_. 0) 9 ''Refund'' ''test'' ?o)\<lparr>je_sequence := ls_next_sequence s1, je_posted_at := 0\<rparr>)"
  have i: "je_id e = 22" by (simp add: e_def finalize_hashes_def precompute_content_hash_def reversal_of_def n)
  have l: "length (enc_entry (eC sample_env) e) \<le> 8122"
    unfolding e_def
    by (simp add: sample_ledger_codec_def ser_lengths finalize_hashes_def finalize_chain_hash_def precompute_content_hash_def
        reversal_of_def n reversal_line_def sample_line_def Let_def length_uuid_string)
  have l2: "length (enc_reversal (eC sample_env) \<lparr> re_original_entry_id = 9, re_reversal_entry_id = je_id e, re_reversed_at = je_posted_at e \<rparr>) \<le> 8122"
    by (simp add: sample_ledger_codec_def ser_lengths e_def finalize_hashes_def precompute_content_hash_def)
  from reverse_entry_clean [OF sample_env_ok s(2) r e_def l l2] i obtain s2 where
    "reverse_entry sample_env (\<lambda>i. 20 + of_nat i) (\<lambda>_. 0) 9 ''Refund'' ''test'' s1 = (s2, Inr 22)" by auto
  moreover from this have "ledger_step sample_env s1 s2" by (intro step_reverse) (simp_all add: b)
  ultimately show ?thesis using reach_step [OF s(3,4)] b by (intro exI [of _ s1] exI [of _ s2]) simp
qed

theorem reverse_entry_undoes_witness:
  "\<exists>s s1. reverse_entry sample_env (\<lambda>i. 20 + of_nat i) (\<lambda>_. 0) 9 ''Refund'' ''test'' s = (s1, Inr 22) \<and>
     reversed_by s1 9 = Some 22 \<and>
     (\<exists>err. reverse_entry sample_env (\<lambda>i. 30 + of_nat i) (\<lambda>_. 1) 9 ''Again'' ''test'' s1 = (s1, Inl err))"
proof -
  from sample_reversal obtain s s1 where s: "ledger_reach sample_env s" "ls_next_sequence s = 2"
    "reverse_entry sample_env (\<lambda>i. 20 + of_nat i) (\<lambda>_. 0) 9 ''Refund'' ''test'' s = (s1, Inr 22)" by blast
  have "unat (ls_next_sequence s) < 2 ^ 63 - 1" by (simp add: s(2))
  from reverse_entry_undoes [OF s(1) this s(3), of s1 "\<lambda>i. 30 + of_nat i" "\<lambda>_. 1" "''Again''" "''test''"] s(3) show ?thesis by blast
qed


lemma sale_messages:
  assumes "books s = sample_books"
  shows "inj_on (blake3 sample_ext) (entry_msgs (number_entry sample_env 0 sale s))"
    "ZERO_HASH \<notin> blake3 sample_ext ` entry_msgs (number_entry sample_env 0 sale s)"
proof -
  let ?e = "number_entry sample_env 0 sale s"
  let ?c = "canonical_bytes ?e" and ?l = "entry_link ?e"
  note n = number_sale [OF assms, of 0]
  have p: "ls_last_chain_hash s = ZERO_HASH" using books_fields(5) [of s, unfolded assms] by (simp add: sample_books_def)
  have len: "length ?c \<ge> 32" "length ?l \<ge> 32"
    by (simp_all add: canonical_bytes_def entry_link_def link_msg_def)
  have c: "?c ! 16 = 9" "?c ! 0 = 1"
    by (simp_all add: canonical_bytes_def n(2) nth_append uuid_raw_def rev_nth nth_le_bytes)
  have l: "?l ! 16 = 0" "?l ! 0 = 1"
    by (simp_all add: entry_link_def link_msg_def sale_checked(3) [OF assms] p nth_append hash_raw_def ZERO_HASH_def nth_le_bytes)
  have "take 32 ?c \<noteq> take 32 ?l"
  proof
    assume "take 32 ?c = take 32 ?l"
    from arg_cong [OF this, of "\<lambda>xs. xs ! 16"] c(1) l(1) show False by simp
  qed
  then have "blake3 sample_ext ?c \<noteq> blake3 sample_ext ?l"
    using hash_of_raw_inject [OF _ len] len by (auto simp: sample_blake3)
  then show "inj_on (blake3 sample_ext) (entry_msgs ?e)" by (auto simp: entry_msgs_def)
  have ne: "?c \<noteq> []" "?l \<noteq> []" using len by auto
  then have "hd ?c \<noteq> 255" "hd ?l \<noteq> 255" using c(2) l(2) by (simp_all add: hd_conv_nth)
  with ne show "ZERO_HASH \<notin> blake3 sample_ext ` entry_msgs ?e"
    using sample_hash_nonzero [of ?c] sample_hash_nonzero [of ?l] by (auto simp: entry_msgs_def ZERO_HASH_def)
qed

theorem ledger_tamper_evident_witness:
  "\<exists>(s :: ledger_store) s'. length (db_entries (ls_db s)) = 1 \<and> verify_chain_integrity sample_env s' = Inr () \<and>
     db_stream (ls_db s') = db_stream (ls_db s)"
proof -
  from sample_sale obtain s s1 where s: "books s = sample_books" "ledger_reach sample_env s" "ledger_step sample_env s s1"
    "books s1 = book_entry (number_entry sample_env 0 sale s) sample_books" by blast
  let ?e = "number_entry sample_env 0 sale s" and ?s = "s1\<lparr>ls_db := (ls_db s1)\<lparr>db_accounts := []\<rparr>\<rparr>"
  note r = reach_step [OF s(2,3)]
  note b = sale_books(2) [OF s(1,4)]
  have st: "db_stream (ls_db s1) = [?e]" "db_stream (ls_db ?s) = [?e]" by (simp_all add: db_stream_def b)
  have ok: "entry_ok ?e"
    using sample_entry_ok
    by (simp add: number_entry_def finalize_chain_hash_def Let_def entry_ok_def sale_def opt_ok_def str_ok_def in_i64_def
        i64_min_def i64_max_def)
  have v: "verify_chain_integrity sample_env s1 = Inr ()" "chain_end je_chain_hash ZERO_HASH (db_stream (ls_db s1)) = ls_last_chain_hash s1"
    using reach_chain [OF r] by blast+
  then have v': "verify_chain_integrity sample_env ?s = Inr ()" using st by (simp add: verify_chain_integrity_def stream_all_def)
  have "db_stream (ls_db ?s) = db_stream (ls_db s1)"
    by (rule ledger_tamper_evident [OF r v']) (use sale_messages [OF s(1)] ok v(2) in \<open>simp_all only: st sample_env_fields, simp_all\<close>)
  with v' b show ?thesis by (intro exI [of _ s1] exI [of _ ?s]) simp
qed

end
