(* ===== verification/Json_Lines.thy ===== *)
theory Json_Lines
  imports Wal_Disk
begin

text \<open>
  Files of JSON lines, as the audit log and the approval queue write them: one record per
  line, appended with \<^verbatim>\<open>writeln!\<close> and read back with \<^verbatim>\<open>BufRead::lines\<close>.

  A file is the string of its bytes, or absent.  Every write takes the next outcome of the
  list of I/O outcomes; \<^verbatim>\<open>writeln!\<close> on a file is two writes, the text and the newline, and a
  write that fails may have written a part.  Reading is taken not to fail, and \<^verbatim>\<open>trim\<close> to
  remove ASCII white space.
\<close>

subsection \<open>Lines\<close>

abbreviation newline :: char where "newline \<equiv> CHR 0x0A"
abbreviation return :: char where "return \<equiv> CHR 0x0D"

definition strip_cr :: "string \<Rightarrow> string" where
  "strip_cr l = (if l \<noteq> [] \<and> last l = return then butlast l else l)"

function lines :: "string \<Rightarrow> string list" where
  "lines s = (if s = [] then [] else
     case dropWhile (\<lambda>c. c \<noteq> newline) s of
       [] \<Rightarrow> [s]
     | _ # r \<Rightarrow> strip_cr (takeWhile (\<lambda>c. c \<noteq> newline) s) # lines r)"
  by pat_completeness auto
termination
proof (relation "measure length")
  fix s x r assume "s \<noteq> []" "dropWhile (\<lambda>c. c \<noteq> newline) s = x # r"
  from arg_cong [OF this(2), of length] length_dropWhile_le [of "\<lambda>c. c \<noteq> newline" s]
  show "(r, s) \<in> measure length" by simp
qed simp

declare lines.simps [simp del]

definition blank :: "string \<Rightarrow> bool" where
  "blank l \<longleftrightarrow> list_all (\<lambda>c. c \<in> {CHR '' '', CHR 0x09, newline, CHR 0x0B, CHR 0x0C, return}) l"

lemma lines_Nil [simp]: "lines [] = []"
  by (simp add: lines.simps)

lemma lines_line:
  assumes "newline \<notin> set l"
  shows "lines (l @ newline # r) = strip_cr l # lines r"
proof -
  have "dropWhile (\<lambda>c. c \<noteq> newline) (l @ newline # r) = newline # r"
    "takeWhile (\<lambda>c. c \<noteq> newline) (l @ newline # r) = l"
    using assms by (induction l) auto
  then show ?thesis by (subst lines.simps) simp
qed

lemma lines_torn: "newline \<notin> set l \<Longrightarrow> l \<noteq> [] \<Longrightarrow> lines l = [l]"
proof -
  assume "newline \<notin> set l" "l \<noteq> []"
  then have "dropWhile (\<lambda>c. c \<noteq> newline) l = []" by auto
  with \<open>l \<noteq> []\<close> show ?thesis by (subst lines.simps) (simp only: list.case if_False)
qed

subsection \<open>Records on lines\<close>

text \<open>
  What the readers rely on from \<^verbatim>\<open>serde_json\<close>: a printed record is parsed back, and its text is one
  line that is not blank and does not end in a carriage return.
\<close>

definition json_ok :: "('a \<Rightarrow> string) \<Rightarrow> (string \<Rightarrow> string + 'a) \<Rightarrow> bool" where
  "json_ok to_json from_json \<longleftrightarrow> (\<forall>x. from_json (to_json x) = Inr x \<and> newline \<notin> set (to_json x) \<and> \<not> blank (to_json x) \<and>
     strip_cr (to_json x) = to_json x)"

definition text_of :: "('a \<Rightarrow> string) \<Rightarrow> 'a list \<Rightarrow> string" where
  "text_of to_json xs = concat (map (\<lambda>x. to_json x @ [newline]) xs)"

lemma text_of_simps [simp]: "text_of to_json [] = []" "text_of to_json (x # xs) = to_json x @ newline # text_of to_json xs"
  "text_of to_json (xs @ ys) = text_of to_json xs @ text_of to_json ys"
  by (simp_all add: text_of_def)

lemma json_okD:
  assumes "json_ok to_json from_json"
  shows "from_json (to_json x) = Inr x" "newline \<notin> set (to_json x)" "\<not> blank (to_json x)" "strip_cr (to_json x) = to_json x"
  using assms by (simp_all add: json_ok_def)

lemma lines_text_of:
  assumes "json_ok to_json from_json"
  shows "lines (text_of to_json xs @ r) = map to_json xs @ lines r"
  by (induction xs) (simp_all add: lines_line json_okD [OF assms])

subsection \<open>Files\<close>

record jfile =
  jf_data :: "string option"
  jf_faults :: "io_outcome list"

definition jf_text :: "jfile \<Rightarrow> string" where
  "jf_text f = (case jf_data f of None \<Rightarrow> [] | Some t \<Rightarrow> t)"

definition jf_io :: "jfile \<Rightarrow> jfile \<times> io_outcome" where
  "jf_io f = (case jf_faults f of [] \<Rightarrow> (f, IoOk) | x # xs \<Rightarrow> (f\<lparr>jf_faults := xs\<rparr>, x))"

text \<open>Opening for appending creates the file.\<close>

definition jf_open_append :: "jfile \<Rightarrow> jfile \<times> (unit + unit)" where
  "jf_open_append f = (case jf_io f of
       (f1, IoErr _) \<Rightarrow> (f1, Inl ())
     | (f1, IoOk) \<Rightarrow> (f1\<lparr>jf_data := Some (jf_text f1)\<rparr>, Inr ()))"

definition jf_write :: "string \<Rightarrow> jfile \<Rightarrow> jfile \<times> (unit + unit)" where
  "jf_write t f = (case jf_io f of
       (f1, IoOk) \<Rightarrow> (f1\<lparr>jf_data := Some (jf_text f1 @ t)\<rparr>, Inr ())
     | (f1, IoErr n) \<Rightarrow> (f1\<lparr>jf_data := Some (jf_text f1 @ take n t)\<rparr>, Inl ()))"

definition jf_sync :: "jfile \<Rightarrow> jfile \<times> (unit + unit)" where
  "jf_sync f = (case jf_io f of (f1, IoOk) \<Rightarrow> (f1, Inr ()) | (f1, IoErr _) \<Rightarrow> (f1, Inl ()))"

definition jf_writeln :: "string \<Rightarrow> jfile \<Rightarrow> jfile \<times> (unit + unit)" where
  "jf_writeln t f = and_then (jf_write t f) (\<lambda>f1 _. jf_write [newline] f1)"

lemma jf_write_ok:
  assumes "jf_write t f = (f', Inr ())"
  shows "jf_data f' = Some (jf_text f @ t)"
  using assms by (auto simp: jf_write_def jf_io_def jf_text_def split: list.splits io_outcome.splits)

lemma jf_writeln_ok:
  assumes "jf_writeln t f = (f', Inr ())"
  shows "jf_data f' = Some (jf_text f @ t @ [newline])"
proof -
  from assms obtain f1 where 1: "jf_write t f = (f1, Inr ())" "jf_write [newline] f1 = (f', Inr ())"
    by (auto simp: jf_writeln_def and_then_Inr_iff)
  from jf_write_ok [OF 1(2)] jf_write_ok [OF 1(1)] show ?thesis by (simp add: jf_text_def)
qed

lemma jf_sync_data [simp]: "jf_data (fst (jf_sync f)) = jf_data f"
  by (simp add: jf_sync_def jf_io_def split: list.split io_outcome.split)

lemma jf_sync_ok: "jf_sync f = (f', Inr ()) \<Longrightarrow> jf_data f' = jf_data f"
  using jf_sync_data [of f] by simp

lemma jf_open_ok: "jf_open_append f = (f', Inr ()) \<Longrightarrow> jf_data f' = Some (jf_text f)"
  by (auto simp: jf_open_append_def jf_io_def jf_text_def split: list.splits io_outcome.splits)

lemma jf_clean:
  assumes "jf_faults f = []"
  shows "jf_writeln t f = (f\<lparr>jf_data := Some (jf_text f @ t @ [newline])\<rparr>, Inr ())" "jf_sync f = (f, Inr ())"
    "jf_open_append f = (f\<lparr>jf_data := Some (jf_text f)\<rparr>, Inr ())"
  using assms by (simp_all add: jf_writeln_def jf_write_def jf_sync_def jf_open_append_def jf_io_def jf_text_def)

end
