(* ===== verification/Audit_Log.thy ===== *)
theory Audit_Log
  imports Json_Lines Journal_Entry
begin

text \<open>
  \<^verbatim>\<open>crates/vledger-audit\<close>: the append-only audit log (\<^verbatim>\<open>event.rs\<close>, \<^verbatim>\<open>log.rs\<close>) and its export
  (\<^verbatim>\<open>export.rs\<close>).

  Several threads share one log: \<^verbatim>\<open>append\<close> first takes a sequence number from the atomic counter
  and then links and writes the event under the lock of the chain tip, so it is two steps
  here.  \<^verbatim>\<open>serde_json\<close> and the RFC 3339 text of an instant are parameters.
\<close>

subsection \<open>Events\<close>

datatype audit_event_kind =
    QueryExecuted string string nat u64
  | EntryPosted uuid u64 string "64 word" string
  | AccountCreated uuid string string string
  | AuditAccountClosed uuid string
  | KeyRotated string string
  | ReplicationEvent u64 string string
  | AuthEvent string bool string
  | FourEyesSubmitted uuid uuid string string
  | FourEyesApproved uuid string
  | FourEyesRejected uuid string string
  | BackupCreated string u64 string
  | KeyRotationStarted "string list" string
  | ServerStarted string string

fun kind_name :: "audit_event_kind \<Rightarrow> string" where
  "kind_name (QueryExecuted sql caller_id rows_affected duration_ms) = ''query_executed''"
| "kind_name (EntryPosted entry_id entry_sequence domain amount_sum caller_id) = ''entry_posted''"
| "kind_name (AccountCreated account_id account_code domain caller_id) = ''account_created''"
| "kind_name (AuditAccountClosed account_id caller_id) = ''account_closed''"
| "kind_name (KeyRotated key_id caller_id) = ''key_rotated''"
| "kind_name (ReplicationEvent lsn direction peer) = ''replication_event''"
| "kind_name (AuthEvent caller_id success peer_addr) = ''auth_event''"
| "kind_name (FourEyesSubmitted approval_id entry_id submitter domain) = ''four_eyes_submitted''"
| "kind_name (FourEyesApproved approval_id approver) = ''four_eyes_approved''"
| "kind_name (FourEyesRejected approval_id approver reason) = ''four_eyes_rejected''"
| "kind_name (BackupCreated path size_bytes caller_id) = ''backup_created''"
| "kind_name (KeyRotationStarted key_ids caller_id) = ''key_rotation_started''"
| "kind_name (ServerStarted bind_addr version) = ''server_started''"

record audit_event =
  ae_sequence :: u64
  ae_ts :: timestamp
  ae_event :: audit_event_kind
  ae_content_hash :: string
  ae_chain_hash :: string
  ae_prev_hash :: string

datatype audit_error =
    AuditIo
  | AuditSerialisation string
  | AuditChainBroken u64 string
  | AuditExport string
  | AuditPanic

record audit_codec =
  kind_json :: "audit_event_kind \<Rightarrow> string"
  event_json :: "audit_event \<Rightarrow> string"
  event_parse :: "string \<Rightarrow> string + audit_event"
  rfc3339 :: "timestamp \<Rightarrow> string"

definition audit_codec_ok :: "audit_codec \<Rightarrow> bool" where
  "audit_codec_ok C \<longleftrightarrow> json_ok (event_json C) (event_parse C) \<and> inj (kind_json C)"

definition AUDIT_ZERO_HASH :: string where
  "AUDIT_ZERO_HASH = replicate 64 (CHR ''0'')"

definition audit_canonical_bytes :: "audit_codec \<Rightarrow> audit_event \<Rightarrow> bytes" where
  "audit_canonical_bytes C e = le_bytes 8 (unat (ae_sequence e)) @ i64_bytes (nanos_or_zero (ae_ts e)) @
     str_bytes (kind_json C (ae_event e))"

definition hash_hex :: "(bytes \<Rightarrow> hash) \<Rightarrow> bytes \<Rightarrow> string" where
  "hash_hex b3 m = hex_encode (hash_raw (b3 m))"

definition audit_link :: "u64 \<Rightarrow> string \<Rightarrow> string \<Rightarrow> bytes" where
  "audit_link sq prev content = le_bytes 8 (unat sq) @ str_bytes prev @ str_bytes content"

definition finalise :: "audit_codec \<Rightarrow> (bytes \<Rightarrow> hash) \<Rightarrow> string \<Rightarrow> audit_event \<Rightarrow> audit_event" where
  "finalise C b3 prev_chain_hash e =
     (let content_hex = hash_hex b3 (audit_canonical_bytes C e)
      in e\<lparr>ae_content_hash := content_hex, ae_prev_hash := prev_chain_hash,
           ae_chain_hash := hash_hex b3 (audit_link (ae_sequence e) prev_chain_hash content_hex)\<rparr>)"

definition audit_verify :: "audit_codec \<Rightarrow> (bytes \<Rightarrow> hash) \<Rightarrow> audit_event \<Rightarrow> bool" where
  "audit_verify C b3 e =
     (let expected_content = hash_hex b3 (audit_canonical_bytes C e) in
      if expected_content \<noteq> ae_content_hash e then False
      else hash_hex b3 (audit_link (ae_sequence e) (ae_prev_hash e) expected_content) = ae_chain_hash e)"

subsection \<open>The log\<close>

record audit_log =
  al_file :: jfile
  al_next_seq :: u64
  al_last_chain :: string

text \<open>Unparsable lines are skipped here, and are errors in \<open>verify_lines\<close>.\<close>

fun scan_tail :: "audit_codec \<Rightarrow> u64 \<Rightarrow> string \<Rightarrow> string list \<Rightarrow> u64 \<times> string" where
  "scan_tail C last_seq last_chain [] = (last_seq + 1, last_chain)"
| "scan_tail C last_seq last_chain (l # ls) =
     (if blank l then scan_tail C last_seq last_chain ls
      else case event_parse C l of
          Inr ev \<Rightarrow> scan_tail C (ae_sequence ev) (ae_chain_hash ev) ls
        | Inl _ \<Rightarrow> scan_tail C last_seq last_chain ls)"

definition audit_open :: "audit_codec \<Rightarrow> jfile \<Rightarrow> jfile \<times> (audit_error + audit_log)" where
  "audit_open C f =
     (let (next_seq, last_chain) = (case jf_data f of
            None \<Rightarrow> (1, AUDIT_ZERO_HASH)
          | Some t \<Rightarrow> scan_tail C 0 AUDIT_ZERO_HASH (lines t))
      in case jf_open_append f of
           (f1, Inl _) \<Rightarrow> (f1, Inl AuditIo)
         | (f1, Inr _) \<Rightarrow> (f1, Inr \<lparr> al_file = f1, al_next_seq = next_seq, al_last_chain = last_chain \<rparr>))"

definition take_sequence :: "audit_log \<Rightarrow> audit_log \<times> u64" where
  "take_sequence g = (g\<lparr>al_next_seq := al_next_seq g + 1\<rparr>, al_next_seq g)"

text \<open>The rest of \<^verbatim>\<open>append\<close>, under the lock of \<^verbatim>\<open>last_chain\<close>.\<close>

definition append_locked :: "audit_codec \<Rightarrow> (bytes \<Rightarrow> hash) \<Rightarrow> u64 \<Rightarrow> timestamp \<Rightarrow> audit_event_kind \<Rightarrow> audit_log \<Rightarrow>
    audit_log \<times> (audit_error + audit_event)" where
  "append_locked C b3 sq now kind g =
     (let event = finalise C b3 (al_last_chain g)
            \<lparr> ae_sequence = sq, ae_ts = now, ae_event = kind, ae_content_hash = [], ae_chain_hash = [], ae_prev_hash = [] \<rparr>
      in case and_then (jf_writeln (event_json C event) (al_file g)) (\<lambda>f _. jf_sync f) of
           (f, Inl _) \<Rightarrow> (g\<lparr>al_file := f\<rparr>, Inl AuditIo)
         | (f, Inr _) \<Rightarrow> (g\<lparr>al_file := f, al_last_chain := ae_chain_hash event\<rparr>, Inr event))"

definition audit_append :: "audit_codec \<Rightarrow> (bytes \<Rightarrow> hash) \<Rightarrow> timestamp \<Rightarrow> audit_event_kind \<Rightarrow> audit_log \<Rightarrow>
    audit_log \<times> (audit_error + audit_event)" where
  "audit_append C b3 now kind g = (let (g1, sq) = take_sequence g in append_locked C b3 sq now kind g1)"

definition chain_tip :: "audit_log \<Rightarrow> string" where
  "chain_tip g = al_last_chain g"

definition next_sequence :: "audit_log \<Rightarrow> u64" where
  "next_sequence g = al_next_seq g"

fun verify_lines :: "audit_codec \<Rightarrow> (bytes \<Rightarrow> hash) \<Rightarrow> string \<Rightarrow> u64 \<Rightarrow> string list \<Rightarrow> audit_error + u64" where
  "verify_lines C b3 prev_hash count [] = Inr count"
| "verify_lines C b3 prev_hash count (l # ls) =
     (if blank l then verify_lines C b3 prev_hash count ls
      else case event_parse C l of
          Inl err \<Rightarrow> Inl (AuditSerialisation err)
        | Inr event \<Rightarrow>
            if \<not> audit_verify C b3 event
            then Inl (AuditChainBroken (ae_sequence event) ''content_hash or chain_hash mismatch'')
            else if ae_prev_hash event \<noteq> prev_hash
            then Inl (AuditChainBroken (ae_sequence event)
              (''prev_hash mismatch: expected '' @ prev_hash @ '', got '' @ ae_prev_hash event))
            else verify_lines C b3 (ae_chain_hash event) (count + 1) ls)"

definition audit_verify_chain :: "audit_codec \<Rightarrow> (bytes \<Rightarrow> hash) \<Rightarrow> audit_log \<Rightarrow> audit_error + u64" where
  "audit_verify_chain C b3 g = (case jf_data (al_file g) of
       None \<Rightarrow> Inl AuditIo
     | Some t \<Rightarrow> verify_lines C b3 AUDIT_ZERO_HASH 0 (lines t))"

subsection \<open>Export\<close>

record time_range =
  tr_from :: timestamp
  tr_to :: timestamp

definition range_contains :: "time_range \<Rightarrow> timestamp \<Rightarrow> bool" where
  "range_contains r ts \<longleftrightarrow> ts \<ge> tr_from r \<and> ts \<le> tr_to r"

text \<open>The callback writes the text of an event; the writer does not fail.\<close>

fun scan_events :: "audit_codec \<Rightarrow> time_range \<Rightarrow> (audit_event \<Rightarrow> audit_error + string) \<Rightarrow> string \<Rightarrow> u64 \<Rightarrow> string list \<Rightarrow>
    string \<times> (audit_error + u64)" where
  "scan_events C r cb out count [] = (out, Inr count)"
| "scan_events C r cb out count (l # ls) =
     (if blank l then scan_events C r cb out count ls
      else case event_parse C l of
          Inl err \<Rightarrow> (out, Inl (AuditSerialisation err))
        | Inr ev \<Rightarrow>
            if range_contains r (ae_ts ev)
            then (case cb ev of
                Inl err \<Rightarrow> (out, Inl err)
              | Inr t \<Rightarrow> scan_events C r cb (out @ t) (count + 1) ls)
            else scan_events C r cb out count ls)"

definition scan_file :: "audit_codec \<Rightarrow> time_range \<Rightarrow> (audit_event \<Rightarrow> audit_error + string) \<Rightarrow> string \<Rightarrow> string option \<Rightarrow>
    string \<times> (audit_error + u64)" where
  "scan_file C r cb out d = (case d of None \<Rightarrow> (out, Inr 0) | Some t \<Rightarrow> scan_events C r cb out 0 (lines t))"

definition export_json :: "audit_codec \<Rightarrow> string option \<Rightarrow> time_range \<Rightarrow> string \<times> (audit_error + u64)" where
  "export_json C d r = scan_file C r (\<lambda>ev. Inr (event_json C ev @ [newline])) [] d"

definition double_quotes :: "string \<Rightarrow> string" where
  "double_quotes t = concat (map (\<lambda>c. if c = CHR 0x22 then [CHR 0x22, CHR 0x22] else [c]) t)"

text \<open>\<^verbatim>\<open>&h[..16]\<close> panics when the string is shorter.\<close>

definition csv_row :: "audit_codec \<Rightarrow> audit_event \<Rightarrow> audit_error + string" where
  "csv_row C ev = (if length (ae_content_hash ev) < 16 \<or> length (ae_chain_hash ev) < 16 then Inl AuditPanic
     else Inr (dec_string (unat (ae_sequence ev)) @ '','' @ rfc3339 C (ae_ts ev) @ '','' @ kind_name (ae_event ev) @ '','' @
       take 16 (ae_content_hash ev) @ '','' @ take 16 (ae_chain_hash ev) @ '','' @
       [CHR 0x22] @ double_quotes (kind_json C (ae_event ev)) @ [CHR 0x22] @ [newline]))"

definition export_csv :: "audit_codec \<Rightarrow> string option \<Rightarrow> time_range \<Rightarrow> string \<times> (audit_error + u64)" where
  "export_csv C d r = scan_file C r (csv_row C) (''sequence,ts,kind,content_hash,chain_hash,details'' @ [newline]) d"

end
