(* ===== verification/Four_Eyes.thy ===== *)
theory Four_Eyes
  imports Audit_Log "HOL-Library.Multiset"
begin

text \<open>
  \<^verbatim>\<open>crates/vledger-foureyes\<close>: the approval queue (\<^verbatim>\<open>queue.rs\<close>) and its records (\<^verbatim>\<open>record.rs\<close>).

  The queue directory holds three files of JSON lines; all of them share the list of I/O
  outcomes.  The callback that posts an approved entry is a function on a state of the caller.
  \<^verbatim>\<open>serde_json\<close> is a parameter, file permissions are not represented, and creating the
  directory and reading files do not fail.
\<close>

subsection \<open>Records\<close>

datatype approval_status = ApprovalPending | ApprovalApproved | ApprovalRejected

record approval_record =
  ar_id :: uuid
  ar_status :: approval_status
  ar_submitter_id :: string
  ar_approver_id :: "string option"
  ar_reject_reason :: "string option"
  ar_submitted_at :: timestamp
  ar_decided_at :: "timestamp option"
  ar_entry_payload_hex :: string
  ar_description :: string
  ar_domain :: string

datatype four_eyes_error =
    FeIo
  | FeNotFound uuid
  | FeNotPending uuid string
  | FeSelfApproval string
  | FePostFailed string
  | FeSerialisation string

record fe_codec =
  record_json :: "approval_record \<Rightarrow> string"
  record_parse :: "string \<Rightarrow> string + approval_record"
  fe_audit_codec :: audit_codec
  fe_blake3 :: "bytes \<Rightarrow> hash"

subsection \<open>The directory\<close>

datatype fe_file = PendingFile | ApprovedFile | RejectedFile

record fe_dir =
  fd_files :: "fe_file \<Rightarrow> string option"
  fd_faults :: "io_outcome list"

definition fd_file :: "fe_file \<Rightarrow> fe_dir \<Rightarrow> jfile" where
  "fd_file f d = \<lparr> jf_data = fd_files d f, jf_faults = fd_faults d \<rparr>"

definition fd_store :: "fe_file \<Rightarrow> jfile \<Rightarrow> fe_dir \<Rightarrow> fe_dir" where
  "fd_store f j d = d\<lparr>fd_files := (fd_files d)(f := jf_data j), fd_faults := jf_faults j\<rparr>"

text \<open>\<^verbatim>\<open>File::create\<close> truncates.\<close>

definition jf_create :: "jfile \<Rightarrow> jfile \<times> (unit + unit)" where
  "jf_create f = (case jf_io f of (f1, IoErr _) \<Rightarrow> (f1, Inl ()) | (f1, IoOk) \<Rightarrow> (f1\<lparr>jf_data := Some []\<rparr>, Inr ()))"

text \<open>\<^verbatim>\<open>persist_pending\<close> and \<^verbatim>\<open>persist_decided\<close>: append one line to a file.\<close>

definition persist_record :: "fe_codec \<Rightarrow> fe_file \<Rightarrow> approval_record \<Rightarrow> fe_dir \<Rightarrow> fe_dir \<times> (four_eyes_error + unit)" where
  "persist_record C f r d =
     (case and_then (if fd_files d f = None then jf_create (fd_file f d) else (fd_file f d, Inr ())) (\<lambda>j _.
           and_then (jf_open_append j) (\<lambda>j _.
           and_then (jf_writeln (record_json C r) j) (\<lambda>j _. jf_sync j))) of
        (j, Inl _) \<Rightarrow> (fd_store f j d, Inl FeIo)
      | (j, Inr _) \<Rightarrow> (fd_store f j d, Inr ()))"

definition kept_lines :: "fe_codec \<Rightarrow> uuid \<Rightarrow> string \<Rightarrow> string list" where
  "kept_lines C i t = filter (\<lambda>l. \<not> blank l \<and>
     (case record_parse C l of Inr r \<Rightarrow> ar_id r \<noteq> i | Inl _ \<Rightarrow> True)) (lines t)"

fun write_lines :: "string list \<Rightarrow> jfile \<Rightarrow> jfile \<times> (unit + unit)" where
  "write_lines [] f = (f, Inr ())"
| "write_lines (l # ls) f = and_then (jf_writeln l f) (\<lambda>f1 _. write_lines ls f1)"

text \<open>The temporary file is written and synced, then renamed over \<^verbatim>\<open>pending.jsonl\<close>.\<close>

definition jf_step :: "jfile \<Rightarrow> jfile \<times> (unit + unit)" where
  "jf_step f = (case jf_io f of (f1, IoOk) \<Rightarrow> (f1, Inr ()) | (f1, IoErr _) \<Rightarrow> (f1, Inl ()))"

definition remove_pending :: "fe_codec \<Rightarrow> uuid \<Rightarrow> fe_dir \<Rightarrow> fe_dir \<times> (four_eyes_error + unit)" where
  "remove_pending C i d = (case fd_files d PendingFile of
       None \<Rightarrow> (d, Inr ())
     | Some t \<Rightarrow>
         (case and_then (jf_create \<lparr> jf_data = None, jf_faults = fd_faults d \<rparr>) (\<lambda>j _.
               and_then (jf_step j) (\<lambda>j _.
               and_then (write_lines (kept_lines C i t) j) (\<lambda>j _.
               and_then (jf_sync j) (\<lambda>j _. jf_step j)))) of
            (j, Inl _) \<Rightarrow> (d\<lparr>fd_faults := jf_faults j\<rparr>, Inl FeIo)
          | (j, Inr _) \<Rightarrow> (fd_store PendingFile j d, Inr ())))"

fun load_lines :: "fe_codec \<Rightarrow> string list \<Rightarrow> (uuid \<times> approval_record) list \<Rightarrow> (uuid \<times> approval_record) list" where
  "load_lines C [] m = m"
| "load_lines C (l # ls) m =
     (if blank l then load_lines C ls m
      else case record_parse C l of
          Inr r \<Rightarrow> load_lines C ls (AList.update (ar_id r) r m)
        | Inl _ \<Rightarrow> load_lines C ls m)"

definition load_pending :: "fe_codec \<Rightarrow> fe_dir \<Rightarrow> (uuid \<times> approval_record) list" where
  "load_pending C d = (case fd_files d PendingFile of None \<Rightarrow> [] | Some t \<Rightarrow> load_lines C (lines t) [])"

fun find_line :: "fe_codec \<Rightarrow> uuid \<Rightarrow> string list \<Rightarrow> approval_record option" where
  "find_line C i [] = None"
| "find_line C i (l # ls) =
     (if blank l then find_line C i ls
      else case record_parse C l of
          Inr r \<Rightarrow> if ar_id r = i then Some r else find_line C i ls
        | Inl _ \<Rightarrow> find_line C i ls)"

definition find_in_decided :: "fe_codec \<Rightarrow> fe_file \<Rightarrow> uuid \<Rightarrow> fe_dir \<Rightarrow> approval_record option" where
  "find_in_decided C f i d = (case fd_files d f of None \<Rightarrow> None | Some t \<Rightarrow> find_line C i (lines t))"

subsection \<open>The queue\<close>

record four_eyes_queue =
  fq_dir :: fe_dir
  fq_pending :: "(uuid \<times> approval_record) list"
  fq_audit :: "audit_log option"

definition fe_open :: "fe_codec \<Rightarrow> fe_dir \<Rightarrow> four_eyes_queue" where
  "fe_open C d = \<lparr> fq_dir = d, fq_pending = load_pending C d, fq_audit = None \<rparr>"

definition fe_open_with_audit :: "fe_codec \<Rightarrow> fe_dir \<Rightarrow> audit_log \<Rightarrow> four_eyes_queue" where
  "fe_open_with_audit C d g = (fe_open C d)\<lparr>fq_audit := Some g\<rparr>"

text \<open>\<^verbatim>\<open>let _ = log.append(..)\<close>: the result of the audit log is ignored.\<close>

definition fe_audit :: "fe_codec \<Rightarrow> timestamp \<Rightarrow> audit_event_kind \<Rightarrow> four_eyes_queue \<Rightarrow> four_eyes_queue" where
  "fe_audit C now kind q = (case fq_audit q of
       None \<Rightarrow> q
     | Some g \<Rightarrow> q\<lparr>fq_audit := Some (fst (audit_append (fe_audit_codec C) (fe_blake3 C) now kind g))\<rparr>)"

text \<open>A step on the directory inside an operation on the queue.\<close>

definition on_dir :: "four_eyes_queue \<Rightarrow> fe_dir \<times> (four_eyes_error + 'a) \<Rightarrow> four_eyes_queue \<times> (four_eyes_error + 'a)" where
  "on_dir q x = (q\<lparr>fq_dir := fst x\<rparr>, snd x)"

definition fe_submit :: "fe_codec \<Rightarrow> uuid \<Rightarrow> (nat \<Rightarrow> timestamp) \<Rightarrow> bytes \<Rightarrow> string \<Rightarrow> string \<Rightarrow> string \<Rightarrow> four_eyes_queue \<Rightarrow>
    four_eyes_queue \<times> (four_eyes_error + approval_record)" where
  "fe_submit C uid now entry_bytes description domain submitter_id q =
     (let r = \<lparr> ar_id = uid, ar_status = ApprovalPending, ar_submitter_id = submitter_id, ar_approver_id = None,
            ar_reject_reason = None, ar_submitted_at = now 0, ar_decided_at = None,
            ar_entry_payload_hex = hex_encode entry_bytes, ar_description = description, ar_domain = domain \<rparr>
      in and_then (on_dir q (persist_record C PendingFile r (fq_dir q))) (\<lambda>q1 _.
           (fe_audit C (now 1) (FourEyesSubmitted uid uid submitter_id domain)
              (q1\<lparr>fq_pending := AList.update uid r (fq_pending q1)\<rparr>), Inr r)))"

text \<open>The part that \<^verbatim>\<open>approve\<close> and \<^verbatim>\<open>reject\<close> share: move a decided record out of the pending ones.\<close>

definition fe_decide :: "fe_codec \<Rightarrow> fe_file \<Rightarrow> uuid \<Rightarrow> approval_record \<Rightarrow> four_eyes_queue \<Rightarrow> four_eyes_queue \<times> (four_eyes_error + unit)" where
  "fe_decide C f i r q =
     and_then (on_dir q (persist_record C f r (fq_dir q))) (\<lambda>q1 _.
     and_then (on_dir q1 (remove_pending C i (fq_dir q1))) (\<lambda>q2 _.
       (q2\<lparr>fq_pending := AList.delete i (fq_pending q2)\<rparr>, Inr ())))"

text \<open>
  \<open>fe_approve\<close> and \<open>fe_reject\<close> are calls that no other call overlaps.  The code holds no lock across a call;
  the section on overlapping calls below splits both into their steps.
\<close>

definition fe_approve :: "fe_codec \<Rightarrow> (bytes \<Rightarrow> 'p \<Rightarrow> 'p \<times> (string + unit)) \<Rightarrow> (nat \<Rightarrow> timestamp) \<Rightarrow> uuid \<Rightarrow> string \<Rightarrow>
    four_eyes_queue \<times> 'p \<Rightarrow> (four_eyes_queue \<times> 'p) \<times> (four_eyes_error + approval_record)" where
  "fe_approve C post now i approver_id s = (case s of (q, p) \<Rightarrow>
     (case find_in_decided C ApprovedFile i (fq_dir q) of
        Some already \<Rightarrow> (s, Inr already)
      | None \<Rightarrow> (case map_of (fq_pending q) i of
          None \<Rightarrow> (s, Inl (FeNotFound i))
        | Some r \<Rightarrow>
            if ar_submitter_id r = approver_id then (s, Inl (FeSelfApproval approver_id))
            else (case hex_decode (ar_entry_payload_hex r) of
                None \<Rightarrow> (s, Inl (FeSerialisation ''hex''))
              | Some bs \<Rightarrow> (case post bs p of
                  (p1, Inl err) \<Rightarrow> ((q, p1), Inl (FePostFailed err))
                | (p1, Inr _) \<Rightarrow>
                    let r1 = r\<lparr>ar_status := ApprovalApproved, ar_approver_id := Some approver_id, ar_decided_at := Some (now 0)\<rparr>
                    in (case fe_decide C ApprovedFile i r1 q of
                          (q1, Inl err) \<Rightarrow> ((q1, p1), Inl err)
                        | (q1, Inr _) \<Rightarrow> ((fe_audit C (now 1) (FourEyesApproved i approver_id) q1, p1), Inr r1)))))))"

definition fe_reject :: "fe_codec \<Rightarrow> (nat \<Rightarrow> timestamp) \<Rightarrow> uuid \<Rightarrow> string \<Rightarrow> string \<Rightarrow> four_eyes_queue \<Rightarrow>
    four_eyes_queue \<times> (four_eyes_error + approval_record)" where
  "fe_reject C now i approver_id reason q = (case map_of (fq_pending q) i of
       None \<Rightarrow> (q, Inl (FeNotFound i))
     | Some r \<Rightarrow>
         if ar_submitter_id r = approver_id then (q, Inl (FeSelfApproval approver_id))
         else let r1 = r\<lparr>ar_status := ApprovalRejected, ar_approver_id := Some approver_id,
                  ar_reject_reason := Some reason, ar_decided_at := Some (now 0)\<rparr>
              in and_then (fe_decide C RejectedFile i r1 q) (\<lambda>q1 _.
                   (fe_audit C (now 1) (FourEyesRejected i approver_id reason) q1, Inr r1)))"

definition list_pending :: "four_eyes_queue \<Rightarrow> approval_record list" where
  "list_pending q = map snd (fq_pending q)"

definition fe_get :: "four_eyes_queue \<Rightarrow> uuid \<Rightarrow> approval_record option" where
  "fe_get q i = map_of (fq_pending q) i"

subsection \<open>Overlapping calls\<close>

text \<open>
  The mutex protects only the single accesses to the in-memory index, so calls of several threads interleave at
  the accesses to the files, the index, the posting function and the audit log.  \<open>fe_pc\<close> says where in
  its call a thread is; a record is carried as the thread's local copy.
\<close>

datatype fe_pc =
    AtDecided
  | AtLookup
  | AtPost approval_record bytes
  | AtPersist approval_record
  | AtRemove approval_record
  | AtForget approval_record
  | AtAudit approval_record
  | Returned "four_eyes_error + approval_record"

text \<open>The steps after the decision: write the decided file, rewrite the pending file, drop the record from the index, log.\<close>

fun decide_step :: "fe_codec \<Rightarrow> fe_file \<Rightarrow> uuid \<Rightarrow> timestamp \<Rightarrow> audit_event_kind \<Rightarrow> four_eyes_queue \<Rightarrow> fe_pc \<Rightarrow> four_eyes_queue \<times> fe_pc" where
  "decide_step C f i t kind q (AtPersist r) = (case on_dir q (persist_record C f r (fq_dir q)) of
       (q1, Inl err) \<Rightarrow> (q1, Returned (Inl err)) | (q1, Inr _) \<Rightarrow> (q1, AtRemove r))"
| "decide_step C f i t kind q (AtRemove r) = (case on_dir q (remove_pending C i (fq_dir q)) of
       (q1, Inl err) \<Rightarrow> (q1, Returned (Inl err)) | (q1, Inr _) \<Rightarrow> (q1, AtForget r))"
| "decide_step C f i t kind q (AtForget r) = (q\<lparr>fq_pending := AList.delete i (fq_pending q)\<rparr>, AtAudit r)"
| "decide_step C f i t kind q (AtAudit r) = (fe_audit C t kind q, Returned (Inr r))"
| "decide_step C f i t kind q pc = (q, pc)"

fun approve_step :: "fe_codec \<Rightarrow> (bytes \<Rightarrow> 'p \<Rightarrow> 'p \<times> (string + unit)) \<Rightarrow> (nat \<Rightarrow> timestamp) \<Rightarrow> uuid \<Rightarrow> string \<Rightarrow>
    (four_eyes_queue \<times> 'p) \<times> fe_pc \<Rightarrow> (four_eyes_queue \<times> 'p) \<times> fe_pc" where
  "approve_step C post now i approver_id ((q, p), AtDecided) = ((q, p),
     case find_in_decided C ApprovedFile i (fq_dir q) of Some already \<Rightarrow> Returned (Inr already) | None \<Rightarrow> AtLookup)"
| "approve_step C post now i approver_id ((q, p), AtLookup) = ((q, p),
     case map_of (fq_pending q) i of
       None \<Rightarrow> Returned (Inl (FeNotFound i))
     | Some r \<Rightarrow> if ar_submitter_id r = approver_id then Returned (Inl (FeSelfApproval approver_id))
         else case hex_decode (ar_entry_payload_hex r) of
             None \<Rightarrow> Returned (Inl (FeSerialisation ''hex'')) | Some bs \<Rightarrow> AtPost r bs)"
| "approve_step C post now i approver_id ((q, p), AtPost r bs) = (case post bs p of
       (p1, Inl err) \<Rightarrow> ((q, p1), Returned (Inl (FePostFailed err)))
     | (p1, Inr _) \<Rightarrow> ((q, p1), AtPersist
         (r\<lparr>ar_status := ApprovalApproved, ar_approver_id := Some approver_id, ar_decided_at := Some (now 0)\<rparr>)))"
| "approve_step C post now i approver_id ((q, p), pc) =
     (case decide_step C ApprovedFile i (now 1) (FourEyesApproved i approver_id) q pc of (q1, pc1) \<Rightarrow> ((q1, p), pc1))"

fun reject_step :: "fe_codec \<Rightarrow> (nat \<Rightarrow> timestamp) \<Rightarrow> uuid \<Rightarrow> string \<Rightarrow> string \<Rightarrow>
    four_eyes_queue \<times> fe_pc \<Rightarrow> four_eyes_queue \<times> fe_pc" where
  "reject_step C now i approver_id reason (q, AtLookup) = (q, case map_of (fq_pending q) i of
       None \<Rightarrow> Returned (Inl (FeNotFound i))
     | Some r \<Rightarrow> if ar_submitter_id r = approver_id then Returned (Inl (FeSelfApproval approver_id))
         else AtPersist (r\<lparr>ar_status := ApprovalRejected, ar_approver_id := Some approver_id,
                  ar_reject_reason := Some reason, ar_decided_at := Some (now 0)\<rparr>))"
| "reject_step C now i approver_id reason (q, pc) =
     decide_step C RejectedFile i (now 1) (FourEyesRejected i approver_id reason) q pc"

text \<open>
  Two threads that approve: \<open>True\<close> in the schedule is a step of the first thread, \<open>False\<close> one of the second.
\<close>

fun run_approvers :: "fe_codec \<Rightarrow> (bytes \<Rightarrow> 'p \<Rightarrow> 'p \<times> (string + unit)) \<Rightarrow> (nat \<Rightarrow> timestamp) \<Rightarrow> uuid \<Rightarrow> string \<Rightarrow> string \<Rightarrow>
    bool list \<Rightarrow> (four_eyes_queue \<times> 'p) \<times> fe_pc \<times> fe_pc \<Rightarrow> (four_eyes_queue \<times> 'p) \<times> fe_pc \<times> fe_pc" where
  "run_approvers C post now i a b [] z = z"
| "run_approvers C post now i a b (first # sched) (s, pa, pb) = run_approvers C post now i a b sched
     (if first then let (s1, pa1) = approve_step C post now i a (s, pa) in (s1, pa1, pb)
      else let (s1, pb1) = approve_step C post now i b (s, pb) in (s1, pa, pb1))"

text \<open>A thread that runs without another one in between computes \<open>fe_approve\<close> or \<open>fe_reject\<close>.\<close>

lemma funpow_numeral: "(f ^^ numeral n) x = (f ^^ pred_numeral n) (f x)"
  by (simp add: numeral_eq_Suc funpow_swap1)

lemma approve_step_Returned [simp]: "(approve_step C post now i a ^^ n) (s, Returned x) = (s, Returned x)"
  by (cases s) (induction n, simp_all)

lemma reject_step_Returned [simp]: "(reject_step C now i a reason ^^ n) (q, Returned x) = (q, Returned x)"
  by (induction n) auto

lemma decide_steps:
  assumes step: "\<And>q pc. pc \<in> {AtPersist r, AtRemove r, AtForget r, AtAudit r} \<Longrightarrow>
      step (g q, pc) = apfst g (decide_step C f i t kind q pc)"
    and ret: "\<And>q x n. (step ^^ n) (g q, Returned x) = (g q, Returned x)"
  shows "(step ^^ 4) (g q, AtPersist r) = (case fe_decide C f i r q of
     (q1, Inl err) \<Rightarrow> (g q1, Returned (Inl err)) | (q1, Inr _) \<Rightarrow> (g (fe_audit C t kind q1), Returned (Inr r)))"
proof -
  obtain q1 o1 where 1: "on_dir q (persist_record C f r (fq_dir q)) = (q1, o1)" by (metis surj_pair)
  obtain q2 o2 where 2: "on_dir q1 (remove_pending C i (fq_dir q1)) = (q2, o2)" by (metis surj_pair)
  show ?thesis
    by (cases o1; cases o2) (simp_all add: funpow_numeral step ret fe_decide_def 1 2)
qed

lemma approve_decide_steps:
  "(approve_step C post now i a ^^ 4) ((q, p), AtPersist r) = (case fe_decide C ApprovedFile i r q of
      (q1, Inl err) \<Rightarrow> ((q1, p), Returned (Inl err))
    | (q1, Inr _) \<Rightarrow> ((fe_audit C (now 1) (FourEyesApproved i a) q1, p), Returned (Inr r)))"
  by (rule decide_steps [where g = "\<lambda>q. (q, p)"]) (auto simp: apfst_def map_prod_def split: prod.split)

lemma approve_steps:
  "(approve_step C post now i a ^^ 7) (s, AtDecided) = (case fe_approve C post now i a s of (s', res) \<Rightarrow> (s', Returned res))"
proof -
  obtain q p where s: "s = (q, p)" by (cases s)
  have 7: "(f ^^ 7) x = (f ^^ 4) (f (f (f x)))" for f :: "'z \<Rightarrow> 'z" and x
    by (simp add: numeral_eq_Suc)
  show ?thesis
  proof (cases "find_in_decided C ApprovedFile i (fq_dir q)")
    case None
    show ?thesis
      unfolding 7 s using None
      by (auto simp: fe_approve_def approve_decide_steps Let_def split: option.split prod.split sum.split)
  qed (simp add: s 7 fe_approve_def)
qed

lemma reject_steps:
  "(reject_step C now i a reason ^^ 5) (q, AtLookup) = (case fe_reject C now i a reason q of (q', res) \<Rightarrow> (q', Returned res))"
proof -
  have dec: "(reject_step C now i a reason ^^ 4) (q, AtPersist r) = (case fe_decide C RejectedFile i r q of
      (q1, Inl err) \<Rightarrow> (q1, Returned (Inl err))
    | (q1, Inr _) \<Rightarrow> (fe_audit C (now 1) (FourEyesRejected i a reason) q1, Returned (Inr r)))" for r
    by (rule decide_steps [where g = "\<lambda>q. q"]) (auto simp: apfst_def map_prod_def split: prod.split)
  have 5: "(f ^^ 5) x = (f ^^ 4) (f x)" for f :: "'z \<Rightarrow> 'z" and x
    by (simp add: numeral_eq_Suc)
  show ?thesis
  proof (cases "map_of (fq_pending q) i")
    case (Some r)
    let ?r = "r\<lparr>ar_status := ApprovalRejected, ar_approver_id := Some a,
      ar_reject_reason := Some reason, ar_decided_at := Some (now 0)\<rparr>"
    obtain q1 o1 where d: "fe_decide C RejectedFile i ?r q = (q1, o1)" by (metis surj_pair)
    show ?thesis
      unfolding 5 using Some by (cases o1) (simp_all add: fe_reject_def dec d Let_def)
  qed (simp add: 5 fe_reject_def)
qed

end
