(* ===== verification/Audit_Props.thy ===== *)
theory Audit_Props
  imports Audit_Log "HOL-Library.Multiset"
begin

text \<open>
  Properties of the audit log: every interleaving of appends gives a chain that verifies, a
  verified log is tamper evident, reopening continues the chain, and what happens to the
  chain and the numbering after an I/O error or an out-of-order append.
\<close>

subsection \<open>Verified files\<close>

fun events_of :: "audit_codec \<Rightarrow> string list \<Rightarrow> audit_event list option" where
  "events_of C [] = Some []"
| "events_of C (l # ls) = (if blank l then events_of C ls
     else case (event_parse C l, events_of C ls) of (Inr e, Some es) \<Rightarrow> Some (e # es) | _ \<Rightarrow> None)"

abbreviation audit_chain :: "audit_codec \<Rightarrow> (bytes \<Rightarrow> hash) \<Rightarrow> string \<Rightarrow> audit_event list \<Rightarrow> bool" where
  "audit_chain C b3 \<equiv> chain_ok (audit_verify C b3) ae_prev_hash ae_chain_hash"

lemma verify_lines_iff:
  "verify_lines C b3 p n ls = Inr m \<longleftrightarrow>
     (\<exists>es. events_of C ls = Some es \<and> audit_chain C b3 p es \<and> m = n + of_nat (length es))"
proof (induction ls arbitrary: p n)
  case (Cons l ls)
  show ?case
  proof (cases "blank l")
    case False
    show ?thesis
    proof (cases "event_parse C l")
      case (Inr e)
      with False Cons show ?thesis by (cases "events_of C ls") (auto simp: algebra_simps)
    qed (use False in simp)
  qed (use Cons in simp)
qed auto

lemma events_of_text:
  assumes "json_ok (event_json C) (event_parse C)"
  shows "events_of C (lines (text_of (event_json C) es)) = Some es"
proof -
  have "events_of C (map (event_json C) es) = Some es"
    by (induction es) (simp_all add: json_okD [OF assms])
  with lines_text_of [OF assms, of es "[]"] show ?thesis by simp
qed

lemma finalise_verify:
  "audit_verify C b3 (finalise C b3 p e)" "ae_prev_hash (finalise C b3 p e) = p"
  "ae_sequence (finalise C b3 p e) = ae_sequence e"
  by (simp_all add: audit_verify_def finalise_def Let_def audit_canonical_bytes_def)

subsection \<open>Runs\<close>

text \<open>
  \<open>audit_run C b3 g es taken\<close>: the log \<open>g\<close> was opened on a missing file and then threads took sequence
  numbers and appended events, in any order, without I/O errors; \<open>es\<close> are the events in the
  order in which they were written, \<open>taken\<close> the numbers taken and not yet written.
\<close>

inductive audit_run :: "audit_codec \<Rightarrow> (bytes \<Rightarrow> hash) \<Rightarrow> audit_log \<Rightarrow> audit_event list \<Rightarrow> u64 list \<Rightarrow> bool"
  for C :: audit_codec and b3 :: "bytes \<Rightarrow> hash" where
  run_open: "jf_data f = None \<Longrightarrow> audit_open C f = (f', Inr g) \<Longrightarrow> audit_run C b3 g [] []"
| run_take: "audit_run C b3 g es taken \<Longrightarrow> take_sequence g = (g', sq) \<Longrightarrow> audit_run C b3 g' es (taken @ [sq])"
| run_append: "audit_run C b3 g es taken \<Longrightarrow> sq \<in> set taken \<Longrightarrow> append_locked C b3 sq now kind g = (g', Inr e) \<Longrightarrow>
    audit_run C b3 g' (es @ [e]) (remove1 sq taken)"

lemma append_locked_ok:
  assumes "append_locked C b3 sq now kind g = (g', Inr e)"
  shows "jf_data (al_file g') = Some (jf_text (al_file g) @ event_json C e @ [newline])"
    "al_last_chain g' = ae_chain_hash e" "al_next_seq g' = al_next_seq g" "ae_sequence e = sq" "ae_ts e = now" "ae_event e = kind"
    "audit_verify C b3 e" "ae_prev_hash e = al_last_chain g"
proof -
  let ?e = "finalise C b3 (al_last_chain g)
    \<lparr> ae_sequence = sq, ae_ts = now, ae_event = kind, ae_content_hash = [], ae_chain_hash = [], ae_prev_hash = [] \<rparr>"
  from assms obtain f f1 where e: "e = ?e" and g': "g' = g\<lparr>al_file := f, al_last_chain := ae_chain_hash ?e\<rparr>"
    and w: "jf_writeln (event_json C ?e) (al_file g) = (f1, Inr ())" "jf_sync f1 = (f, Inr ())"
    by (auto simp: append_locked_def Let_def and_then_Inr_iff and_then_Inl_iff split: prod.splits sum.splits)
  show "jf_data (al_file g') = Some (jf_text (al_file g) @ event_json C e @ [newline])"
    using jf_writeln_ok [OF w(1)] jf_sync_ok [OF w(2)] by (simp add: g' e)
  show "al_last_chain g' = ae_chain_hash e" "al_next_seq g' = al_next_seq g" by (simp_all add: g' e)
  show "ae_sequence e = sq" "ae_ts e = now" "ae_event e = kind" by (simp_all add: e finalise_def Let_def)
  show "audit_verify C b3 e" "ae_prev_hash e = al_last_chain g" unfolding e by (rule finalise_verify)+
qed

definition audit_inv :: "audit_codec \<Rightarrow> (bytes \<Rightarrow> hash) \<Rightarrow> audit_log \<Rightarrow> audit_event list \<Rightarrow> bool" where
  "audit_inv C b3 g es \<longleftrightarrow> jf_data (al_file g) = Some (text_of (event_json C) es) \<and> audit_chain C b3 AUDIT_ZERO_HASH es \<and>
     al_last_chain g = chain_end ae_chain_hash AUDIT_ZERO_HASH es"

lemma audit_run_inv:
  assumes "audit_run C b3 g es taken"
  shows "audit_inv C b3 g es"
  using assms
proof (induction rule: audit_run.induct)
  case (run_open f f' g)
  then show ?case
    by (auto simp: audit_open_def audit_inv_def jf_text_def Let_def split: prod.splits sum.splits dest!: jf_open_ok)
next
  case (run_take g es taken g' sq)
  then show ?case by (auto simp: take_sequence_def audit_inv_def)
next
  case (run_append g es taken sq now kind g' e)
  note a = append_locked_ok [OF run_append(3)]
  from run_append(4) show ?case by (simp add: audit_inv_def a jf_text_def)
qed

lemma audit_inv_verifies:
  assumes "json_ok (event_json C) (event_parse C)" "audit_inv C b3 g es"
  shows "audit_verify_chain C b3 g = Inr (of_nat (length es))"
  using assms(2) verify_lines_iff [of C b3 AUDIT_ZERO_HASH 0] events_of_text [OF assms(1), of es]
  by (simp add: audit_verify_chain_def audit_inv_def)

lemma scan_tail_text:
  assumes "json_ok (event_json C) (event_parse C)"
  shows "scan_tail C sq p (map (event_json C) es) =
     ((if es = [] then sq else ae_sequence (last es)) + 1, chain_end ae_chain_hash p es)"
  by (induction es arbitrary: sq p) (simp_all add: json_okD [OF assms])

lemma audit_reopen_state:
  assumes "json_ok (event_json C) (event_parse C)" "audit_inv C b3 g es"
    and "jf_data f = jf_data (al_file g)" "jf_faults f = []"
  shows "\<exists>g'. audit_open C f = (al_file g', Inr g') \<and> audit_inv C b3 g' es \<and> jf_faults (al_file g') = [] \<and>
     al_next_seq g' = (if es = [] then 1 else ae_sequence (last es) + 1)"
proof -
  have d: "jf_data f = Some (text_of (event_json C) es)" using assms(2,3) by (simp add: audit_inv_def)
  have "lines (text_of (event_json C) es) = map (event_json C) es" using lines_text_of [OF assms(1), of es "[]"] by simp
  with d assms(2,4) scan_tail_text [OF assms(1), of 0 AUDIT_ZERO_HASH es] show ?thesis
    by (auto simp: audit_open_def jf_clean audit_inv_def jf_text_def)
qed

subsection \<open>Tamper evidence\<close>

definition audit_event_ok :: "audit_codec \<Rightarrow> (bytes \<Rightarrow> hash) \<Rightarrow> audit_event \<Rightarrow> bool" where
  "audit_event_ok C b3 e \<longleftrightarrow> audit_codec_ok C \<and> in_i64 (ae_ts e) \<and> audit_verify C b3 e"

definition audit_msgs :: "audit_codec \<Rightarrow> audit_event \<Rightarrow> bytes set" where
  "audit_msgs C e = {audit_canonical_bytes C e, audit_link (ae_sequence e) (ae_prev_hash e) (ae_content_hash e)}"

interpretation audit: hash_chain "hash_hex b3" "audit_event_ok C b3" ae_prev_hash ae_chain_hash "audit_msgs C" "(=)" for b3 C
proof unfold_locales
  fix e f
  assume e: "audit_event_ok C b3 e" and f: "audit_event_ok C b3 f" and tip: "ae_chain_hash e = ae_chain_hash f"
    and inj: "inj_on (hash_hex b3) (audit_msgs C e \<union> audit_msgs C f)"
  have v: "ae_content_hash x = hash_hex b3 (audit_canonical_bytes C x)"
    "ae_chain_hash x = hash_hex b3 (audit_link (ae_sequence x) (ae_prev_hash x) (ae_content_hash x))"
    if "audit_event_ok C b3 x" for x
    using that by (auto simp: audit_event_ok_def audit_verify_def Let_def split: if_splits)
  have "audit_link (ae_sequence e) (ae_prev_hash e) (ae_content_hash e) = audit_link (ae_sequence f) (ae_prev_hash f) (ae_content_hash f)"
    using tip v(2) [OF e] v(2) [OF f] by (intro inj_onD [OF inj]) (simp_all add: audit_msgs_def)
  moreover have "length (ae_content_hash e) = length (ae_content_hash f)"
    unfolding v(1) [OF e] v(1) [OF f] by (simp add: hash_hex_def)
  ultimately have l: "ae_sequence e = ae_sequence f" "ae_prev_hash e = ae_prev_hash f" "ae_content_hash e = ae_content_hash f"
    by (auto simp: audit_link_def u64_bytes_inject simp flip: map_append str_bytes_def dest!: append_eq_append_conv [THEN iffD1, rotated])
  have "audit_canonical_bytes C e = audit_canonical_bytes C f"
    using l(3) v(1) [OF e] v(1) [OF f] by (intro inj_onD [OF inj]) (simp_all add: audit_msgs_def)
  then have "i64_bytes (nanos_or_zero (ae_ts e)) = i64_bytes (nanos_or_zero (ae_ts f))"
    "kind_json C (ae_event e) = kind_json C (ae_event f)"
    by (simp_all add: audit_canonical_bytes_def l)
  moreover have "in_i64 (ae_ts e)" "in_i64 (ae_ts f)" "inj (kind_json C)"
    using e f by (simp_all add: audit_event_ok_def audit_codec_ok_def)
  ultimately have "ae_ts e = ae_ts f" "ae_event e = ae_event f"
    by (auto simp: nanos_or_zero_def i64_bytes_inject dest: injD)
  with l tip show "e = f \<and> ae_prev_hash e = ae_prev_hash f" by simp
next
  fix e assume e: "audit_event_ok C b3 e"
  then have "ae_chain_hash e = hash_hex b3 (audit_link (ae_sequence e) (ae_prev_hash e) (ae_content_hash e))"
    by (auto simp: audit_event_ok_def audit_verify_def Let_def split: if_splits)
  then show "ae_chain_hash e \<in> hash_hex b3 ` audit_msgs C e" by (simp add: audit_msgs_def)
qed

subsection \<open>Properties\<close>

lemma audit_run_numbers:
  assumes "audit_run C b3 g es taken"
  shows "mset (map ae_sequence es @ taken) = mset (map of_nat [1..<Suc (length es + length taken)]) \<and>
     al_next_seq g = of_nat (Suc (length es + length taken))"
  using assms
proof (induction rule: audit_run.induct)
  case (run_open f f' g)
  then show ?case by (auto simp: audit_open_def Let_def split: prod.splits sum.splits)
next
  case (run_take g es taken g' sq)
  then show ?case by (auto simp: take_sequence_def)
next
  case (run_append g es taken sq now kind g' e)
  note a = append_locked_ok [OF run_append(3)]
  from run_append(2) have "length (es @ [e]) + length (remove1 sq taken) = length es + length taken"
    using length_pos_if_in_set [OF run_append(2)] by (simp add: length_remove1)
  moreover have "mset (map ae_sequence (es @ [e]) @ remove1 sq taken) = mset (map ae_sequence es @ taken)"
    using run_append(2) a(4) by simp
  ultimately show ?case using run_append(4) a(3) by (simp only:)
qed

text \<open>
  C15: the audit chain verifies under every interleaving.  On a log that was created on a missing file, was not reopened and has seen no
  append that failed, whatever order threads take sequence
  numbers and append in, \<^verbatim>\<open>verify_chain\<close> accepts the file and counts its events, the tip is the
  hash of the last event, and the numbers written or taken are \<open>1, 2, \<dots>, k\<close> in some order.
\<close>

theorem audit_chain_verifies:
  assumes "audit_codec_ok C" and "audit_run C b3 g es taken"
  shows "audit_verify_chain C b3 g = Inr (of_nat (length es)) \<and>
     chain_tip g = chain_end ae_chain_hash AUDIT_ZERO_HASH es \<and>
     mset (map ae_sequence es @ taken) = mset (map of_nat [1..<Suc (length es + length taken)])"
  using audit_inv_verifies [of C b3 g es] audit_run_inv [OF assms(2)] audit_run_numbers [OF assms(2)] assms(1)
  by (simp add: audit_codec_ok_def audit_inv_def chain_tip_def)

text \<open>
  C16: the audit log is tamper evident.  Two files that \<^verbatim>\<open>verify_chain\<close> accepts and whose last
  events have the same chain hash hold the same events, unless BLAKE3 collides on a message
  hashed in them or gives the zero hash, for instants with a nanosecond count.
\<close>

theorem audit_tamper_evident:
  assumes "audit_codec_ok C"
    and "verify_lines C b3 AUDIT_ZERO_HASH 0 (lines t) = Inr n" and "events_of C (lines t) = Some es"
    and "verify_lines C b3 AUDIT_ZERO_HASH 0 (lines u) = Inr m" and "events_of C (lines u) = Some fs"
    and "chain_end ae_chain_hash AUDIT_ZERO_HASH es = chain_end ae_chain_hash AUDIT_ZERO_HASH fs"
    and "\<forall>e \<in> set es \<union> set fs. in_i64 (ae_ts e)"
    and "inj_on (hash_hex b3) (\<Union>(audit_msgs C ` (set es \<union> set fs)))"
    and "AUDIT_ZERO_HASH \<notin> hash_hex b3 ` \<Union>(audit_msgs C ` (set es \<union> set fs))"
  shows "es = fs"
proof -
  have ok: "chain_ok (audit_event_ok C b3) ae_prev_hash ae_chain_hash p xs"
    if "audit_chain C b3 p xs" "\<forall>x \<in> set xs. in_i64 (ae_ts x)" for p xs
    using that assms(1) by (induction xs arbitrary: p) (auto simp: audit_event_ok_def)
  have "audit_chain C b3 AUDIT_ZERO_HASH es" "audit_chain C b3 AUDIT_ZERO_HASH fs"
    using assms(2-5) by (auto simp: verify_lines_iff)
  then have "chain_ok (audit_event_ok C b3) ae_prev_hash ae_chain_hash AUDIT_ZERO_HASH es"
    "chain_ok (audit_event_ok C b3) ae_prev_hash ae_chain_hash AUDIT_ZERO_HASH fs"
    using assms(7) by (auto intro: ok)
  from audit.chains_agree [OF this assms(6,8,9)] show ?thesis by (simp add: list.rel_eq)
qed

text \<open>
  C17: an I/O error breaks the chain for good.  When the write of an event succeeds but its
  \<^verbatim>\<open>fsync\<close> fails, \<^verbatim>\<open>append\<close> returns the error and keeps the old tip although the event is in the
  file; the next append links to the old tip and from then on \<^verbatim>\<open>verify_chain\<close> reports a broken
  chain.
\<close>

theorem audit_sync_error_breaks:
  assumes "audit_codec_ok C" and "audit_run C b3 g es []" and "jf_faults (al_file g) = [IoOk, IoOk, IoErr 0]"
    and "audit_append C b3 t1 k1 g = (g1, r1)" and "audit_append C b3 t2 k2 g1 = (g2, r2)"
    and "hash_hex b3 (audit_link (al_next_seq g) (al_last_chain g)
       (hash_hex b3 (audit_canonical_bytes C \<lparr> ae_sequence = al_next_seq g, ae_ts = t1, ae_event = k1,
          ae_content_hash = [], ae_chain_hash = [], ae_prev_hash = [] \<rparr>))) \<noteq> al_last_chain g"
  shows "r1 = Inl AuditIo \<and> (\<exists>e2. r2 = Inr e2) \<and> (\<exists>reason. audit_verify_chain C b3 g2 = Inl (AuditChainBroken (al_next_seq g1) reason))"
proof -
  let ?e0 = "\<lparr> ae_sequence = al_next_seq g, ae_ts = t1, ae_event = k1, ae_content_hash = [], ae_chain_hash = [], ae_prev_hash = [] \<rparr>"
  let ?e1 = "finalise C b3 (al_last_chain g) ?e0"
  let ?e2 = "finalise C b3 (al_last_chain g)
    \<lparr> ae_sequence = al_next_seq g + 1, ae_ts = t2, ae_event = k2, ae_content_hash = [], ae_chain_hash = [], ae_prev_hash = [] \<rparr>"
  note j = assms(1) [unfolded audit_codec_ok_def, THEN conjunct1]
  from audit_run_inv [OF assms(2)] have inv: "jf_data (al_file g) = Some (text_of (event_json C) es)"
    "audit_chain C b3 AUDIT_ZERO_HASH es" "al_last_chain g = chain_end ae_chain_hash AUDIT_ZERO_HASH es" by (simp_all add: audit_inv_def)
  have w: "jf_write x f = (f\<lparr>jf_faults := fs, jf_data := Some (jf_text f @ x)\<rparr>, Inr ())" if "jf_faults f = IoOk # fs" for x f fs
    using that by (simp add: jf_write_def jf_io_def jf_text_def)
  have 1: "r1 = Inl AuditIo" "g1 = g\<lparr>al_next_seq := al_next_seq g + 1,
      al_file := \<lparr> jf_data = Some (text_of (event_json C) (es @ [?e1])), jf_faults = [] \<rparr>\<rparr>"
    using assms(3,4) inv(1)
    by (auto simp: audit_append_def take_sequence_def append_locked_def Let_def jf_writeln_def w jf_sync_def jf_io_def jf_text_def)
  have 2: "r2 = Inr ?e2" "jf_data (al_file g2) = Some (text_of (event_json C) (es @ [?e1, ?e2]))"
    using assms(5) by (auto simp: 1(2) audit_append_def take_sequence_def append_locked_def Let_def jf_clean jf_text_def)
  have "verify_lines C b3 p n (map (event_json C) xs @ ls) =
      verify_lines C b3 (chain_end ae_chain_hash p xs) (n + of_nat (length xs)) ls" if "audit_chain C b3 p xs" for p n xs ls
    using that by (induction xs arbitrary: p n) (simp_all add: json_okD [OF j] algebra_simps)
  from this [OF inv(2), of 0] have "audit_verify_chain C b3 g2 =
      verify_lines C b3 (al_last_chain g) (of_nat (length es)) [event_json C ?e1, event_json C ?e2]"
    using 2(2) lines_text_of [OF j, of "es @ [?e1, ?e2]" "[]"] inv(3) by (simp add: audit_verify_chain_def)
  also have "\<dots> = Inl (AuditChainBroken (al_next_seq g1) (''prev_hash mismatch: expected '' @ ae_chain_hash ?e1 @ '', got '' @ ae_prev_hash ?e2))"
    using assms(6) by (simp add: json_okD [OF j] finalise_verify 1(2)) (simp add: finalise_def Let_def audit_canonical_bytes_def)
  finally show ?thesis using 1 2 by blast
qed

lemma append_locked_clean:
  assumes "jf_faults (al_file g) = []"
  shows "\<exists>g' e. append_locked C b3 sq now kind g = (g', Inr e) \<and> jf_faults (al_file g') = []"
  using assms by (simp add: append_locked_def Let_def jf_clean)

lemma audit_open_clean:
  assumes "jf_faults f = []"
  shows "\<exists>g. audit_open C f = (al_file g, Inr g) \<and> jf_faults (al_file g) = []"
  using assms by (auto simp: audit_open_def jf_clean Let_def split: prod.split)

text \<open>
  Sequence numbers can repeat.  Two threads may take the numbers 1 and 2 and write them in
  the opposite order; a log reopened then takes the number after the last line, which is 2
  again, although the log is verified and no number was lost.
\<close>

theorem audit_sequence_reused:
  assumes "audit_codec_ok C"
  shows "\<exists>g e1 e2 f g'. audit_run C b3 g [e1, e2] [] \<and> ae_sequence e1 = 2 \<and> ae_sequence e2 = 1 \<and>
     audit_verify_chain C b3 g = Inr 2 \<and> audit_open C (al_file g) = (f, Inr g') \<and> next_sequence g' = 2"
proof -
  note j = assms [unfolded audit_codec_ok_def, THEN conjunct1]
  let ?f = "\<lparr> jf_data = None, jf_faults = [] \<rparr>"
  obtain g0 where 0: "audit_open C ?f = (al_file g0, Inr g0)" "jf_faults (al_file g0) = []"
    using audit_open_clean [of ?f C] by auto
  have n0: "al_next_seq g0 = 1" using 0(1) by (auto simp: audit_open_def jf_clean)
  have r0: "audit_run C b3 g0 [] []" by (rule run_open [OF _ 0(1)]) simp
  let ?g1 = "g0\<lparr>al_next_seq := 2\<rparr>" and ?g2 = "g0\<lparr>al_next_seq := 3\<rparr>"
  have r1: "audit_run C b3 ?g1 [] [1]" using run_take [OF r0, of ?g1 1] n0 by (simp add: take_sequence_def)
  have r2: "audit_run C b3 ?g2 [] [1, 2]" using run_take [OF r1, of ?g2 2] by (simp add: take_sequence_def)
  from append_locked_clean [of ?g2 C b3 2 0 "ServerStarted [] []"] 0(2) obtain g3 e1 where
    3: "append_locked C b3 2 0 (ServerStarted [] []) ?g2 = (g3, Inr e1)" "jf_faults (al_file g3) = []" by auto
  have r3: "audit_run C b3 g3 [e1] [1]" using run_append [OF r2 _ 3(1)] by simp
  from append_locked_clean [OF 3(2), of C b3 1 0 "ServerStarted [] []"] obtain g4 e2 where
    4: "append_locked C b3 1 0 (ServerStarted [] []) g3 = (g4, Inr e2)" "jf_faults (al_file g4) = []" by auto
  have r4: "audit_run C b3 g4 [e1, e2] []" using run_append [OF r3 _ 4(1)] by simp
  note sq = append_locked_ok(4) [OF 3(1)] append_locked_ok(4) [OF 4(1)]
  from audit_inv_verifies [OF j audit_run_inv [OF r4]] have "audit_verify_chain C b3 g4 = Inr 2" by simp
  moreover from audit_reopen_state [OF j audit_run_inv [OF r4] refl 4(2)] sq(2) obtain g' where
    "audit_open C (al_file g4) = (al_file g', Inr g')" "al_next_seq g' = 2" by auto
  ultimately show ?thesis using r4 sq
    by (intro exI [of _ g4] exI [of _ e1] exI [of _ e2] exI [of _ "al_file g'"] exI [of _ g']) (simp add: next_sequence_def)
qed

text \<open>Exporting returns the events of the range, in order.\<close>

lemma export_json_text:
  assumes "audit_codec_ok C" and "audit_run C b3 g es taken"
  shows "export_json C (jf_data (al_file g)) r =
     (text_of (event_json C) (filter (\<lambda>e. range_contains r (ae_ts e)) es), Inr (of_nat (length (filter (\<lambda>e. range_contains r (ae_ts e)) es))))"
proof -
  note j = assms(1) [unfolded audit_codec_ok_def, THEN conjunct1]
  have d: "jf_data (al_file g) = Some (text_of (event_json C) es)" using audit_run_inv [OF assms(2)] by (simp add: audit_inv_def)
  have "scan_events C r (\<lambda>ev. Inr (event_json C ev @ [newline])) out n (map (event_json C) es) =
      (out @ text_of (event_json C) (filter (\<lambda>e. range_contains r (ae_ts e)) es),
       Inr (n + of_nat (length (filter (\<lambda>e. range_contains r (ae_ts e)) es))))" for out n
    by (induction es arbitrary: out n) (simp_all add: json_okD [OF j] algebra_simps)
  with d lines_text_of [OF j, of es "[]"] show ?thesis by (simp add: export_json_def scan_file_def)
qed

end
