(* ===== verification/Audit_Sample.thy ===== *)
theory Audit_Sample
  imports Audit_Props Serial
begin

text \<open>A concrete codec for audit events, a small log, and the witnesses of the audit log.\<close>

text \<open>An event kind is a tag, its strings, its numbers and its flag.\<close>

fun kind_parts :: "audit_event_kind \<Rightarrow> nat \<times> string list \<times> nat list \<times> bool" where
  "kind_parts (QueryExecuted a b m n) = (0, [a, b], [m, unat n], False)"
| "kind_parts (EntryPosted i q a m b) = (1, [a, b], [unat i, unat q, unat m], False)"
| "kind_parts (AccountCreated i a b c) = (2, [a, b, c], [unat i], False)"
| "kind_parts (AuditAccountClosed i a) = (3, [a], [unat i], False)"
| "kind_parts (KeyRotated a b) = (4, [a, b], [], False)"
| "kind_parts (ReplicationEvent n a b) = (5, [a, b], [unat n], False)"
| "kind_parts (AuthEvent a f b) = (6, [a, b], [], f)"
| "kind_parts (FourEyesSubmitted i k a b) = (7, [a, b], [unat i, unat k], False)"
| "kind_parts (FourEyesApproved i a) = (8, [a], [unat i], False)"
| "kind_parts (FourEyesRejected i a b) = (9, [a, b], [unat i], False)"
| "kind_parts (BackupCreated a n b) = (10, [a, b], [unat n], False)"
| "kind_parts (KeyRotationStarted ks a) = (11, a # ks, [], False)"
| "kind_parts (ServerStarted a b) = (12, [a, b], [], False)"

definition kind_of_parts :: "nat \<times> string list \<times> nat list \<times> bool \<Rightarrow> audit_event_kind" where
  "kind_of_parts p = (case p of (t, ss, ns, f) \<Rightarrow>
     if t = 0 then QueryExecuted (ss ! 0) (ss ! 1) (ns ! 0) (of_nat (ns ! 1))
     else if t = 1 then EntryPosted (of_nat (ns ! 0)) (of_nat (ns ! 1)) (ss ! 0) (of_nat (ns ! 2)) (ss ! 1)
     else if t = 2 then AccountCreated (of_nat (ns ! 0)) (ss ! 0) (ss ! 1) (ss ! 2)
     else if t = 3 then AuditAccountClosed (of_nat (ns ! 0)) (ss ! 0)
     else if t = 4 then KeyRotated (ss ! 0) (ss ! 1)
     else if t = 5 then ReplicationEvent (of_nat (ns ! 0)) (ss ! 0) (ss ! 1)
     else if t = 6 then AuthEvent (ss ! 0) f (ss ! 1)
     else if t = 7 then FourEyesSubmitted (of_nat (ns ! 0)) (of_nat (ns ! 1)) (ss ! 0) (ss ! 1)
     else if t = 8 then FourEyesApproved (of_nat (ns ! 0)) (ss ! 0)
     else if t = 9 then FourEyesRejected (of_nat (ns ! 0)) (ss ! 0) (ss ! 1)
     else if t = 10 then BackupCreated (ss ! 0) (of_nat (ns ! 0)) (ss ! 1)
     else if t = 11 then KeyRotationStarted (tl ss) (hd ss)
     else ServerStarted (ss ! 0) (ss ! 1))"

lemma kind_of_parts [simp]: "kind_of_parts (kind_parts k) = k"
  by (cases k) (simp_all add: kind_of_parts_def)

definition ser_kind :: "audit_event_kind ser" where
  "ser_kind = ser_map kind_of_parts kind_parts (ser_pair ser_nat (ser_pair (ser_list ser_string) (ser_pair (ser_list ser_nat) ser_bool)))"

definition ser_event :: "audit_event ser" where
  "ser_event = ser_map
     (\<lambda>(a, b, c, d, e, f). \<lparr> ae_sequence = a, ae_ts = b, ae_event = c, ae_content_hash = d, ae_chain_hash = e, ae_prev_hash = f \<rparr>)
     (\<lambda>e. (ae_sequence e, ae_ts e, ae_event e, ae_content_hash e, ae_chain_hash e, ae_prev_hash e))
     (ser_pair (ser_word 8) (ser_pair ser_int (ser_pair ser_kind (ser_pair ser_string (ser_pair ser_string ser_string)))))"

lemma ser_kind_ok [ser_intros]: "ser_ok ser_kind"
  unfolding ser_kind_def by (intro ser_intros) simp

lemma ser_event_ok: "ser_ok ser_event"
  unfolding ser_event_def by (intro ser_intros) simp_all

text \<open>The text of a record: its bytes in hexadecimal after a brace.\<close>

definition hex_json :: "'a ser \<Rightarrow> 'a \<Rightarrow> string" where
  "hex_json c x = CHR 0x7B # hex_encode (put c x)"

definition hex_parse :: "'a ser \<Rightarrow> string \<Rightarrow> string + 'a" where
  "hex_parse c t = (case hex_decode (tl t) of None \<Rightarrow> Inl ''malformed'' | Some bs \<Rightarrow> Inr (fst (get c bs)))"

lemma hex_json_ok:
  assumes "ser_ok c"
  shows "json_ok (hex_json c) (hex_parse c)"
proof -
  have d: "newline \<noteq> hex_digit n" "return \<noteq> hex_digit n" if "n < 16" for n
    using that by (auto dest!: arg_cong [of _ _ "of_char :: char \<Rightarrow> nat"] split: if_splits)
  have u: "unat b div 16 < 16" for b :: byte
  proof -
    have "unat b < 2 ^ LENGTH(8)" by (rule unsigned_less)
    then show ?thesis by simp
  qed
  have h: "newline \<notin> set (hex_encode bs)" "return \<notin> set (hex_encode bs)" for bs
    by (induction bs) (simp_all add: hex_encode_def d u del: hex_digit.simps)
  have "last (hex_json c x) \<noteq> return" for x
  proof (cases "hex_encode (put c x) = []")
    case False
    from last_in_set [OF this] h(2) [of "put c x"] have "last (hex_encode (put c x)) \<noteq> return" by metis
    with False show ?thesis by (simp add: hex_json_def)
  qed (simp add: hex_json_def)
  then show ?thesis
    using h(1) by (auto simp: json_ok_def hex_json_def hex_parse_def get_put [OF assms] blank_def strip_cr_def)
qed

definition sample_audit_codec :: audit_codec where
  "sample_audit_codec = \<lparr> kind_json = hex_json ser_kind, event_json = hex_json ser_event, event_parse = hex_parse ser_event,
     rfc3339 = (\<lambda>t. []) \<rparr>"

lemma sample_audit_codec_ok: "audit_codec_ok sample_audit_codec"
proof -
  have "inj (put ser_kind)" by (rule injI) (metis get_put ser_kind_ok prod.inject)
  then show ?thesis
    using hex_json_ok [OF ser_event_ok] by (auto simp: audit_codec_ok_def sample_audit_codec_def inj_def hex_json_def)
qed

subsection \<open>Witnesses\<close>

lemma sample_audit_run:
  "\<exists>g e. audit_run sample_audit_codec (blake3 sample_ext) g [e] [] \<and> jf_faults (al_file g) = fs \<and>
     ae_sequence e = 1 \<and> ae_ts e = 0 \<and> ae_event e = AuthEvent ''eve'' False ''x''"
proof -
  let ?C = sample_audit_codec and ?b = "blake3 sample_ext"
  let ?f = "\<lparr> jf_data = None, jf_faults = IoOk # IoOk # IoOk # IoOk # fs \<rparr>"
  define g0 where "g0 = \<lparr> al_file = \<lparr> jf_data = Some [], jf_faults = IoOk # IoOk # IoOk # fs \<rparr>, al_next_seq = 1, al_last_chain = AUDIT_ZERO_HASH \<rparr>"
  have 0: "audit_open ?C ?f = (al_file g0, Inr g0)" "jf_faults (al_file g0) = IoOk # IoOk # IoOk # fs"
    by (simp_all add: audit_open_def jf_open_append_def jf_io_def jf_text_def g0_def)
  have r0: "audit_run ?C ?b g0 [] []" by (rule run_open [OF _ 0(1)]) simp
  have n0: "al_next_seq g0 = 1" using 0(1) by (auto simp: audit_open_def jf_open_append_def jf_io_def)
  have r1: "audit_run ?C ?b (g0\<lparr>al_next_seq := 2\<rparr>) [] [1]"
    using run_take [OF r0, of "g0\<lparr>al_next_seq := 2\<rparr>" 1] n0 by (simp add: take_sequence_def)
  obtain g1 e where 1: "append_locked ?C ?b 1 0 (AuthEvent ''eve'' False ''x'') (g0\<lparr>al_next_seq := 2\<rparr>) = (g1, Inr e)"
    "jf_faults (al_file g1) = fs"
    using 0(2) by (auto simp: append_locked_def Let_def jf_writeln_def jf_write_def jf_sync_def jf_io_def)
  from run_append [OF r1 _ 1(1)] append_locked_ok [OF 1(1)] 1(2) show ?thesis by auto
qed

theorem audit_chain_verifies_witness:
  "\<exists>(g :: audit_log) (e :: audit_event). audit_verify_chain sample_audit_codec (blake3 sample_ext) g = Inr 1 \<and>
     chain_tip g = ae_chain_hash e"
proof -
  from sample_audit_run [of "[]"] obtain g e where "audit_run sample_audit_codec (blake3 sample_ext) g [e] []" by blast
  from audit_chain_verifies [OF sample_audit_codec_ok this] show ?thesis by auto
qed

theorem audit_sequence_reused_witness:
  "\<exists>g f g'. audit_verify_chain sample_audit_codec (blake3 sample_ext) g = Inr 2 \<and>
     audit_open sample_audit_codec (al_file g) = (f, Inr g') \<and> next_sequence g' = 2"
  using audit_sequence_reused [OF sample_audit_codec_ok, of "blake3 sample_ext"] by blast

lemma audit_zero_hash: "AUDIT_ZERO_HASH = hex_encode (hash_raw 0)"
proof -
  have "le_bytes n 0 = replicate n 0" for n by (induction n) simp_all
  moreover have "hex_encode (replicate n 0) = replicate (2 * n) (CHR ''0'')" for n
  proof -
    have "hex_digit 0 = CHR ''0''" by code_simp
    then show ?thesis by (induction n) (simp_all add: hex_encode_def del: hex_digit.simps)
  qed
  ultimately show ?thesis by (simp add: hash_raw_def AUDIT_ZERO_HASH_def)
qed

lemma sample_hash_hex:
  "m \<noteq> [] \<Longrightarrow> hd m \<noteq> 255 \<Longrightarrow> hash_hex (blake3 sample_ext) m \<noteq> AUDIT_ZERO_HASH"
  using sample_hash_nonzero [of m] by (simp add: audit_zero_hash hash_hex_def)

lemma audit_link_one: "audit_link 1 p m = 1 # le_bytes 7 0 @ str_bytes p @ str_bytes m"
  using le_bytes.simps(2) [of 7 1] by (simp add: audit_link_def)

theorem audit_sync_error_breaks_witness:
  "\<exists>g g1 g2 e2 q reason. audit_append sample_audit_codec (blake3 sample_ext) 0 (AuthEvent ''eve'' True ''x'') g = (g1, Inl AuditIo) \<and>
     audit_append sample_audit_codec (blake3 sample_ext) 1 (AuthEvent ''eve'' True ''x'') g1 = (g2, Inr e2) \<and>
     audit_verify_chain sample_audit_codec (blake3 sample_ext) g2 = Inl (AuditChainBroken q reason)"
proof -
  let ?C = sample_audit_codec and ?b = "blake3 sample_ext" and ?k = "AuthEvent ''eve'' True ''x''"
  let ?f = "\<lparr> jf_data = None, jf_faults = [IoOk, IoOk, IoOk, IoErr 0] \<rparr>"
  define g where "g = \<lparr> al_file = \<lparr> jf_data = Some [], jf_faults = [IoOk, IoOk, IoErr 0] \<rparr>, al_next_seq = 1, al_last_chain = AUDIT_ZERO_HASH \<rparr>"
  have "audit_open ?C ?f = (al_file g, Inr g)"
    by (simp add: audit_open_def jf_open_append_def jf_io_def jf_text_def g_def)
  from run_open [OF _ this] have r: "audit_run ?C ?b g [] []" by simp
  have f: "jf_faults (al_file g) = [IoOk, IoOk, IoErr 0]" by (simp add: g_def)
  obtain g1 r1 where 1: "audit_append ?C ?b 0 ?k g = (g1, r1)" by (rule prod.exhaust)
  obtain g2 r2 where 2: "audit_append ?C ?b 1 ?k g1 = (g2, r2)" by (rule prod.exhaust)
  have "hash_hex ?b (audit_link (al_next_seq g) (al_last_chain g) m) \<noteq> al_last_chain g" for m
    using sample_hash_hex [of "audit_link 1 (al_last_chain g) m"] by (simp add: g_def audit_link_one)
  from audit_sync_error_breaks [OF sample_audit_codec_ok r f 1 2 this] 1 2 show ?thesis by blast
qed

theorem audit_tamper_evident_witness:
  "\<exists>t es fs. events_of sample_audit_codec (lines t) = Some es \<and> length es = 1 \<and>
     events_of sample_audit_codec (lines (t @ [newline])) = Some fs \<and> es = fs"
proof -
  let ?C = sample_audit_codec and ?b = "blake3 sample_ext"
  note j = sample_audit_codec_ok [unfolded audit_codec_ok_def, THEN conjunct1]
  from sample_audit_run [of "[]"] obtain g e where g: "audit_run ?C ?b g [e] []" and e: "ae_sequence e = 1" "ae_ts e = 0"
    and ev: "ae_event e = AuthEvent ''eve'' False ''x''" by blast
  from audit_run_inv [OF g] have ch: "audit_chain ?C ?b AUDIT_ZERO_HASH [e]" by (simp add: audit_inv_def)
  let ?t = "text_of (event_json ?C) [e]"
  have t: "events_of ?C (lines ?t) = Some [e]" by (rule events_of_text [OF j])
  have "lines [newline] = [[]]" using lines_line [of "[]" "[]"] by (simp add: strip_cr_def)
  then have "lines (?t @ [newline]) = [event_json ?C e, []]" using lines_text_of [OF j, of "[e]" "[newline]"] by simp
  then have u: "events_of ?C (lines (?t @ [newline])) = Some [e]" using json_okD [OF j, of e] by (simp add: blank_def)
  have v: "verify_lines ?C ?b AUDIT_ZERO_HASH 0 (lines ?t) = Inr 1" "verify_lines ?C ?b AUDIT_ZERO_HASH 0 (lines (?t @ [newline])) = Inr 1"
    using t u ch by (simp_all add: verify_lines_iff)
  let ?c = "audit_canonical_bytes ?C e" and ?l = "audit_link (ae_sequence e) (ae_prev_hash e) (ae_content_hash e)"
  have p: "ae_prev_hash e = AUDIT_ZERO_HASH" using ch by simp
  have k: "length (kind_json ?C (ae_event e)) \<ge> 16"
    unfolding ev by (simp add: sample_audit_codec_def hex_json_def ser_kind_def ser_lengths)
  have c: "?c = 1 # le_bytes 7 0 @ i64_bytes 0 @ str_bytes (kind_json ?C (ae_event e))"
    using le_bytes.simps(2) [of 7 1] by (simp add: audit_canonical_bytes_def e nanos_or_zero_def in_i64_def i64_min_def i64_max_def)
  have l: "?l = 1 # le_bytes 7 0 @ str_bytes AUDIT_ZERO_HASH @ str_bytes (ae_content_hash e)"
    by (simp add: e p audit_link_one)
  have len: "length ?c \<ge> 32" "length ?l \<ge> 32" using k by (simp_all add: c l AUDIT_ZERO_HASH_def)
  have z: "AUDIT_ZERO_HASH = CHR ''0'' # replicate 63 (CHR ''0'')" by (simp add: AUDIT_ZERO_HASH_def numeral_eq_Suc)
  have 8: "?c ! 8 = 0" "?l ! 8 = 48"
    by (simp_all add: c l nth_append i64_bytes_def nth_le_bytes str_bytes_def z)
  have "take 32 ?c \<noteq> take 32 ?l"
  proof
    assume "take 32 ?c = take 32 ?l"
    from arg_cong [OF this, of "\<lambda>xs. xs ! 8"] 8 show False by simp
  qed
  then have "blake3 sample_ext ?c \<noteq> blake3 sample_ext ?l"
    using hash_of_raw_inject [OF _ len] len by (auto simp: sample_blake3)
  then have inj: "inj_on (hash_hex ?b) (\<Union>(audit_msgs ?C ` (set [e] \<union> set [e])))"
    by (auto simp: audit_msgs_def hash_hex_def)
  have nz: "AUDIT_ZERO_HASH \<notin> hash_hex ?b ` \<Union>(audit_msgs ?C ` (set [e] \<union> set [e]))"
    using sample_hash_hex [of ?c] sample_hash_hex [of ?l] by (auto simp: audit_msgs_def c l)
  have "\<forall>x \<in> set [e] \<union> set [e]. in_i64 (ae_ts x)" by (simp add: e in_i64_def i64_min_def i64_max_def)
  from audit_tamper_evident [OF sample_audit_codec_ok v(1) t v(2) u refl this inj nz] t u show ?thesis
    by (intro exI [of _ ?t] exI [of _ "[e]"]) simp
qed

end
