(* ===== verification/Four_Eyes_Props.thy ===== *)
theory Four_Eyes_Props
  imports Four_Eyes Audit_Sample
begin

text \<open>
  Properties of the approval queue: without I/O errors every submission is decided at most
  once, by somebody else, and posted exactly when it is approved, also across restarts; what
  an I/O error after posting does.
\<close>

subsection \<open>Operations without I/O errors\<close>

abbreviation record_ok :: "fe_codec \<Rightarrow> bool" where
  "record_ok C \<equiv> json_ok (record_json C) (record_parse C)"

text \<open>The text of a file; a missing file reads like an empty one.\<close>

definition fd_text :: "fe_dir \<Rightarrow> fe_file \<Rightarrow> string" where
  "fd_text d f = (case fd_files d f of None \<Rightarrow> [] | Some t \<Rightarrow> t)"

lemma alist_update_fresh: "k \<notin> fst ` set m \<Longrightarrow> AList.update k v m = m @ [(k, v)]"
  by (induction m) auto

lemma persist_clean:
  assumes "fd_faults d = []"
  shows "persist_record C f r d =
     (d\<lparr>fd_files := (fd_files d)(f := Some (fd_text d f @ record_json C r @ [newline]))\<rparr>, Inr ())"
  using assms
  by (cases "fd_files d f")
    (simp_all add: persist_record_def jf_create_def jf_io_def fd_file_def jf_clean fd_store_def fd_text_def jf_text_def)

lemma write_lines_clean:
  assumes "jf_faults f = []" "jf_data f = Some t"
  shows "write_lines ls f = (f\<lparr>jf_data := Some (t @ concat (map (\<lambda>l. l @ [newline]) ls))\<rparr>, Inr ())"
  using assms
proof (induction ls arbitrary: f t)
  case (Cons l ls)
  then show ?case by (simp add: jf_clean jf_text_def)
qed simp

lemma kept_lines_text:
  assumes "record_ok C"
  shows "kept_lines C i (text_of (record_json C) rs) = map (record_json C) (filter (\<lambda>r. ar_id r \<noteq> i) rs)"
  using lines_text_of [OF assms, of rs "[]"]
  by (simp add: kept_lines_def filter_map comp_def json_okD [OF assms])

lemma remove_clean:
  assumes "record_ok C" "fd_faults d = []" "fd_text d PendingFile = text_of (record_json C) rs"
  shows "\<exists>d'. remove_pending C i d = (d', Inr ()) \<and> fd_faults d' = [] \<and>
     fd_text d' PendingFile = text_of (record_json C) (filter (\<lambda>r. ar_id r \<noteq> i) rs) \<and>
     fd_text d' ApprovedFile = fd_text d ApprovedFile \<and> fd_text d' RejectedFile = fd_text d RejectedFile"
proof (cases "fd_files d PendingFile")
  case None
  with assms(3) have "rs = []" by (cases rs) (simp_all add: fd_text_def)
  with None assms(2,3) show ?thesis by (simp add: remove_pending_def)
next
  case (Some t)
  with assms(3) have t: "t = text_of (record_json C) rs" by (simp add: fd_text_def)
  let ?j = "\<lparr> jf_data = Some [], jf_faults = [] \<rparr>"
  have "write_lines (kept_lines C i t) ?j =
      (?j\<lparr>jf_data := Some (text_of (record_json C) (filter (\<lambda>r. ar_id r \<noteq> i) rs))\<rparr>, Inr ())"
    by (subst write_lines_clean)
      (simp_all only: t kept_lines_text [OF assms(1)], simp_all add: text_of_def comp_def)
  with Some assms(2) show ?thesis
    by (simp add: remove_pending_def jf_create_def jf_step_def jf_io_def jf_clean fd_store_def fd_text_def)
qed

lemma load_lines_text:
  assumes "record_ok C" "distinct (map fst m @ map ar_id rs)"
  shows "load_lines C (map (record_json C) rs) m = m @ map (\<lambda>r. (ar_id r, r)) rs"
  using assms(2)
proof (induction rs arbitrary: m)
  case (Cons r rs)
  have "AList.update (ar_id r) r m = m @ [(ar_id r, r)]"
    using Cons.prems by (intro alist_update_fresh) auto
  with Cons.IH [of "m @ [(ar_id r, r)]"] Cons.prems show ?case by (simp add: json_okD [OF assms(1)])
qed simp

lemma find_line_text:
  assumes "record_ok C"
  shows "find_line C i (map (record_json C) rs) = find (\<lambda>r. ar_id r = i) rs"
  by (induction rs) (simp_all add: json_okD [OF assms])

subsection \<open>The abstract queue\<close>

text \<open>
  The queue is three lists of records: pending, approved and rejected.  \<open>fe_abs C q ps as rs\<close>: the files
  and the map of \<open>q\<close> represent them.
\<close>

definition fe_abs :: "fe_codec \<Rightarrow> four_eyes_queue \<Rightarrow> approval_record list \<Rightarrow> approval_record list \<Rightarrow> approval_record list \<Rightarrow> bool" where
  "fe_abs C q ps as rs \<longleftrightarrow> fd_faults (fq_dir q) = [] \<and>
     fd_text (fq_dir q) PendingFile = text_of (record_json C) ps \<and>
     fd_text (fq_dir q) ApprovedFile = text_of (record_json C) as \<and>
     fd_text (fq_dir q) RejectedFile = text_of (record_json C) rs \<and>
     fq_pending q = map (\<lambda>r. (ar_id r, r)) ps \<and> distinct (map ar_id (ps @ as @ rs))"

lemma fe_abs_audit [simp]: "fe_abs C (fe_audit A now kind q) = fe_abs C q"
  by (intro ext) (simp add: fe_abs_def fe_audit_def split: option.split)

lemma fe_submit_abs:
  assumes "fe_abs C q ps as rs" "uid \<notin> set (map ar_id (ps @ as @ rs))"
    "fe_submit C uid now bs descr domain submitter q = (q', res)"
  shows "\<exists>r. res = Inr r \<and> fe_abs C q' (ps @ [r]) as rs \<and> ar_id r = uid \<and> ar_submitter_id r = submitter \<and>
     ar_entry_payload_hex r = hex_encode bs \<and> ar_approver_id r = None"
proof -
  from assms(1) have f: "fd_faults (fq_dir q) = []" by (simp add: fe_abs_def)
  let ?r = "\<lparr> ar_id = uid, ar_status = ApprovalPending, ar_submitter_id = submitter, ar_approver_id = None,
      ar_reject_reason = None, ar_submitted_at = now 0, ar_decided_at = None,
      ar_entry_payload_hex = hex_encode bs, ar_description = descr, ar_domain = domain \<rparr>"
  have u: "AList.update uid x (fq_pending q) = fq_pending q @ [(uid, x)]" for x
    using assms(1,2) by (intro alist_update_fresh) (auto simp: fe_abs_def)
  have "res = Inr ?r" "q' = fe_audit C (now 1) (FourEyesSubmitted uid uid submitter domain)
      (q\<lparr>fq_dir := (fq_dir q)\<lparr>fd_files := (fd_files (fq_dir q))(PendingFile :=
         Some (fd_text (fq_dir q) PendingFile @ record_json C ?r @ [newline]))\<rparr>, fq_pending := fq_pending q @ [(uid, ?r)]\<rparr>)"
    using assms(3) by (simp_all add: fe_submit_def on_dir_def persist_clean [OF f] u Let_def)
  with assms(1,2) show ?thesis by (auto simp: fe_abs_def fd_text_def)
qed

lemma delete_pairs: "AList.delete i (map (\<lambda>r. (ar_id r, r)) ps) = map (\<lambda>r. (ar_id r, r)) (filter (\<lambda>r. ar_id r \<noteq> i) ps)"
  by (induction ps) auto

lemma fe_decide_clean:
  assumes C: "record_ok C" and flt: "fd_faults (fq_dir q) = []" and ps: "fd_text (fq_dir q) PendingFile = text_of (record_json C) ps"
    and f: "f \<noteq> PendingFile"
  shows "\<exists>d'. fe_decide C f i r q = (q\<lparr>fq_dir := d', fq_pending := AList.delete i (fq_pending q)\<rparr>, Inr ()) \<and> fd_faults d' = [] \<and>
     fd_text d' PendingFile = text_of (record_json C) (filter (\<lambda>x. ar_id x \<noteq> i) ps) \<and>
     (\<forall>g. g \<noteq> PendingFile \<longrightarrow> fd_text d' g = fd_text (fq_dir q) g @ (if g = f then record_json C r @ [newline] else []))"
proof -
  let ?d = "(fq_dir q)\<lparr>fd_files := (fd_files (fq_dir q))(f := Some (fd_text (fq_dir q) f @ record_json C r @ [newline]))\<rparr>"
  have "fd_faults ?d = []" "fd_text ?d PendingFile = text_of (record_json C) ps"
    using flt ps f by (auto simp: fd_text_def)
  from remove_clean [OF C this, of i] obtain d' where rm: "remove_pending C i ?d = (d', Inr ())" "fd_faults d' = []"
    "fd_text d' PendingFile = text_of (record_json C) (filter (\<lambda>x. ar_id x \<noteq> i) ps)"
    "fd_text d' ApprovedFile = fd_text ?d ApprovedFile" "fd_text d' RejectedFile = fd_text ?d RejectedFile" by blast
  have "fe_decide C f i r q = (q\<lparr>fq_dir := d', fq_pending := AList.delete i (fq_pending q)\<rparr>, Inr ())"
    using rm(1) by (simp add: fe_decide_def on_dir_def persist_clean [OF flt])
  moreover have "fd_text d' g = fd_text ?d g" if "g \<noteq> PendingFile" for g
    using rm(4,5) that by (cases g) simp_all
  then have "fd_text d' g = fd_text (fq_dir q) g @ (if g = f then record_json C r @ [newline] else [])" if "g \<noteq> PendingFile" for g
    using that by (simp add: fd_text_def)
  ultimately show ?thesis using rm(2,3) by blast
qed

lemma fe_decide_abs:
  assumes C: "record_ok C" and a: "fe_abs C q ps as rs" and r: "r \<in> set ps" "ar_id r' = ar_id r" "i = ar_id r" and f: "f = ApprovedFile \<or> f = RejectedFile"
    and d: "fe_decide C f i r' q = (q', res)"
  shows "res = Inr () \<and> fe_abs C q' (filter (\<lambda>x. ar_id x \<noteq> ar_id r) ps)
     (if f = ApprovedFile then as @ [r'] else as) (if f = RejectedFile then rs @ [r'] else rs)"
proof -
  have "fd_faults (fq_dir q) = []" "fd_text (fq_dir q) PendingFile = text_of (record_json C) ps" "f \<noteq> PendingFile"
    using a f by (auto simp: fe_abs_def)
  from fe_decide_clean [OF C this, of i r'] obtain d' where
    dec: "fe_decide C f i r' q = (q\<lparr>fq_dir := d', fq_pending := AList.delete i (fq_pending q)\<rparr>, Inr ())" and d': "fd_faults d' = []"
    "fd_text d' PendingFile = text_of (record_json C) (filter (\<lambda>x. ar_id x \<noteq> i) ps)" and
    fs: "\<And>g. g \<noteq> PendingFile \<Longrightarrow> fd_text d' g = fd_text (fq_dir q) g @ (if g = f then record_json C r' @ [newline] else [])" by blast
  have q': "res = Inr ()" "q' = q\<lparr>fq_dir := d', fq_pending := AList.delete i (fq_pending q)\<rparr>"
    using d dec by simp_all
  have "distinct (map ar_id (filter (\<lambda>x. ar_id x \<noteq> ar_id r) ps @ (if f = ApprovedFile then as @ [r'] else as) @ (if f = RejectedFile then rs @ [r'] else rs)))"
    using a r f by (auto simp: fe_abs_def distinct_map_filter)
  with a f d' show ?thesis
    by (auto simp: fe_abs_def q' delete_pairs fs r(3))
qed

lemma fe_abs_pending: "fe_abs C q ps as rs \<Longrightarrow> map_of (fq_pending q) i = find (\<lambda>r. ar_id r = i) ps"
proof -
  assume "fe_abs C q ps as rs"
  then have "fq_pending q = map (\<lambda>r. (ar_id r, r)) ps" by (simp add: fe_abs_def)
  moreover have "map_of (map (\<lambda>r. (ar_id r, r)) ps) i = find (\<lambda>r. ar_id r = i) ps" by (induction ps) auto
  ultimately show ?thesis by simp
qed

lemma fe_abs_approved:
  assumes "record_ok C" "fe_abs C q ps as rs"
  shows "find_in_decided C ApprovedFile i (fq_dir q) = find (\<lambda>r. ar_id r = i) as"
proof (cases "fd_files (fq_dir q) ApprovedFile")
  case None
  with assms(2) have "as = []" by (cases as) (simp_all add: fe_abs_def fd_text_def)
  with None show ?thesis by (simp add: find_in_decided_def)
next
  case (Some t)
  with assms(2) have "t = text_of (record_json C) as" by (simp add: fe_abs_def fd_text_def)
  with Some lines_text_of [OF assms(1), of as "[]"] find_line_text [OF assms(1)] show ?thesis
    by (simp add: find_in_decided_def)
qed

lemma fe_open_abs:
  assumes "record_ok C" "fe_abs C q ps as rs"
  shows "fe_abs C (fe_open C (fq_dir q)) ps as rs"
proof -
  have "load_pending C (fq_dir q) = map (\<lambda>r. (ar_id r, r)) ps"
  proof (cases "fd_files (fq_dir q) PendingFile")
    case None
    with assms(2) have "ps = []" by (cases ps) (simp_all add: fe_abs_def fd_text_def)
    with None show ?thesis by (simp add: load_pending_def)
  next
    case (Some t)
    with assms(2) have "t = text_of (record_json C) ps" "distinct (map ar_id ps)" by (simp_all add: fe_abs_def fd_text_def)
    with Some lines_text_of [OF assms(1), of ps "[]"] load_lines_text [OF assms(1), of "[]" ps] show ?thesis
      by (simp add: load_pending_def)
  qed
  with assms(2) show ?thesis by (simp add: fe_abs_def fe_open_def)
qed

lemma find_Some: "find P xs = Some x \<Longrightarrow> x \<in> set xs \<and> P x"
  by (auto simp: find_Some_iff)

text \<open>The outcomes of \<^verbatim>\<open>approve\<close>: nothing changes, the callback refuses, or the record moves to the approved ones.\<close>

lemma fe_approve_abs:
  assumes C: "record_ok C" and a: "fe_abs C q ps as rs" and d: "fe_approve C post now i a (q, p) = ((q', p'), res)"
  obtains (same) "q' = q" "p' = p"
    | (refused) "q' = q" "\<exists>bs e. post bs p = (p', Inl e)"
    | (approved) r bs r' where "r \<in> set ps" "ar_id r = i" "ar_submitter_id r \<noteq> a" "hex_decode (ar_entry_payload_hex r) = Some bs"
      "post bs p = (p', Inr ())" "r' = r\<lparr>ar_status := ApprovalApproved, ar_approver_id := Some a, ar_decided_at := Some (now 0)\<rparr>"
      "res = Inr r'" "fe_abs C q' (filter (\<lambda>x. ar_id x \<noteq> i) ps) (as @ [r']) rs"
proof (cases "find (\<lambda>r. ar_id r = i) as")
  case (Some x)
  with d fe_abs_approved [OF C a, of i] same show thesis by (simp add: fe_approve_def)
next
  case na: None
  show thesis
  proof (cases "find (\<lambda>r. ar_id r = i) ps")
    case None
    with na d fe_abs_approved [OF C a, of i] fe_abs_pending [OF a, of i] same show thesis by (simp add: fe_approve_def)
  next
    case (Some r)
    note [simp] = Some fe_abs_approved [OF C a, of i] fe_abs_pending [OF a, of i] na
    from find_Some [OF Some] have r: "r \<in> set ps" "ar_id r = i" by auto
    show thesis
    proof (cases "ar_submitter_id r = a \<or> hex_decode (ar_entry_payload_hex r) = None")
      case True
      with d same show thesis by (auto simp: fe_approve_def split: option.splits if_splits)
    next
      case False
      then obtain bs where bs: "ar_submitter_id r \<noteq> a" "hex_decode (ar_entry_payload_hex r) = Some bs" by auto
      obtain p1 o1 where post: "post bs p = (p1, o1)" by (cases "post bs p")
      show thesis
      proof (cases o1)
        case (Inl e)
        with d bs post have "q' = q" "post bs p = (p', Inl e)" by (simp_all add: fe_approve_def)
        with refused show thesis by blast
      next
        case (Inr u)
        let ?r = "r\<lparr>ar_status := ApprovalApproved, ar_approver_id := Some a, ar_decided_at := Some (now 0)\<rparr>"
        obtain q1 o2 where dec: "fe_decide C ApprovedFile i ?r q = (q1, o2)" by (cases "fe_decide C ApprovedFile i ?r q")
        from fe_decide_abs [OF C a r(1) _ r(2) [symmetric] _ dec] have o2: "o2 = Inr ()"
          "fe_abs C q1 (filter (\<lambda>x. ar_id x \<noteq> i) ps) (as @ [?r]) rs" by (simp_all add: r(2))
        with d bs post Inr dec have "p' = p1" "res = Inr ?r" "q' = fe_audit C (now 1) (FourEyesApproved i a) q1"
          by (simp_all add: fe_approve_def Let_def)
        with approved [of r bs ?r] r bs post Inr o2 show thesis by simp
      qed
    qed
  qed
qed

lemma fe_reject_abs:
  assumes C: "record_ok C" and a: "fe_abs C q ps as rs" and d: "fe_reject C now i a reason q = (q', res)"
  obtains (same) "q' = q"
    | (rejected) r r' where "r \<in> set ps" "ar_id r = i" "ar_submitter_id r \<noteq> a"
      "r' = r\<lparr>ar_status := ApprovalRejected, ar_approver_id := Some a, ar_reject_reason := Some reason, ar_decided_at := Some (now 0)\<rparr>"
      "res = Inr r'" "fe_abs C q' (filter (\<lambda>x. ar_id x \<noteq> i) ps) as (rs @ [r'])"
proof (cases "find (\<lambda>r. ar_id r = i) ps")
  case None
  with d fe_abs_pending [OF a, of i] same show thesis by (simp add: fe_reject_def)
next
  case (Some r)
  from find_Some [OF Some] have r: "r \<in> set ps" "ar_id r = i" by auto
  show thesis
  proof (cases "ar_submitter_id r = a")
    case True
    with d same Some fe_abs_pending [OF a, of i] show thesis by (simp add: fe_reject_def)
  next
    case False
    let ?r = "r\<lparr>ar_status := ApprovalRejected, ar_approver_id := Some a, ar_reject_reason := Some reason, ar_decided_at := Some (now 0)\<rparr>"
    obtain q1 o2 where dec: "fe_decide C RejectedFile i ?r q = (q1, o2)" by (cases "fe_decide C RejectedFile i ?r q")
    from fe_decide_abs [OF C a r(1) _ r(2) [symmetric] _ dec] have o2: "o2 = Inr ()"
      "fe_abs C q1 (filter (\<lambda>x. ar_id x \<noteq> i) ps) as (rs @ [?r])" by (simp_all add: r(2))
    with d False dec Some fe_abs_pending [OF a, of i] have "res = Inr ?r" "q' = fe_audit C (now 1) (FourEyesRejected i a reason) q1"
      by (simp_all add: fe_reject_def Let_def)
    with rejected [of r ?r] r False o2 show thesis by simp
  qed
qed

subsection \<open>Histories\<close>

text \<open>The callback appends the entries it accepts to the list of posted ones.\<close>

definition post_log :: "(bytes \<Rightarrow> bytes list \<Rightarrow> string option) \<Rightarrow> bytes \<Rightarrow> bytes list \<Rightarrow> bytes list \<times> (string + unit)" where
  "post_log refuse bs p = (case refuse bs p of None \<Rightarrow> (p @ [bs], Inr ()) | Some e \<Rightarrow> (p, Inl e))"

text \<open>
  \<open>fe_run C refuse q p subs\<close>: starting from an empty directory, without I/O errors, some sequence of calls and
  restarts reaches the queue \<open>q\<close>; \<open>p\<close> are the entries posted so far and \<open>subs\<close> the submissions.
\<close>

inductive fe_run :: "fe_codec \<Rightarrow> (bytes \<Rightarrow> bytes list \<Rightarrow> string option) \<Rightarrow> four_eyes_queue \<Rightarrow> bytes list \<Rightarrow> (uuid \<times> string \<times> bytes) list \<Rightarrow> bool"
  for C refuse where
  fe_start: "fd_files d = (\<lambda>_. None) \<Longrightarrow> fd_faults d = [] \<Longrightarrow> fe_run C refuse (fe_open C d) [] []"
| fe_restart: "fe_run C refuse q p subs \<Longrightarrow> fe_run C refuse (fe_open C (fq_dir q)) p subs"
| fe_restart_audit: "fe_run C refuse q p subs \<Longrightarrow> fe_run C refuse (fe_open_with_audit C (fq_dir q) g) p subs"
| fe_submits: "fe_run C refuse q p subs \<Longrightarrow> uid \<notin> fst ` set subs \<Longrightarrow>
    fe_submit C uid now bs descr domain submitter q = (q', res) \<Longrightarrow> fe_run C refuse q' p (subs @ [(uid, submitter, bs)])"
| fe_approves: "fe_run C refuse q p subs \<Longrightarrow> fe_approve C (post_log refuse) now i a (q, p) = ((q', p'), res) \<Longrightarrow>
    fe_run C refuse q' p' subs"
| fe_rejects: "fe_run C refuse q p subs \<Longrightarrow> fe_reject C now i a reason q = (q', res) \<Longrightarrow> fe_run C refuse q' p subs"

text \<open>What a submission and its record have in common.\<close>

definition sub_of :: "approval_record \<Rightarrow> uuid \<times> string \<times> string" where
  "sub_of r = (ar_id r, ar_submitter_id r, ar_entry_payload_hex r)"

definition sub_key :: "uuid \<times> string \<times> bytes \<Rightarrow> uuid \<times> string \<times> string" where
  "sub_key s = (case s of (i, who, bs) \<Rightarrow> (i, who, hex_encode bs))"

text \<open>Decided by somebody other than the submitter.\<close>

definition second_pair :: "approval_record \<Rightarrow> bool" where
  "second_pair r = (case ar_approver_id r of None \<Rightarrow> False | Some a \<Rightarrow> a \<noteq> ar_submitter_id r)"

definition fe_books :: "approval_record list \<Rightarrow> approval_record list \<Rightarrow> approval_record list \<Rightarrow> bytes list \<Rightarrow> (uuid \<times> string \<times> bytes) list \<Rightarrow> bool" where
  "fe_books ps as rs p subs \<longleftrightarrow> mset (map sub_of (ps @ as @ rs)) = mset (map sub_key subs) \<and>
     map ar_entry_payload_hex as = map hex_encode p \<and> list_all second_pair (as @ rs)"

lemma filter_other_id:
  assumes "distinct (map ar_id ps)" "r \<in> set ps"
  shows "mset ps = add_mset r (mset (filter (\<lambda>x. ar_id x \<noteq> ar_id r) ps))"
proof -
  from assms have "filter (\<lambda>x. ar_id x = ar_id r) ps = [r]"
    by (induction ps) (simp_all add: filter_empty_conv image_iff, metis)
  then have "mset (filter (\<lambda>x. ar_id x = ar_id r) ps) = {#r#}" by simp
  with multiset_partition [of "mset ps" "\<lambda>x. ar_id x = ar_id r"]
  have "mset ps = {#r#} + filter_mset (\<lambda>x. ar_id x \<noteq> ar_id r) (mset ps)" by (simp only: mset_filter)
  then show ?thesis by simp
qed

lemma move_record:
  assumes "fe_abs C q ps as rs" "r \<in> set ps" "sub_of r' = sub_of r"
  shows "mset (map sub_of (filter (\<lambda>x. ar_id x \<noteq> ar_id r) ps)) + {#sub_of r'#} = mset (map sub_of ps)"
proof -
  have "mset ps = add_mset r (mset (filter (\<lambda>x. ar_id x \<noteq> ar_id r) ps))"
    using assms by (intro filter_other_id) (simp_all add: fe_abs_def)
  then show ?thesis using assms(3) by (metis add_mset_add_single image_mset_add_mset mset_map)
qed

lemma move_books:
  assumes "mset (map sub_of ps') + {#sub_of r'#} = mset (map sub_of ps)"
  shows "mset (map sub_of (ps' @ (as @ [r']) @ rs)) = mset (map sub_of (ps @ as @ rs))"
    "mset (map sub_of (ps' @ as @ (rs @ [r']))) = mset (map sub_of (ps @ as @ rs))"
proof -
  have "mset (map sub_of (ps' @ (as @ [r']) @ rs)) = (mset (map sub_of ps') + {#sub_of r'#}) + mset (map sub_of (as @ rs))" by simp
  then show "mset (map sub_of (ps' @ (as @ [r']) @ rs)) = mset (map sub_of (ps @ as @ rs))" unfolding assms by simp
  have "mset (map sub_of (ps' @ as @ (rs @ [r']))) = (mset (map sub_of ps') + {#sub_of r'#}) + mset (map sub_of (as @ rs))" by simp
  then show "mset (map sub_of (ps' @ as @ (rs @ [r']))) = mset (map sub_of (ps @ as @ rs))" unfolding assms by simp
qed

lemma fe_run_books:
  assumes "fe_run C refuse q p subs" "record_ok C"
  shows "\<exists>ps as rs. fe_abs C q ps as rs \<and> fe_books ps as rs p subs"
  using assms(1)
proof induction
  case (fe_start d)
  then have "fe_abs C (fe_open C d) [] [] []" by (simp add: fe_abs_def fe_open_def fd_text_def load_pending_def)
  then show ?case by (intro exI [of _ "[]"]) (simp add: fe_books_def)
next
  case (fe_restart q p subs)
  with fe_open_abs [OF assms(2)] show ?case by blast
next
  case (fe_restart_audit q p subs g)
  have "fe_abs C (fe_open_with_audit C d g) = fe_abs C (fe_open C d)" for d
    by (intro ext) (simp add: fe_abs_def fe_open_with_audit_def)
  with fe_restart_audit fe_open_abs [OF assms(2)] show ?case by metis
next
  case (fe_submits q p subs uid now bs descr domain submitter q' res)
  then obtain ps as rs where a: "fe_abs C q ps as rs" "fe_books ps as rs p subs" by blast
  then have "set (map sub_of (ps @ as @ rs)) = set (map sub_key subs)"
    unfolding fe_books_def by (metis set_mset_mset)
  then have "fst ` set (map sub_of (ps @ as @ rs)) = fst ` set (map sub_key subs)" by simp
  moreover have "fst (sub_of r) = ar_id r" "fst (sub_key s) = fst s" for r s
    by (simp_all add: sub_of_def sub_key_def split: prod.split)
  ultimately have "ar_id ` set (ps @ as @ rs) = fst ` set subs" by (simp add: image_image image_Un)
  with fe_submits(2) have "uid \<notin> set (map ar_id (ps @ as @ rs))" unfolding set_map by metis
  from fe_submit_abs [OF a(1) this fe_submits(3)] obtain r where
    "fe_abs C q' (ps @ [r]) as rs" "sub_of r = sub_key (uid, submitter, bs)" by (auto simp: sub_of_def sub_key_def)
  with a(2) show ?case by (intro exI [of _ "ps @ [r]"] exI [of _ as] exI [of _ rs]) (simp add: fe_books_def)
next
  case (fe_approves q p subs now i a q' p' res)
  then obtain ps as rs where a: "fe_abs C q ps as rs" "fe_books ps as rs p subs" by blast
  show ?case
  proof (cases rule: fe_approve_abs [OF assms(2) a(1) fe_approves(2)])
    case same: 1
    with a show ?thesis by blast
  next
    case refused: 2
    then have "p' = p" by (auto simp: post_log_def split: option.splits)
    with refused a show ?thesis by blast
  next
    case approved: (3 r bs r')
    let ?ps = "filter (\<lambda>x. ar_id x \<noteq> i) ps"
    have r': "sub_of r' = sub_of r" "second_pair r'" using approved(3,6) by (simp_all add: sub_of_def second_pair_def)
    have m: "mset (map sub_of ?ps) + {#sub_of r'#} = mset (map sub_of ps)"
      using move_record [OF a(1) approved(1) r'(1)] approved(2) by simp
    have "sub_of r \<in># mset (map sub_of (ps @ as @ rs))" using approved(1) by simp
    with a(2) have "sub_of r \<in># mset (map sub_key subs)" by (simp add: fe_books_def)
    then obtain b where "ar_entry_payload_hex r = hex_encode b" by (auto simp: sub_of_def sub_key_def split: prod.splits)
    with approved have "ar_entry_payload_hex r' = hex_encode bs" "p' = p @ [bs]"
      by (auto simp: post_log_def split: option.splits)
    with a(2) r'(2) have "fe_books ?ps (as @ [r']) rs p' subs"
      unfolding fe_books_def move_books(1) [OF m] by simp
    with approved(8) show ?thesis by blast
  qed
next
  case (fe_rejects q p subs now i a reason q' res)
  then obtain ps as rs where a: "fe_abs C q ps as rs" "fe_books ps as rs p subs" by blast
  show ?case
  proof (cases rule: fe_reject_abs [OF assms(2) a(1) fe_rejects(2)])
    case same: 1
    with a show ?thesis by blast
  next
    case rejected: (2 r r')
    let ?ps = "filter (\<lambda>x. ar_id x \<noteq> i) ps"
    have r': "sub_of r' = sub_of r" "second_pair r'" using rejected(3,4) by (simp_all add: sub_of_def second_pair_def)
    have m: "mset (map sub_of ?ps) + {#sub_of r'#} = mset (map sub_of ps)"
      using move_record [OF a(1) rejected(1) r'(1)] rejected(2) by simp
    with a(2) r'(2) have "fe_books ?ps as (rs @ [r']) p subs"
      unfolding fe_books_def move_books(2) [OF m] by simp
    with rejected(6) show ?thesis by blast
  qed
qed

lemma pending_lookup:
  assumes "record_ok C" "fe_abs C q ps as rs" "r \<in> set ps"
  shows "find_in_decided C ApprovedFile (ar_id r) (fq_dir q) = None" "map_of (fq_pending q) (ar_id r) = Some r"
proof -
  have d: "distinct (map ar_id ps)" "ar_id r \<notin> ar_id ` set as" using assms(2,3) by (auto simp: fe_abs_def)
  then show "find_in_decided C ApprovedFile (ar_id r) (fq_dir q) = None"
    by (simp add: fe_abs_approved [OF assms(1,2)] find_None_iff image_iff) metis
  show "map_of (fq_pending q) (ar_id r) = Some r"
    using assms(2,3) d by (auto simp: fe_abs_def intro!: map_of_is_SomeI simp: comp_def)
qed

subsection \<open>The properties\<close>

text \<open>
  C18: starting from an empty directory, with calls that do not overlap, without I/O errors, and whatever restarts happen in between, the records in the three files are exactly the submissions, each in one
  place: a submission is pending, approved or rejected and never two of these.  The entries posted to
  the ledger are those of the approved records, each once and in the order of \<^verbatim>\<open>approved.jsonl\<close>; every decision was taken by somebody other than the submitter;
  and the in-memory index lists the pending records.
\<close>

theorem four_eyes_exactly_once:
  assumes "fe_run C refuse q posted subs" "record_ok C"
  shows "\<exists>ps as rs. fd_text (fq_dir q) PendingFile = text_of (record_json C) ps \<and>
     fd_text (fq_dir q) ApprovedFile = text_of (record_json C) as \<and>
     fd_text (fq_dir q) RejectedFile = text_of (record_json C) rs \<and>
     list_pending q = ps \<and> distinct (map ar_id (ps @ as @ rs)) \<and>
     mset (map sub_of (ps @ as @ rs)) = mset (map sub_key subs) \<and>
     map ar_entry_payload_hex as = map hex_encode posted \<and> list_all second_pair (as @ rs)"
proof -
  from fe_run_books [OF assms] obtain ps as rs where "fe_abs C q ps as rs" "fe_books ps as rs posted subs" by blast
  then show ?thesis
    unfolding fe_abs_def fe_books_def
    by (intro exI [of _ ps] exI [of _ as] exI [of _ rs]) (simp only: list_pending_def map_map, simp add: comp_def)
qed

text \<open>
  C20: the call \<^verbatim>\<open>approve\<close> runs the posting function before it writes \<^verbatim>\<open>approved.jsonl\<close>.  When creating or opening that file
  fails, so that nothing is written, the
  caller gets an I/O error, the record stays pending and is in no decided file, so that the check for an earlier approval does not see it, and approving again posts the
  same entry a second time, unless the posting function itself refuses it.
\<close>

theorem approve_retry_posts_twice:
  assumes "record_ok C" "fe_abs C q ps as rs" "r \<in> set ps" "ar_submitter_id r \<noteq> a"
    "ar_entry_payload_hex r = hex_encode bs" "\<And>p. refuse bs p = None"
  shows "\<exists>q1 q2. fe_approve C (post_log refuse) now (ar_id r) a (q\<lparr>fq_dir := (fq_dir q)\<lparr>fd_faults := [IoErr n]\<rparr>\<rparr>, posted)
        = ((q1, posted @ [bs]), Inl FeIo) \<and>
     fe_approve C (post_log refuse) now (ar_id r) a (q1, posted @ [bs]) =
        ((q2, posted @ [bs, bs]), Inr (r\<lparr>ar_status := ApprovalApproved, ar_approver_id := Some a, ar_decided_at := Some (now 0)\<rparr>))"
proof -
  let ?q = "q\<lparr>fq_dir := (fq_dir q)\<lparr>fd_faults := [IoErr n]\<rparr>\<rparr>"
  note na = pending_lookup(1) [OF assms(1-3)] and pe = pending_lookup(2) [OF assms(1-3)]
  have w: "persist_record C ApprovedFile x ((fq_dir q)\<lparr>fd_faults := [IoErr n]\<rparr>) = (fq_dir q, Inl FeIo)" for x
  proof -
    have "fd_faults (fq_dir q) = []" using assms(2) by (simp add: fe_abs_def)
    then show ?thesis
      by (cases "fq_dir q")
        (simp add: persist_record_def jf_create_def jf_open_append_def jf_io_def fd_file_def fd_store_def fun_upd_idem)
  qed
  have 1: "fe_approve C (post_log refuse) now (ar_id r) a (?q, posted) = ((q, posted @ [bs]), Inl FeIo)"
    using na pe assms(4,5,6) by (simp add: fe_approve_def find_in_decided_def post_log_def fe_decide_def on_dir_def w Let_def)
  obtain q2 p2 res where 2: "fe_approve C (post_log refuse) now (ar_id r) a (q, posted @ [bs]) = ((q2, p2), res)"
    by (metis surj_pair)
  let ?r = "r\<lparr>ar_status := ApprovalApproved, ar_approver_id := Some a, ar_decided_at := Some (now 0)\<rparr>"
  obtain q3 o3 where dec: "fe_decide C ApprovedFile (ar_id r) ?r q = (q3, o3)" by (cases "fe_decide C ApprovedFile (ar_id r) ?r q")
  from fe_decide_abs [OF assms(1,2,3) _ _ _ dec] have "o3 = Inr ()" by simp
  with 2 na pe assms(4,5,6) dec have "p2 = posted @ [bs, bs]" "res = Inr ?r"
    by (simp_all add: fe_approve_def post_log_def Let_def)
  with 1 2 show ?thesis by blast
qed

lemma run_first:
  "run_approvers C post now i a b (replicate n True @ sched) (s, pa, pb) =
     (case (approve_step C post now i a ^^ n) (s, pa) of (s1, pa1) \<Rightarrow> run_approvers C post now i a b sched (s1, pa1, pb))"
  by (induction n arbitrary: s pa) (simp_all add: funpow_swap1 split: prod.split)

lemma run_second:
  "run_approvers C post now i a b (replicate n False @ sched) (s, pa, pb) =
     (case (approve_step C post now i b ^^ n) (s, pb) of (s1, pb1) \<Rightarrow> run_approvers C post now i a b sched (s1, pa, pb1))"
  by (induction n arbitrary: s pb) (simp_all add: funpow_swap1 split: prod.split)


subsection \<open>A sample\<close>

definition ser_status :: "approval_status ser" where
  "ser_status = ser_enum [ApprovalPending, ApprovalApproved, ApprovalRejected]"

definition ser_record :: "approval_record ser" where
  "ser_record = ser_map
     (\<lambda>(a, b, c, d, e, f, g, h, i, j). \<lparr> ar_id = a, ar_status = b, ar_submitter_id = c, ar_approver_id = d, ar_reject_reason = e,
        ar_submitted_at = f, ar_decided_at = g, ar_entry_payload_hex = h, ar_description = i, ar_domain = j \<rparr>)
     (\<lambda>r. (ar_id r, ar_status r, ar_submitter_id r, ar_approver_id r, ar_reject_reason r, ar_submitted_at r, ar_decided_at r,
        ar_entry_payload_hex r, ar_description r, ar_domain r))
     (ser_pair (ser_word 16) (ser_pair ser_status (ser_pair ser_string (ser_pair (ser_option ser_string) (ser_pair (ser_option ser_string)
       (ser_pair ser_int (ser_pair (ser_option ser_int) (ser_pair ser_string (ser_pair ser_string ser_string)))))))))"

lemma ser_status_ok [ser_intros]: "ser_ok ser_status"
  unfolding ser_status_def by (rule ser_enum_ok) (metis approval_status.exhaust list.set_intros)

lemma ser_record_ok: "ser_ok ser_record"
  unfolding ser_record_def by (intro ser_intros) simp_all

definition sample_fe_codec :: fe_codec where
  "sample_fe_codec = \<lparr> record_json = hex_json ser_record, record_parse = hex_parse ser_record,
     fe_audit_codec = sample_audit_codec, fe_blake3 = blake3 sample_ext \<rparr>"

lemma sample_fe_codec_ok: "record_ok sample_fe_codec"
  using hex_json_ok [OF ser_record_ok] by (simp add: sample_fe_codec_def)

text \<open>Alice submits the bytes 1, 2 and Bob approves them.\<close>

lemma sample_fe_run:
  "\<exists>q1 q2 r. fe_run sample_fe_codec (\<lambda>_ _. None) q1 [] [(7, ''alice'', [1, 2])] \<and> fe_abs sample_fe_codec q1 [r] [] [] \<and>
     ar_submitter_id r = ''alice'' \<and> ar_entry_payload_hex r = hex_encode [1, 2] \<and>
     fe_run sample_fe_codec (\<lambda>_ _. None) q2 [[1, 2]] [(7, ''alice'', [1, 2])]"
proof -
  let ?C = sample_fe_codec and ?f = "\<lambda>_ _. None" and ?d = "\<lparr> fd_files = \<lambda>_. None, fd_faults = [] \<rparr>"
  have 0: "fe_run ?C ?f (fe_open ?C ?d) [] []" by (rule fe_start) simp_all
  have a0: "fe_abs ?C (fe_open ?C ?d) [] [] []" by (simp add: fe_abs_def fe_open_def fd_text_def load_pending_def)
  obtain q1 r1 where 1: "fe_submit ?C 7 (\<lambda>_. 0) [1, 2] ''sale'' ''emea'' ''alice'' (fe_open ?C ?d) = (q1, r1)"
    by (metis surj_pair)
  from fe_submits [OF 0 _ 1] have run1: "fe_run ?C ?f q1 [] [(7, ''alice'', [1, 2])]" by simp
  from fe_submit_abs [OF a0 _ 1] obtain r where r: "fe_abs ?C q1 [r] [] []" "ar_id r = 7" "ar_submitter_id r = ''alice''"
    "ar_entry_payload_hex r = hex_encode [1, 2]" by auto
  obtain q2 p2 r2 where 2: "fe_approve ?C (post_log ?f) (\<lambda>_. 0) 7 ''bob'' (q1, []) = ((q2, p2), r2)"
    by (metis surj_pair)
  from fe_approves [OF run1 2] have run2: "fe_run ?C ?f q2 p2 [(7, ''alice'', [1, 2])]" .
  let ?r = "r\<lparr>ar_status := ApprovalApproved, ar_approver_id := Some ''bob'', ar_decided_at := Some 0\<rparr>"
  obtain q3 o3 where dec: "fe_decide ?C ApprovedFile 7 ?r q1 = (q3, o3)" by (cases "fe_decide ?C ApprovedFile 7 ?r q1")
  from fe_decide_abs [OF sample_fe_codec_ok r(1) _ _ r(2) [symmetric] _ dec] have "o3 = Inr ()" by simp
  with 2 dec r have "p2 = [[1, 2]]"
    by (simp add: fe_approve_def fe_abs_approved [OF sample_fe_codec_ok r(1)] fe_abs_pending [OF r(1)] post_log_def Let_def)
  with run2 have "fe_run ?C ?f q2 [[1, 2]] [(7, ''alice'', [1, 2])]" by (simp only:)
  with run1 r show ?thesis by blast
qed

theorem four_eyes_exactly_once_witness:
  "\<exists>q. fe_run sample_fe_codec (\<lambda>_ _. None) q [[1, 2]] [(7, ''alice'', [1, 2])] \<and>
     (\<exists>as. fd_text (fq_dir q) ApprovedFile = text_of (record_json sample_fe_codec) as \<and>
        map ar_entry_payload_hex as = [hex_encode [1, 2]])"
proof -
  from sample_fe_run obtain q where q: "fe_run sample_fe_codec (\<lambda>_ _. None) q [[1, 2]] [(7, ''alice'', [1, 2])]" by blast
  from four_eyes_exactly_once [OF q sample_fe_codec_ok] obtain as where
    "fd_text (fq_dir q) ApprovedFile = text_of (record_json sample_fe_codec) as" "map ar_entry_payload_hex as = map hex_encode [[1, 2]]"
    by blast
  then show ?thesis by (intro exI [of _ q] exI [of _ as] conjI q) simp_all
qed

theorem approve_retry_posts_twice_witness:
  "\<exists>q q1 q2 r i. fe_approve sample_fe_codec (post_log (\<lambda>_ _. None)) (\<lambda>_. 0) i ''bob'' (q, []) = ((q1, [[1, 2]]), Inl FeIo) \<and>
     fe_approve sample_fe_codec (post_log (\<lambda>_ _. None)) (\<lambda>_. 0) i ''bob'' (q1, [[1, 2]]) = ((q2, [[1, 2], [1, 2]]), Inr r)"
proof -
  from sample_fe_run obtain q r where q: "fe_abs sample_fe_codec q [r] [] []" "ar_submitter_id r = ''alice''"
    "ar_entry_payload_hex r = hex_encode [1, 2]" by blast
  have "r \<in> set [r]" "ar_submitter_id r \<noteq> ''bob''" using q(2) by simp_all
  from approve_retry_posts_twice [OF sample_fe_codec_ok q(1) this q(3), of "\<lambda>_ _. None" "\<lambda>_. 0" 0 "[]"] show ?thesis
    unfolding append_Nil by blast
qed


end
