(* ===== verification/Sql_Guard.thy ===== *)
theory Sql_Guard
  imports Json_Lines Ledger_Types
begin

text \<open>
  \<^verbatim>\<open>crates/vledger-sql\<close>: the errors (\<^verbatim>\<open>error.rs\<close>) and the checks that run before the SQL
  parser (\<^verbatim>\<open>parser.rs\<close>).

  The scanner walks over the bytes of the query with an index, as the code does; its loops are
  partial functions, and that they return is part of the property.  The \<^verbatim>\<open>sqlparser\<close> crate
  is a parameter.
\<close>

datatype sql_error =
    SqlParse string
  | SqlUnsupported string
  | UnknownTable string
  | ColumnNotFound string
  | SqlTypeError string
  | MissingField string
  | InvalidValue string string
  | SqlLedger ledger_error
  | SqlExecution string
  | QueryTooLong nat nat
  | NestingTooDeep nat nat

definition MAX_SQL_BYTES :: nat where "MAX_SQL_BYTES = 64 * 1024"

definition MAX_NESTING_DEPTH :: nat where "MAX_NESTING_DEPTH = 20"

subsection \<open>The scanner\<close>

text \<open>The loop over a quoted literal, starting after the opening quote.\<close>

partial_function (option) skip_quoted :: "byte \<Rightarrow> bytes \<Rightarrow> nat \<Rightarrow> nat option" where
  "skip_quoted q bs i =
     (if i < length bs then
        if bs ! i = q
        then if i + 1 < length bs \<and> bs ! (i + 1) = q then skip_quoted q bs (i + 2) else Some (i + 1)
        else skip_quoted q bs (i + 1)
      else Some i)"

partial_function (option) skip_line :: "bytes \<Rightarrow> nat \<Rightarrow> nat option" where
  "skip_line bs i = (if i < length bs \<and> bs ! i \<noteq> 10 then skip_line bs (i + 1) else Some (if i < length bs then i + 1 else i))"

partial_function (option) skip_block :: "bytes \<Rightarrow> nat \<Rightarrow> nat option" where
  "skip_block bs i =
     (if i + 1 < length bs then
        if bs ! i = 42 \<and> bs ! (i + 1) = 47 then Some (i + 2) else skip_block bs (i + 1)
      else Some i)"

partial_function (option) scan_sql :: "bytes \<Rightarrow> nat \<Rightarrow> nat \<Rightarrow> nat \<Rightarrow> (sql_error + unit) option" where
  "scan_sql bs i depth max_depth =
     (if i < length bs then
        if bs ! i = 39 then Option.bind (skip_quoted 39 bs (i + 1)) (\<lambda>j. scan_sql bs j depth max_depth)
        else if bs ! i = 34 then Option.bind (skip_quoted 34 bs (i + 1)) (\<lambda>j. scan_sql bs j depth max_depth)
        else if bs ! i = 45 \<and> i + 1 < length bs \<and> bs ! (i + 1) = 45
        then Option.bind (skip_line bs (i + 2)) (\<lambda>j. scan_sql bs j depth max_depth)
        else if bs ! i = 47 \<and> i + 1 < length bs \<and> bs ! (i + 1) = 42
        then Option.bind (skip_block bs (i + 2)) (\<lambda>j. scan_sql bs j depth max_depth)
        else if bs ! i = 40 then
          if max max_depth (depth + 1) > MAX_NESTING_DEPTH
          then Some (Inl (NestingTooDeep (max max_depth (depth + 1)) MAX_NESTING_DEPTH))
          else scan_sql bs (i + 1) (depth + 1) (max max_depth (depth + 1))
        else if bs ! i = 41 then scan_sql bs (i + 1) (depth - 1) max_depth
        else scan_sql bs (i + 1) depth max_depth
      else Some (Inr ()))"

definition check_query_limits :: "bytes \<Rightarrow> (sql_error + unit) option" where
  "check_query_limits bs =
     (if length bs > MAX_SQL_BYTES then Some (Inl (QueryTooLong (length bs) MAX_SQL_BYTES)) else scan_sql bs 0 0 0)"

subsection \<open>Parsing\<close>

text \<open>\<open>sqlparser\<close> stands for \<^verbatim>\<open>SqlParser::parse_sql\<close>; the outer option is not returning.\<close>

definition ascii_space :: "char \<Rightarrow> bool" where
  "ascii_space c = blank [c]"

definition trim_start :: "string \<Rightarrow> string" where
  "trim_start s = dropWhile ascii_space s"

definition trim_end :: "string \<Rightarrow> string" where
  "trim_end s = rev (dropWhile ascii_space (rev s))"

definition trim :: "string \<Rightarrow> string" where
  "trim s = trim_end (trim_start s)"

definition trim_end_matches :: "char \<Rightarrow> string \<Rightarrow> string" where
  "trim_end_matches c s = rev (dropWhile (\<lambda>x. x = c) (rev s))"

definition sql_parse :: "(string \<Rightarrow> string + 'st list) \<Rightarrow> string \<Rightarrow> (sql_error + 'st list) option" where
  "sql_parse sqlparser sql = Option.bind (check_query_limits (str_bytes sql)) (\<lambda>r.
     Some (case r of Inl e \<Rightarrow> Inl e | Inr _ \<Rightarrow> (case sqlparser sql of Inl m \<Rightarrow> Inl (SqlParse m) | Inr sts \<Rightarrow> Inr sts)))"

definition parse_one :: "(string \<Rightarrow> string + 'st list) \<Rightarrow> string \<Rightarrow> (sql_error + 'st) option" where
  "parse_one sqlparser sql =
     Option.bind (sql_parse sqlparser (trim (trim_end_matches (CHR '';'') (trim sql)))) (\<lambda>r.
       Some (case r of
           Inl e \<Rightarrow> Inl e
         | Inr [] \<Rightarrow> Inl (SqlParse ''empty SQL input'')
         | Inr [st] \<Rightarrow> Inr st
         | Inr sts \<Rightarrow> Inl (SqlParse (''expected exactly 1 statement, got '' @ dec_string (length sts) @
             ''; use execute_batch for multi-statement input''))))"

subsection \<open>What the scanner looks at\<close>

fun drop_quoted :: "byte \<Rightarrow> bytes \<Rightarrow> bytes" where
  "drop_quoted q [] = []"
| "drop_quoted q (b # bs) =
     (if b = q then (case bs of c # cs \<Rightarrow> if c = q then drop_quoted q cs else bs | [] \<Rightarrow> []) else drop_quoted q bs)"

definition drop_line :: "bytes \<Rightarrow> bytes" where
  "drop_line bs = tl (dropWhile (\<lambda>b. b \<noteq> 10) bs)"

text \<open>
  The loop over a block comment compares two bytes at a time and stops one byte before the end of the
  text, so the last byte of a comment that is not closed is looked at again.
\<close>

fun scanned_rest :: "bytes \<Rightarrow> bytes" where
  "scanned_rest (a # b # bs) = (if a = 42 \<and> b = 47 then bs else scanned_rest (b # bs))"
| "scanned_rest bs = bs"

lemma length_drop_quoted: "length (drop_quoted q bs) \<le> length bs"
proof (induction bs rule: length_induct)
  case (1 bs)
  have IH: "length (drop_quoted q cs) \<le> length cs" if "length cs < length bs" for cs using 1 that by blast
  show ?case
  proof (cases bs)
    case (Cons b cs)
    then show ?thesis using IH [of cs] IH [of "tl cs"] by (cases cs) simp_all
  qed simp
qed

lemma length_drop_line: "length (drop_line bs) \<le> length bs"
  using length_dropWhile_le [of "\<lambda>b. b \<noteq> 10" bs] by (simp add: drop_line_def)

lemma length_scanned_rest: "length (scanned_rest bs) \<le> length bs"
  by (induction bs rule: scanned_rest.induct) auto

text \<open>The bytes that reach the last three branches of the scan.\<close>

function scanned_bytes :: "bytes \<Rightarrow> bytes" where
  "scanned_bytes [] = []"
| "scanned_bytes (b # bs) =
     (if b = 39 \<or> b = 34 then scanned_bytes (drop_quoted b bs)
      else if b = 45 \<and> take 1 bs = [45] then scanned_bytes (drop_line (tl bs))
      else if b = 47 \<and> take 1 bs = [42] then scanned_bytes (scanned_rest (tl bs))
      else b # scanned_bytes bs)"
  by pat_completeness auto
termination
  by (relation "measure length")
    (simp_all add: le_imp_less_Suc length_drop_quoted order.trans [OF length_drop_line] order.trans [OF length_scanned_rest])

text \<open>The deepest level reached, starting at level \<open>d\<close>; a closing parenthesis too many is ignored.\<close>

primrec peak :: "nat \<Rightarrow> bytes \<Rightarrow> nat" where
  "peak d [] = 0"
| "peak d (b # bs) = (if b = 40 then max (Suc d) (peak (Suc d) bs) else if b = 41 then peak (d - 1) bs else peak d bs)"

subsection \<open>The scanner returns and computes the reference\<close>

lemma drop_Cons: "i < length xs \<Longrightarrow> drop i xs = xs ! i # drop (Suc i) xs"
  by (simp add: Cons_nth_drop_Suc)

lemma skip_quoted_drop:
  assumes "i \<le> length bs"
  shows "\<exists>j. skip_quoted q bs i = Some j \<and> i \<le> j \<and> j \<le> length bs \<and> drop j bs = drop_quoted q (drop i bs)"
  using assms
proof (induction "length bs - i" arbitrary: i rule: less_induct)
  case less
  have IH: "\<exists>j. skip_quoted q bs k = Some j \<and> k \<le> j \<and> j \<le> length bs \<and> drop j bs = drop_quoted q (drop k bs)"
    if "i < k" "k \<le> length bs" for k
    using that by (intro less) simp_all
  show ?case
  proof (cases "i < length bs")
    case False
    with less(2) show ?thesis by (subst skip_quoted.simps) simp
  next
    case i: True
    note s = skip_quoted.simps [of q bs i] and d = drop_Cons [OF i]
    consider (escaped) "bs ! i = q" "i + 1 < length bs" "bs ! (i + 1) = q" | (closing) "bs ! i = q" "\<not> (i + 1 < length bs \<and> bs ! (i + 1) = q)"
      | (inside) "bs ! i \<noteq> q" by blast
    then show ?thesis
    proof cases
      case escaped
      then have "skip_quoted q bs i = skip_quoted q bs (i + 2)" using i by (simp add: s)
      moreover have "drop_quoted q (drop i bs) = drop_quoted q (drop (i + 2) bs)"
        using escaped drop_Cons [of "Suc i" bs] by (simp add: d)
      ultimately show ?thesis using IH [of "i + 2"] escaped(2) by auto
    next
      case closing
      then have "skip_quoted q bs i = Some (i + 1)" using i by (auto simp: s)
      moreover have "drop_quoted q (drop i bs) = drop (i + 1) bs"
        using closing by (cases "i + 1 < length bs") (simp_all add: d drop_Cons [of "Suc i" bs])
      ultimately show ?thesis using i by simp
    next
      case inside
      then have "skip_quoted q bs i = skip_quoted q bs (i + 1)" "drop_quoted q (drop i bs) = drop_quoted q (drop (i + 1) bs)"
        using i by (simp_all add: s d)
      with IH [of "i + 1"] i show ?thesis by auto
    qed
  qed
qed

lemma skip_line_drop:
  assumes "i \<le> length bs"
  shows "\<exists>j. skip_line bs i = Some j \<and> i \<le> j \<and> j \<le> length bs \<and> drop j bs = drop_line (drop i bs)"
  using assms
proof (induction "length bs - i" arbitrary: i rule: less_induct)
  case less
  show ?case
  proof (cases "i < length bs \<and> bs ! i \<noteq> 10")
    case True
    then have "length bs - (i + 1) < length bs - i" by (intro diff_less_mono2) simp_all
    with True obtain j where "skip_line bs (i + 1) = Some j" "i + 1 \<le> j" "j \<le> length bs" "drop j bs = drop_line (drop (i + 1) bs)"
      using less(1) [of "i + 1"] by (metis Suc_eq_plus1 Suc_leI less_imp_le)
    moreover have "drop_line (drop i bs) = drop_line (drop (i + 1) bs)" using True by (simp add: drop_Cons drop_line_def)
    moreover have "skip_line bs i = skip_line bs (i + 1)" using True by (subst skip_line.simps) (simp only: if_True simp_thms)
    ultimately show ?thesis by (intro exI [of _ j]) simp
  next
    case False
    let ?j = "if i < length bs then i + 1 else i"
    have "drop_line (drop i bs) = drop ?j bs"
      using False by (cases "i < length bs") (simp_all add: drop_Cons drop_line_def)
    moreover have "skip_line bs i = Some ?j" using False by (subst skip_line.simps) (simp only: if_False)
    ultimately show ?thesis using less(2) by (intro exI [of _ ?j]) simp
  qed
qed

lemma skip_block_drop:
  assumes "i \<le> length bs"
  shows "\<exists>j. skip_block bs i = Some j \<and> i \<le> j \<and> j \<le> length bs \<and> drop j bs = scanned_rest (drop i bs)"
  using assms
proof (induction "length bs - i" arbitrary: i rule: less_induct)
  case less
  show ?case
  proof (cases "i + 1 < length bs")
    case True
    then have "length bs - (i + 1) < length bs - i" by (intro diff_less_mono2) simp_all
    with True obtain j where j: "skip_block bs (i + 1) = Some j" "i + 1 \<le> j" "j \<le> length bs" "drop j bs = scanned_rest (drop (i + 1) bs)"
      using less(1) [of "i + 1"] by (metis Suc_eq_plus1 Suc_leI less_imp_le)
    have d: "scanned_rest (drop i bs) = (if bs ! i = 42 \<and> bs ! (i + 1) = 47 then drop (i + 2) bs else scanned_rest (drop (i + 1) bs))"
      using True by (simp add: drop_Cons)
    have "skip_block bs i = (if bs ! i = 42 \<and> bs ! (i + 1) = 47 then Some (i + 2) else Some j)"
      using True j(1) by (subst skip_block.simps) (simp only: if_True)
    with d j True show ?thesis by (intro exI [of _ "if bs ! i = 42 \<and> bs ! (i + 1) = 47 then i + 2 else j"]) (auto simp del: scanned_rest.simps)
  next
    case False
    with less(2) have "drop i bs = [] \<or> (\<exists>b. drop i bs = [b])"
      by (cases "i < length bs") (auto simp: drop_Cons)
    moreover have "skip_block bs i = Some i" using False by (subst skip_block.simps) (simp only: if_False)
    ultimately show ?thesis using less(2) by auto
  qed
qed

lemma scan_sql_spec:
  assumes "i \<le> length bs" "d \<le> m" "m \<le> MAX_NESTING_DEPTH"
  shows "scan_sql bs i d m =
     Some (if peak d (scanned_bytes (drop i bs)) > MAX_NESTING_DEPTH then Inl (NestingTooDeep (Suc MAX_NESTING_DEPTH) MAX_NESTING_DEPTH)
           else Inr ())"
  using assms
proof (induction "length bs - i" arbitrary: i d m rule: less_induct)
  case less
  show ?case
  proof (cases "i < length bs")
    case False
    then show ?thesis by (subst scan_sql.simps) simp
  next
    case i: True
    have IH: "scan_sql bs j d' m' =
        Some (if peak d' (scanned_bytes (drop j bs)) > MAX_NESTING_DEPTH then Inl (NestingTooDeep (Suc MAX_NESTING_DEPTH) MAX_NESTING_DEPTH)
           else Inr ())" if "i < j" "j \<le> length bs" "d' \<le> m'" "m' \<le> MAX_NESTING_DEPTH" for j d' m'
      using that i by (intro less) simp_all
    have next1: "i + 1 < length bs \<and> bs ! (i + 1) = c \<longleftrightarrow> take 1 (drop (Suc i) bs) = [c]" for c
      by (cases "i + 1 < length bs") (simp_all add: drop_Cons)
    have tl: "tl (drop (Suc i) bs) = drop (i + 2) bs" by (simp add: tl_drop drop_Suc [symmetric])
    note s = scan_sql.simps [of bs i d m] and dr = drop_Cons [OF i]
    consider (quote) "bs ! i = 39 \<or> bs ! i = 34" | (line) "bs ! i = 45 \<and> i + 1 < length bs \<and> bs ! (i + 1) = 45"
      | (block) "bs ! i = 47 \<and> i + 1 < length bs \<and> bs ! (i + 1) = 42"
      | (other) "bs ! i \<noteq> 39" "bs ! i \<noteq> 34" "\<not> (bs ! i = 45 \<and> i + 1 < length bs \<and> bs ! (i + 1) = 45)"
        "\<not> (bs ! i = 47 \<and> i + 1 < length bs \<and> bs ! (i + 1) = 42)" by blast
    then show ?thesis
    proof cases
      case quote
      obtain j where j: "skip_quoted (bs ! i) bs (i + 1) = Some j" "i + 1 \<le> j" "j \<le> length bs"
        "drop j bs = drop_quoted (bs ! i) (drop (Suc i) bs)"
        using skip_quoted_drop [of "i + 1" bs "bs ! i"] i by auto
      from quote i j(1) have "scan_sql bs i d m = scan_sql bs j d m" by (auto simp: s)
      moreover have "scanned_bytes (drop i bs) = scanned_bytes (drop j bs)" using quote by (simp only: dr scanned_bytes.simps if_True j(4))
      ultimately show ?thesis using j(2,3) less(3,4) IH [of j d m] by simp
    next
      case line
      obtain j where j: "skip_line bs (i + 2) = Some j" "i + 2 \<le> j" "j \<le> length bs" "drop j bs = drop_line (drop (i + 2) bs)"
        using skip_line_drop [of "i + 2" bs] line by auto
      from line i j(1) have "scan_sql bs i d m = scan_sql bs j d m" by (simp add: s)
      moreover have "scanned_bytes (drop i bs) = scanned_bytes (drop j bs)" using line next1 [of 45] by (simp add: dr tl j(4))
      ultimately show ?thesis using j(2,3) less(3,4) IH [of j d m] by simp
    next
      case block
      obtain j where j: "skip_block bs (i + 2) = Some j" "i + 2 \<le> j" "j \<le> length bs" "drop j bs = scanned_rest (drop (i + 2) bs)"
        using skip_block_drop [of "i + 2" bs] block by auto
      from block i j(1) have "scan_sql bs i d m = scan_sql bs j d m" by (simp add: s)
      moreover have "scanned_bytes (drop i bs) = scanned_bytes (drop j bs)" using block next1 [of 42] by (simp add: dr tl j(4))
      ultimately show ?thesis using j(2,3) less(3,4) IH [of j d m] by simp
    next
      case other
      then have c: "scanned_bytes (drop i bs) = bs ! i # scanned_bytes (drop (Suc i) bs)"
        unfolding dr using next1 [of 45] next1 [of 42] by auto
      have "scan_sql bs i d m = (if bs ! i = 40 then if max m (d + 1) > MAX_NESTING_DEPTH
          then Some (Inl (NestingTooDeep (max m (d + 1)) MAX_NESTING_DEPTH)) else scan_sql bs (i + 1) (d + 1) (max m (d + 1))
        else if bs ! i = 41 then scan_sql bs (i + 1) (d - 1) m else scan_sql bs (i + 1) d m)"
        unfolding s using other i by (simp only: if_True if_False simp_thms)
      with c i less(3,4) IH [of "i + 1" "d + 1" "max m (d + 1)"] IH [of "i + 1" "d - 1" m] IH [of "i + 1" d m]
      show ?thesis by (cases "bs ! i = 40"; cases "bs ! i = 41"; cases "d + 1 > MAX_NESTING_DEPTH") (simp_all add: max_def)
    qed
  qed
qed

subsection \<open>The reference: nesting of the text outside literals and comments\<close>

text \<open>The text after a block comment, which goes to the end where it is not closed.\<close>

fun comment_rest :: "bytes \<Rightarrow> bytes" where
  "comment_rest (a # b # bs) = (if a = 42 \<and> b = 47 then bs else comment_rest (b # bs))"
| "comment_rest bs = []"

fun comment_closed :: "bytes \<Rightarrow> bool" where
  "comment_closed (a # b # bs) \<longleftrightarrow> a = 42 \<and> b = 47 \<or> comment_closed (b # bs)"
| "comment_closed bs \<longleftrightarrow> False"

lemma length_comment_rest: "length (comment_rest bs) \<le> length bs"
  by (induction bs rule: comment_rest.induct) auto

function code_bytes :: "bytes \<Rightarrow> bytes" where
  "code_bytes [] = []"
| "code_bytes (b # bs) =
     (if b = 39 \<or> b = 34 then code_bytes (drop_quoted b bs)
      else if b = 45 \<and> take 1 bs = [45] then code_bytes (drop_line (tl bs))
      else if b = 47 \<and> take 1 bs = [42] then code_bytes (comment_rest (tl bs))
      else b # code_bytes bs)"
  by pat_completeness auto
termination
  by (relation "measure length")
    (simp_all add: le_imp_less_Suc length_drop_quoted order.trans [OF length_drop_line] order.trans [OF length_comment_rest])

text \<open>The last byte of the text where it ends inside a block comment that has a byte after \<^verbatim>\<open>/*\<close>.\<close>

function open_comment_end :: "bytes \<Rightarrow> bytes" where
  "open_comment_end [] = []"
| "open_comment_end (b # bs) =
     (if b = 39 \<or> b = 34 then open_comment_end (drop_quoted b bs)
      else if b = 45 \<and> take 1 bs = [45] then open_comment_end (drop_line (tl bs))
      else if b = 47 \<and> take 1 bs = [42]
      then if comment_closed (tl bs) then open_comment_end (comment_rest (tl bs)) else rev (take 1 (rev (tl bs)))
      else open_comment_end bs)"
  by pat_completeness auto
termination
  by (relation "measure length")
    (simp_all add: le_imp_less_Suc length_drop_quoted order.trans [OF length_drop_line] order.trans [OF length_comment_rest])

lemma scanned_rest_closed: "comment_closed bs \<Longrightarrow> scanned_rest bs = comment_rest bs"
  by (induction bs rule: comment_rest.induct) auto

lemma scanned_rest_open: "\<not> comment_closed bs \<Longrightarrow> scanned_rest bs = rev (take 1 (rev bs)) \<and> comment_rest bs = []"
proof (induction bs rule: comment_rest.induct)
  case (1 a b bs)
  then show ?case by (cases "rev bs") auto
qed simp_all

lemma peak_end: "peak d (scanned_bytes (rev (take 1 (rev bs)))) = peak d (rev (take 1 (rev bs)))"
  by (cases "rev bs") simp_all

lemma peak_scanned: "peak d (scanned_bytes bs) = peak d (code_bytes bs @ open_comment_end bs)"
proof (induction bs arbitrary: d rule: length_induct)
  case (1 bs)
  have IH: "peak d (scanned_bytes cs) = peak d (code_bytes cs @ open_comment_end cs)" if "length cs < length bs" for cs d
    using 1 that by blast
  show ?case
  proof (cases bs)
    case (Cons b cs)
    have l: "length (drop_quoted b cs) < length bs" "length (drop_line (tl cs)) < length bs" "length (comment_rest (tl cs)) < length bs"
      "length cs < length bs"
      using length_drop_quoted [of b cs] length_drop_line [of "tl cs"] length_comment_rest [of "tl cs"] by (simp_all add: Cons)
    consider (quote) "b = 39 \<or> b = 34" | (line) "\<not> (b = 39 \<or> b = 34)" "b = 45 \<and> take 1 cs = [45]"
      | (block) "\<not> (b = 39 \<or> b = 34)" "\<not> (b = 45 \<and> take 1 cs = [45])" "b = 47 \<and> take 1 cs = [42]"
      | (other) "\<not> (b = 39 \<or> b = 34)" "\<not> (b = 45 \<and> take 1 cs = [45])" "\<not> (b = 47 \<and> take 1 cs = [42])" by blast
    then show ?thesis
    proof cases
      case quote
      then show ?thesis unfolding Cons scanned_bytes.simps code_bytes.simps open_comment_end.simps by (simp only: if_True IH [OF l(1)])
    next
      case line
      then show ?thesis unfolding Cons scanned_bytes.simps code_bytes.simps open_comment_end.simps
        by (simp add: IH [OF l(2)])
    next
      case block
      show ?thesis
      proof (cases "comment_closed (tl cs)")
        case True
        with block show ?thesis unfolding Cons scanned_bytes.simps code_bytes.simps open_comment_end.simps
          by (simp add: scanned_rest_closed IH [OF l(3)])
      next
        case False
        with block show ?thesis unfolding Cons scanned_bytes.simps code_bytes.simps open_comment_end.simps
          using scanned_rest_open [OF False] peak_end [of d "tl cs"] by simp
      qed
    next
      case other
      then show ?thesis unfolding Cons scanned_bytes.simps code_bytes.simps open_comment_end.simps
        by (simp only: if_False append_Cons peak.simps IH [OF l(4)])
    qed
  qed simp
qed

text \<open>
  C26: the check before the parser returns on every query.  It reports a query of more than 64 KiB, and one whose
  parentheses are nested more than 20 deep, where the parentheses counted are those outside string literals, quoted
  identifiers and comments and, in a query that ends inside a block comment that is not closed, the last byte
  of that comment as well; every other query is accepted.
\<close>

theorem query_guard_terminates:
  "check_query_limits bs = Some (if length bs > MAX_SQL_BYTES then Inl (QueryTooLong (length bs) MAX_SQL_BYTES)
     else if peak 0 (code_bytes bs @ open_comment_end bs) > MAX_NESTING_DEPTH
     then Inl (NestingTooDeep (Suc MAX_NESTING_DEPTH) MAX_NESTING_DEPTH)
     else Inr ())"
  by (simp add: check_query_limits_def scan_sql_spec peak_scanned)

end
