(* ===== verification/Sql_Plan.thy ===== *)
theory Sql_Plan
  imports Sql_Guard Crypto
begin

text \<open>
  \<^verbatim>\<open>crates/vledger-sql\<close>: query results (\<^verbatim>\<open>result.rs\<close>), logical plans (the types of
  \<^verbatim>\<open>planner.rs\<close>) and the optimizer (\<^verbatim>\<open>optimizer.rs\<close>).

  The planner translates the syntax tree of the \<^verbatim>\<open>sqlparser\<close> crate, whose types are not part of
  the repository; plans are the input of the model.  The \<^verbatim>\<open>i128\<close> values are integers, and \<^verbatim>\<open>Row::new\<close>
  returns \<open>None\<close> where its assertion panics.
\<close>

subsection \<open>Results\<close>

datatype sql_value = VNull | VInt i64 | VBigInt int | VText string | VBool bool | VTimestamp string | VHash string | VUuid string

definition int_string :: "int \<Rightarrow> string" where
  "int_string n = (if n < 0 then CHR ''-'' # dec_string (nat (- n)) else dec_string (nat n))"

fun value_string :: "sql_value \<Rightarrow> string" where
  "value_string VNull = ''NULL''"
| "value_string (VInt n) = int_string (sint n)"
| "value_string (VBigInt n) = int_string n"
| "value_string (VText s) = s"
| "value_string (VBool b) = (if b then ''true'' else ''false'')"
| "value_string (VTimestamp s) = s"
| "value_string (VHash s) = s"
| "value_string (VUuid s) = s"

fun position :: "('a \<Rightarrow> bool) \<Rightarrow> 'a list \<Rightarrow> nat option" where
  "position P [] = None"
| "position P (x # xs) = (if P x then Some 0 else map_option Suc (position P xs))"

record row =
  row_columns :: "string list"
  row_values :: "sql_value list"

definition row_new :: "string list \<Rightarrow> sql_value list \<Rightarrow> row option" where
  "row_new columns values = (if length columns = length values then Some \<lparr> row_columns = columns, row_values = values \<rparr> else None)"

text \<open>A row has as many values as columns, so the index is in range.\<close>

definition row_get :: "row \<Rightarrow> string \<Rightarrow> sql_value option" where
  "row_get r col = (case position (\<lambda>c. c = col) (row_columns r) of None \<Rightarrow> None
     | Some i \<Rightarrow> if i < length (row_values r) then Some (row_values r ! i) else None)"

record leaf_proof =
  lp_leaf_index :: nat
  lp_leaf_hash :: hash
  lp_path :: "proof_step list"

record query_proof =
  qp_root :: hash
  qp_leaf_proofs :: "leaf_proof list"
  qp_root_signature :: "bytes option"
  qp_signing_public_key :: "bytes option"

record query_result =
  qr_columns :: "string list"
  qr_rows :: "row list"
  qr_rows_affected :: nat
  qr_proof :: "query_proof option"
  qr_message :: string
  qr_entry_id :: "uuid option"
  qr_entry_sequence :: "u64 option"
  qr_domain :: "string option"
  qr_amount_sum :: "i64 option"

definition result_rows :: "string list \<Rightarrow> row list \<Rightarrow> string \<Rightarrow> query_result" where
  "result_rows columns rows message = \<lparr> qr_columns = columns, qr_rows = rows, qr_rows_affected = length rows, qr_proof = None,
     qr_message = message, qr_entry_id = None, qr_entry_sequence = None, qr_domain = None, qr_amount_sum = None \<rparr>"

definition result_empty :: "string \<Rightarrow> query_result" where
  "result_empty message = result_rows [] [] message"

definition result_project :: "string list \<Rightarrow> query_result \<Rightarrow> query_result option" where
  "result_project keep r =
     (if keep = [] then Some r
      else let new_cols = filter (\<lambda>c. c \<in> set (qr_columns r)) keep
           in if length new_cols = length (qr_columns r) then Some r
              else map_option (\<lambda>rows. r\<lparr>qr_columns := new_cols, qr_rows := rows\<rparr>)
                (those (map (\<lambda>x. row_new new_cols (map (\<lambda>c. case row_get x c of None \<Rightarrow> VNull | Some v \<Rightarrow> v) new_cols)) (qr_rows r))))"

subsection \<open>Plans\<close>

datatype join_type = InnerJoin | LeftOuterJoin

datatype agg_fn = AggSum | AggCount | AggAvg | AggMin | AggMax

record agg_expr =
  ax_func :: agg_fn
  ax_column :: string
  ax_alias :: string

datatype window_fn = RowNumber | Rank | DenseRank | RunningSum | RunningAvg | Lag | Lead

record account_spec =
  as_code :: string
  as_name :: string
  as_account_type :: string
  as_currency :: string
  as_domain :: string

record entry_spec =
  es_description :: string
  es_debit_account :: string
  es_credit_account :: string
  es_amount :: i64
  es_currency :: string
  es_external_ref :: "string option"
  es_idempotency_key :: "string option"
  es_domain :: string

datatype entry_filter =
    BySequence u64
  | ByExternalRef string
  | ByDomain string
  | ByStatus string
  | ByDrCr string
  | Limit nat
  | ByAccountId string
  | ByAccountCode string
  | ByAccountName string
  | BySequenceIn "u64 list"
  | ByValueIn string "string list"
  | ByMetadataEq string
  | ByMetadataContains string
  | ByMetadataSearch string

datatype logical_plan =
    ScanEntries "entry_filter option" "string list"
  | ScanLedgerLines "entry_filter option" "string list"
  | ScanAccounts "entry_filter option" "string list"
  | GetBalance string
  | VerifyChain "u64 option" "u64 option"
  | VerifyEntry u64
  | MerkleRoot u64 u64
  | Constant string string
  | PostEntry entry_spec
  | CreateAccount account_spec
  | Join logical_plan logical_plan join_type string "string list"
  | Aggregate logical_plan "string list" "agg_expr list"
  | Window logical_plan window_fn string string "string list" "string list"

definition write_plan :: "logical_plan \<Rightarrow> bool" where
  "write_plan p = (case p of PostEntry _ \<Rightarrow> True | CreateAccount _ \<Rightarrow> True | _ \<Rightarrow> False)"

subsection \<open>The optimizer\<close>

fun predicate_pushdown :: "logical_plan \<Rightarrow> logical_plan" where
  "predicate_pushdown (Join l r ty cond ps) = Join (predicate_pushdown l) (predicate_pushdown r) ty cond ps"
| "predicate_pushdown (Aggregate i g a) = Aggregate (predicate_pushdown i) g a"
| "predicate_pushdown (Window i f c a pb ob) = Window (predicate_pushdown i) f c a pb ob"
| "predicate_pushdown p = p"

fun constant_fold :: "logical_plan \<Rightarrow> logical_plan" where
  "constant_fold (ScanEntries (Some (Limit 0)) ps) = ScanEntries (Some (Limit 0)) ps"
| "constant_fold (Join l r ty cond ps) = Join (constant_fold l) (constant_fold r) ty cond ps"
| "constant_fold (Aggregate i g a) = Aggregate (constant_fold i) g a"
| "constant_fold (Window i f c a pb ob) = Window (constant_fold i) f c a pb ob"
| "constant_fold p = p"

definition optimize :: "logical_plan \<Rightarrow> logical_plan" where
  "optimize p = constant_fold (predicate_pushdown p)"

text \<open>Neither pass changes a plan.\<close>

lemma optimize_id [simp]: "optimize p = p"
proof -
  have "predicate_pushdown p = p" by (induction p) simp_all
  moreover have "constant_fold p = p" by (induction p rule: constant_fold.induct) simp_all
  ultimately show ?thesis by (simp add: optimize_def)
qed

subsection \<open>Well-formed results\<close>

text \<open>Every row has the columns of the result and one value for each.\<close>

definition row_wf :: "string list \<Rightarrow> row \<Rightarrow> bool" where
  "row_wf columns r \<longleftrightarrow> row_columns r = columns \<and> length (row_values r) = length columns"

definition result_wf :: "query_result \<Rightarrow> bool" where
  "result_wf r \<longleftrightarrow> (\<forall>x\<in>set (qr_rows r). row_wf (qr_columns r) x)"

lemma row_new_wf: "row_new columns values = Some r \<Longrightarrow> row_wf columns r"
  by (auto simp: row_new_def row_wf_def split: if_splits)

lemma those_Some: "those xs = Some ys \<longleftrightarrow> xs = map Some ys"
proof (induction xs arbitrary: ys)
  case (Cons x xs)
  show ?case
  proof (cases x)
    case (Some y)
    then have "those (x # xs) = Some ys \<longleftrightarrow> (\<exists>zs. those xs = Some zs \<and> ys = y # zs)" by (cases "those xs") auto
    also have "\<dots> \<longleftrightarrow> x # xs = map Some ys" unfolding Cons.IH using Some by (cases ys) auto
    finally show ?thesis .
  qed auto
qed auto

lemma those_wf:
  assumes "those (map (\<lambda>x. row_new cols (f x)) xs) = Some rs"
  shows "list_all (row_wf cols) rs"
  using assms
proof (induction xs arbitrary: rs)
  case (Cons x xs)
  then obtain r rs' where "row_new cols (f x) = Some r" "those (map (\<lambda>x. row_new cols (f x)) xs) = Some rs'" "rs = r # rs'"
    by (auto split: option.splits)
  with Cons.IH row_new_wf show ?case by simp
qed simp

lemma those_rows:
  assumes "\<And>x. x \<in> set xs \<Longrightarrow> length (f x) = length cols"
  shows "those (map (\<lambda>x. row_new cols (f x)) xs) = Some (map (\<lambda>x. \<lparr> row_columns = cols, row_values = f x \<rparr>) xs)"
  using assms by (induction xs) (simp_all add: row_new_def)

lemma project_total:
  assumes "result_wf r"
  shows "\<exists>r'. result_project keep r = Some r' \<and> result_wf r' \<and> length (qr_rows r') = length (qr_rows r)"
proof -
  define f where "f new_cols x = map (\<lambda>c. case row_get x c of None \<Rightarrow> VNull | Some v \<Rightarrow> v) new_cols" for new_cols x
  have "those (map (\<lambda>x. row_new cs (f cs x)) (qr_rows r)) =
      Some (map (\<lambda>x. \<lparr> row_columns = cs, row_values = f cs x \<rparr>) (qr_rows r))" for cs
    by (rule those_rows) (simp add: f_def)
  with assms show ?thesis
    unfolding result_project_def Let_def f_def [symmetric] by (simp add: result_wf_def row_wf_def) (simp add: f_def)
qed

end
