(* ===== verification/Sql_Exec.thy ===== *)
theory Sql_Exec
  imports Sql_Plan Ledger_Store "HOL-Library.List_Lexorder" "HOL-Library.Char_ord" "HOL-Library.Signed_Division"
begin

text \<open>
  \<^verbatim>\<open>crates/vledger-sql/src/executor.rs\<close>: the read executor and the write executor on the ledger
  store.

  Results are options of sums: \<open>None\<close> is a panic of \<^verbatim>\<open>Row::new\<close>, \<open>Inl\<close> an error.  Parameters are the
  date formats of \<^verbatim>\<open>chrono\<close>, \<^verbatim>\<open>Uuid::parse_str\<close>, the full-text index of SQLite and the texts of
  ledger errors.
\<close>

record sql_env =
  qe_env :: env
  qe_rfc3339 :: "timestamp \<Rightarrow> string"
  qe_date :: "timestamp \<Rightarrow> string"
  qe_parse_uuid :: "string \<Rightarrow> uuid option"
  qe_search_metadata :: "entry_db \<Rightarrow> string \<Rightarrow> nat \<Rightarrow> journal_entry list"
  qe_error_text :: "ledger_error \<Rightarrow> string"

type_synonym sql_result = "(sql_error + query_result) option"

definition and_result :: "('e + 'a) option \<Rightarrow> ('a \<Rightarrow> ('e + 'b) option) \<Rightarrow> ('e + 'b) option" where
  "and_result x f = (case x of None \<Rightarrow> None | Some (Inl e) \<Rightarrow> Some (Inl e) | Some (Inr a) \<Rightarrow> f a)"

text \<open>Rows built one after the other; the first failing assertion panics.\<close>

definition build_rows :: "string list \<Rightarrow> sql_value list list \<Rightarrow> row list option" where
  "build_rows cols vss = those (map (row_new cols) vss)"

definition rows_result :: "string list \<Rightarrow> sql_value list list \<Rightarrow> (nat \<Rightarrow> string) \<Rightarrow> sql_result" where
  "rows_result cols vss message = map_option (\<lambda>rows. Inr (result_rows cols rows (message (length rows)))) (build_rows cols vss)"

fun join_with :: "string \<Rightarrow> string list \<Rightarrow> string" where
  "join_with sep [] = []"
| "join_with sep [x] = x"
| "join_with sep (x # y # xs) = x @ sep @ join_with sep (y # xs)"

definition quoted :: "string \<Rightarrow> string" where
  "quoted s = CHR 0x27 # s @ [CHR 0x27]"

definition em_dash :: string where
  "em_dash = [CHR 0xE2, CHR 0x80, CHR 0x94]"

definition DEFAULT_SCAN_LIMIT :: nat where "DEFAULT_SCAN_LIMIT = 10000"

definition bigint_u64 :: "u64 \<Rightarrow> sql_value" where
  "bigint_u64 n = VBigInt (uint n)"

fun dr_cr_name :: "dr_cr \<Rightarrow> string" where
  "dr_cr_name Debit = ''Debit''"
| "dr_cr_name Credit = ''Credit''"

fun account_type_name :: "account_type \<Rightarrow> string" where
  "account_type_name Asset = ''Asset''"
| "account_type_name Liability = ''Liability''"
| "account_type_name Equity = ''Equity''"
| "account_type_name Income = ''Income''"
| "account_type_name Expense = ''Expense''"
| "account_type_name Contra = ''Contra''"
| "account_type_name Suspense = ''Suspense''"

fun account_status_name :: "account_status \<Rightarrow> string" where
  "account_status_name AccountActive = ''Active''"
| "account_status_name AccountIsClosed = ''Closed''"
| "account_status_name AccountFrozen = ''Frozen''"

definition unwrap_or_default :: "string option \<Rightarrow> string" where
  "unwrap_or_default o1 = (case o1 of None \<Rightarrow> [] | Some s \<Rightarrow> s)"

subsection \<open>Proofs\<close>

definition build_merkle_proof :: "(bytes \<Rightarrow> hash) \<Rightarrow> bytes list \<Rightarrow> nat list \<Rightarrow> (bytes \<Rightarrow> (bytes \<times> bytes) option) \<Rightarrow> query_proof" where
  "build_merkle_proof b3 all_leaves indices sign_root =
     (let root = merkle_root b3 all_leaves
      in \<lparr> qp_root = root,
           qp_leaf_proofs = List.map_filter (\<lambda>idx. if idx \<ge> length all_leaves then None
             else map_option (\<lambda>p. \<lparr> lp_leaf_index = mp_leaf_index p, lp_leaf_hash = mp_leaf_hash p, lp_path = mp_path p \<rparr>)
               (merkle_proof b3 all_leaves idx)) indices,
           qp_root_signature = map_option fst (sign_root (hash_raw root)),
           qp_signing_public_key = map_option snd (sign_root (hash_raw root)) \<rparr>)"

subsection \<open>Scans of the ledger\<close>

text \<open>The entries a scan reads, and whether the default limit cut them off.\<close>

definition explicit_limit :: "entry_filter option \<Rightarrow> nat option" where
  "explicit_limit f = (case f of Some (Limit n) \<Rightarrow> Some n | _ \<Rightarrow> None)"

definition limit_of :: "entry_filter option \<Rightarrow> nat" where
  "limit_of f = (case explicit_limit f of Some n \<Rightarrow> n | None \<Rightarrow> DEFAULT_SCAN_LIMIT)"

text \<open>The callback of \<^verbatim>\<open>stream_entries\<close> that collects matching entries up to a limit.\<close>

definition collect_matching :: "(journal_entry \<Rightarrow> bool) \<Rightarrow> nat \<Rightarrow> ledger_store \<Rightarrow> journal_entry list" where
  "collect_matching P limit s = fst (stream_all (\<lambda>acc e.
     if length acc \<ge> limit then (acc, Inl (LSerialization ''limit''))
     else (if P e then acc @ [e] else acc, Inr ())) [] (ls_db s))"

fun contains :: "string \<Rightarrow> string \<Rightarrow> bool" where
  "contains [] needle \<longleftrightarrow> needle = []"
| "contains (c # cs) needle \<longleftrightarrow> take (length needle) (c # cs) = needle \<or> contains cs needle"

definition metadata_matches :: "(string \<Rightarrow> bool) \<Rightarrow> journal_entry \<Rightarrow> bool" where
  "metadata_matches P e = (case je_metadata e of None \<Rightarrow> False | Some m \<Rightarrow> P m)"

definition select_entries :: "sql_env \<Rightarrow> entry_filter option \<Rightarrow> ledger_store \<Rightarrow> journal_entry list" where
  "select_entries Q f s = (case f of
       Some (BySequence sq) \<Rightarrow> (case get_entry_by_sequence s sq of Some e \<Rightarrow> [e] | None \<Rightarrow> [])
     | Some (BySequenceIn sqs) \<Rightarrow> sort_key je_sequence (List.map_filter (get_entry_by_sequence s) sqs)
     | Some (ByDomain d) \<Rightarrow> entries_by_domain_limited s d (limit_of f)
     | Some (ByStatus st) \<Rightarrow> entries_by_status_limited s st (limit_of f)
     | Some (ByExternalRef r) \<Rightarrow> entries_by_external_ref s r
     | Some (ByMetadataSearch q) \<Rightarrow> qe_search_metadata Q (ls_db s) q (limit_of f)
     | Some (ByMetadataEq m) \<Rightarrow> collect_matching (metadata_matches (\<lambda>x. x = m)) (limit_of f) s
     | Some (ByMetadataContains m) \<Rightarrow>
         collect_matching (metadata_matches (\<lambda>x. contains (to_lowercase x) (to_lowercase m))) (limit_of f) s
     | _ \<Rightarrow> entries_scan s (limit_of f))"

definition cap_applied :: "entry_filter option \<Rightarrow> journal_entry list \<Rightarrow> bool" where
  "cap_applied f matched = (case f of
       Some (ByDomain d) \<Rightarrow> length matched = limit_of f
     | Some (ByStatus st) \<Rightarrow> length matched = limit_of f
     | Some (BySequence _) \<Rightarrow> False
     | Some (BySequenceIn _) \<Rightarrow> False
     | Some (ByExternalRef _) \<Rightarrow> False
     | Some (ByMetadataSearch _) \<Rightarrow> False
     | Some (ByMetadataEq _) \<Rightarrow> False
     | Some (ByMetadataContains _) \<Rightarrow> False
     | _ \<Rightarrow> explicit_limit f = None \<and> length matched = limit_of f)"

definition ENTRY_COLS :: "string list" where
  "ENTRY_COLS = [''sequence'', ''id'', ''status'', ''description'', ''domain'', ''effective_at'', ''posted_at'', ''external_ref'',
     ''content_hash'', ''chain_hash'', ''lines'', ''metadata'']"

definition line_text :: "journal_line \<Rightarrow> string" where
  "line_text l = uuid_string (jl_account_id l) @ '': '' @ dr_cr_name (jl_dr_cr l) @ '' '' @
     int_string (amount_as_i64 (jl_amount l)) @ '' '' @ jl_currency_code l"

definition entry_values :: "sql_env \<Rightarrow> journal_entry \<Rightarrow> sql_value list" where
  "entry_values Q e = [bigint_u64 (je_sequence e), VUuid (uuid_string (je_id e)), VText (status_name (je_status e)),
     VText (je_description e), VText (je_domain e), VTimestamp (qe_rfc3339 Q (je_effective_at e)),
     VTimestamp (qe_rfc3339 Q (je_posted_at e)), VText (unwrap_or_default (je_external_ref e)),
     VHash (hex_encode (hash_raw (je_content_hash e))), VHash (hex_encode (hash_raw (je_chain_hash e))),
     VText (join_with ''; '' (map line_text (je_lines e))), VText (unwrap_or_default (je_metadata e))]"

definition capped_message :: "string \<Rightarrow> nat \<Rightarrow> string" where
  "capped_message what n = dec_string n @ '' rows (capped at '' @ dec_string DEFAULT_SCAN_LIMIT @ what @ '' '' @ em_dash @
     '' use LIMIT n or WHERE sequence = x to paginate)''"

definition build_scan_entries_result :: "sql_env \<Rightarrow> bool \<Rightarrow> ledger_store \<Rightarrow> bool \<Rightarrow> journal_entry list \<Rightarrow> sql_result" where
  "build_scan_entries_result Q attach_proofs s cap matched =
     and_result (rows_result ENTRY_COLS (map (entry_values Q) matched)
       (\<lambda>n. if cap then capped_message [] n else dec_string n @ '' rows'')) (\<lambda>r.
     let leaves = map (\<lambda>e. hash_raw (je_content_hash e)) matched
     in Some (Inr (if attach_proofs \<and> leaves \<noteq> []
          then r\<lparr>qr_proof := Some (build_merkle_proof (blake3 (eX (qe_env Q))) leaves [0..<length leaves]
                 (sign_bytes (eX (qe_env Q)) (ls_tm s)))\<rparr>
          else r)))"

definition exec_scan_entries :: "sql_env \<Rightarrow> bool \<Rightarrow> entry_filter option \<Rightarrow> ledger_store \<Rightarrow> sql_result" where
  "exec_scan_entries Q attach_proofs f s =
     (let matched = select_entries Q f s in build_scan_entries_result Q attach_proofs s (cap_applied f matched) matched)"

definition LINE_COLS :: "string list" where
  "LINE_COLS = [''date'', ''sequence'', ''entry_id'', ''description'', ''domain'', ''account_id'', ''dr_cr'', ''amount'', ''currency'',
     ''status'', ''metadata'']"

definition line_wanted :: "entry_filter option \<Rightarrow> journal_line \<Rightarrow> bool" where
  "line_wanted f l = (case f of Some (ByDrCr wanted) \<Rightarrow> to_lowercase (dr_cr_name (jl_dr_cr l)) = to_lowercase wanted | _ \<Rightarrow> True)"

definition line_values :: "sql_env \<Rightarrow> journal_entry \<Rightarrow> journal_line \<Rightarrow> sql_value list" where
  "line_values Q e l = [VText (qe_date Q (je_effective_at e)), bigint_u64 (je_sequence e), VUuid (uuid_string (je_id e)),
     VText (je_description e), VText (je_domain e), VUuid (uuid_string (jl_account_id l)), VText (dr_cr_name (jl_dr_cr l)),
     VBigInt (amount_as_i64 (jl_amount l)), VText (jl_currency_code l), VText (status_name (je_status e)),
     VText (unwrap_or_default (je_metadata e))]"

definition build_scan_ledger_lines_result :: "sql_env \<Rightarrow> entry_filter option \<Rightarrow> bool \<Rightarrow> journal_entry list \<Rightarrow> sql_result" where
  "build_scan_ledger_lines_result Q f cap es =
     rows_result LINE_COLS (concat (map (\<lambda>e. map (line_values Q e) (filter (line_wanted f) (je_lines e))) es))
       (\<lambda>n. if cap then capped_message '' entries'' n else dec_string n @ '' rows'')"

definition exec_scan_ledger_lines :: "sql_env \<Rightarrow> entry_filter option \<Rightarrow> ledger_store \<Rightarrow> sql_result" where
  "exec_scan_ledger_lines Q f s =
     (let matched = select_entries Q f s in build_scan_ledger_lines_result Q f (cap_applied f matched) matched)"

definition exec_constant :: "string \<Rightarrow> string \<Rightarrow> sql_result" where
  "exec_constant col val = rows_result [col] [[VText val]] (\<lambda>_. [])"

subsection \<open>Accounts, balances and verification\<close>

definition ACCOUNT_COLS :: "string list" where
  "ACCOUNT_COLS = [''id'', ''code'', ''name'', ''account_type'', ''currency'', ''status'', ''domain'', ''balance'']"

definition starts_with :: "string \<Rightarrow> string \<Rightarrow> bool" where
  "starts_with s p \<longleftrightarrow> take (length p) s = p"

text \<open>\<^verbatim>\<open>trim_start_matches\<close> removes the prefix as often as it occurs.\<close>

function trim_start_matches :: "string \<Rightarrow> string \<Rightarrow> string" where
  "trim_start_matches p s = (if p \<noteq> [] \<and> starts_with s p then trim_start_matches p (drop (length p) s) else s)"
  by pat_completeness auto
termination
proof (relation "measure (\<lambda>(p, s). length s)")
  show "((p, drop (length p) s), p, s) \<in> measure (\<lambda>(p, s). length s)" if "p \<noteq> [] \<and> starts_with s p" for p s
  proof -
    from that have "s \<noteq> []" by (auto simp: starts_with_def)
    with that show ?thesis by simp
  qed
qed simp

declare trim_start_matches.simps [simp del]

definition ACCOUNT_CODE_TAG :: string where "ACCOUNT_CODE_TAG = ''__account_code:''"

definition ACCOUNT_CURRENCY_TAG :: string where "ACCOUNT_CURRENCY_TAG = ''__account_currency:''"

definition account_matches :: "entry_filter option \<Rightarrow> account \<Rightarrow> bool" where
  "account_matches f a = (case f of
       None \<Rightarrow> True
     | Some (ByAccountId i) \<Rightarrow> uuid_string (acc_id a) = i
     | Some (ByAccountCode c) \<Rightarrow> acc_code a = c
     | Some (ByAccountName n) \<Rightarrow> acc_name a = n
     | Some (ByValueIn column values) \<Rightarrow>
         if column = ''id'' then uuid_string (acc_id a) \<in> set values
         else if column = ''code'' then acc_code a \<in> set values
         else if column = ''name'' then acc_name a \<in> set values
         else if column = ''domain'' then acc_domain a \<in> set values
         else if column = ''currency'' then acc_currency_code a \<in> set values
         else True
     | Some (ByDomain d) \<Rightarrow>
         if starts_with d ACCOUNT_CODE_TAG then acc_code a = trim_start_matches ACCOUNT_CODE_TAG d
         else if starts_with d ACCOUNT_CURRENCY_TAG then acc_currency_code a = trim_start_matches ACCOUNT_CURRENCY_TAG d
         else acc_domain a = d
     | _ \<Rightarrow> True)"

definition account_values :: "ledger_store \<Rightarrow> account \<Rightarrow> sql_value list" where
  "account_values s a = [VUuid (uuid_string (acc_id a)), VText (acc_code a), VText (acc_name a), VText (account_type_name (acc_type a)),
     VText (acc_currency_code a), VText (account_status_name (acc_status a)), VText (acc_domain a), VBigInt (balance s (acc_id a))]"

definition exec_scan_accounts :: "entry_filter option \<Rightarrow> ledger_store \<Rightarrow> sql_result" where
  "exec_scan_accounts f s = rows_result ACCOUNT_COLS (map (account_values s) (filter (account_matches f) (all_accounts s)))
     (\<lambda>n. dec_string n @ '' accounts'')"

definition resolve_account :: "sql_env \<Rightarrow> ledger_store \<Rightarrow> string \<Rightarrow> sql_error + account_id" where
  "resolve_account Q s r =
     (let by_code = (case find (\<lambda>a. acc_code a = r) (all_accounts s) of
          Some a \<Rightarrow> Inr (acc_id a) | None \<Rightarrow> Inl (SqlExecution (''account '' @ quoted r @ '' not found'')))
      in case qe_parse_uuid Q r of
           Some i \<Rightarrow> if get_account s i \<noteq> None then Inr i else by_code
         | None \<Rightarrow> by_code)"

definition exec_get_balance :: "sql_env \<Rightarrow> string \<Rightarrow> ledger_store \<Rightarrow> sql_result" where
  "exec_get_balance Q r s = and_result (Some (resolve_account Q s r)) (\<lambda>i.
     rows_result [''account'', ''balance''] [[VText r, VBigInt (balance s i)]] (\<lambda>_. ''balance = '' @ int_string (balance s i)))"

definition VERIFY_COLS :: "string list" where
  "VERIFY_COLS = [''status'', ''entries_verified'', ''chain_tip'']"

definition integrity_failure :: "sql_env \<Rightarrow> ledger_error \<Rightarrow> sql_result" where
  "integrity_failure Q e = Some (Inr (result_empty (''INTEGRITY FAILURE: '' @ qe_error_text Q e)))"

definition exec_verify_chain :: "sql_env \<Rightarrow> u64 option \<Rightarrow> u64 option \<Rightarrow> ledger_store \<Rightarrow> sql_result" where
  "exec_verify_chain Q from_seq to_seq s =
     (if from_seq = None \<and> to_seq = None
      then (case verify_chain_integrity (qe_env Q) s of
          Inr _ \<Rightarrow> rows_result VERIFY_COLS
            [[VText ''OK'', VBigInt (int (entry_count s)), VHash (hex_encode (hash_raw (ls_last_chain_hash s)))]]
            (\<lambda>_. ''Chain integrity verified'')
        | Inl e \<Rightarrow> integrity_failure Q e)
      else (case verify_chain_range (qe_env Q) s from_seq to_seq of
          Inr (count, tip) \<Rightarrow> rows_result VERIFY_COLS [[VText ''OK'', VBigInt (int count), VHash (hex_encode (hash_raw tip))]]
            (\<lambda>_. ''Chain range verified ('' @ dec_string count @ '' entries)'')
        | Inl e \<Rightarrow> integrity_failure Q e))"

definition exec_verify_entry :: "sql_env \<Rightarrow> u64 \<Rightarrow> ledger_store \<Rightarrow> sql_result" where
  "exec_verify_entry Q sq s = (case get_entry_by_sequence s sq of
       None \<Rightarrow> Some (Inr (result_empty (''entry with sequence '' @ dec_string (unat sq) @ '' not found'')))
     | Some e \<Rightarrow>
         let ok = verify_hashes (blake3 (eX (qe_env Q))) e
         in rows_result [''sequence'', ''status'', ''content_hash'', ''chain_hash'', ''description'']
              [[bigint_u64 (je_sequence e), VText (if ok then ''VALID'' else ''CORRUPTED''),
                VHash (hex_encode (hash_raw (je_content_hash e))), VHash (hex_encode (hash_raw (je_chain_hash e))),
                VText (je_description e)]]
              (\<lambda>_. if ok then ''Entry hash verified'' else ''INTEGRITY FAILURE: hash mismatch''))"

definition exec_merkle_root :: "sql_env \<Rightarrow> u64 \<Rightarrow> u64 \<Rightarrow> ledger_store \<Rightarrow> sql_result" where
  "exec_merkle_root Q from_seq to_seq s =
     (let cols = [''from_seq'', ''to_seq'', ''entry_count'', ''merkle_root''];
          es = entries_in_range s from_seq to_seq;
          range = ''['' @ dec_string (unat from_seq) @ '', '' @ dec_string (unat to_seq) @ '']''
      in if es = []
         then rows_result cols [[bigint_u64 from_seq, bigint_u64 to_seq, VBigInt 0, VHash (hex_encode (hash_raw ZERO_HASH))]]
                (\<lambda>_. ''No entries in range '' @ range)
         else rows_result cols [[bigint_u64 from_seq, bigint_u64 to_seq, VBigInt (int (length es)),
                VHash (hex_encode (hash_raw (merkle_root (blake3 (eX (qe_env Q))) (map (\<lambda>e. hash_raw (je_content_hash e)) es))))]]
                (\<lambda>_. ''Merkle root over '' @ dec_string (length es) @ '' entries '' @ range))"

subsection \<open>Joins\<close>

definition right_map :: "nat \<Rightarrow> row list \<Rightarrow> (string \<times> row) list" where
  "right_map key_col rows = foldl (\<lambda>m r. if key_col < length (row_values r)
     then AList.update (value_string (row_values r ! key_col)) r m else m) [] rows"

definition join_cols :: "string list \<Rightarrow> string list \<Rightarrow> string list" where
  "join_cols left right = foldl (\<lambda>cols c. if c \<in> set cols then cols else cols @ [''r_'' @ c]) left right"

definition join_key :: "row \<Rightarrow> string" where
  "join_key r = (case row_get r ''account_id'' of
       Some v \<Rightarrow> value_string v
     | None \<Rightarrow> (case row_values r of [] \<Rightarrow> [] | v # _ \<Rightarrow> value_string v))"

definition join_values :: "join_type \<Rightarrow> nat \<Rightarrow> (string \<times> row) list \<Rightarrow> row \<Rightarrow> sql_value list option" where
  "join_values ty n m r = (case (map_of m (join_key r), ty) of
       (Some x, _) \<Rightarrow> Some (row_values r @ row_values x)
     | (None, LeftOuterJoin) \<Rightarrow> Some (row_values r @ replicate n VNull)
     | (None, InnerJoin) \<Rightarrow> None)"

definition exec_join :: "join_type \<Rightarrow> query_result \<Rightarrow> query_result \<Rightarrow> sql_result" where
  "exec_join ty left right =
     (let key_col = (case position (\<lambda>c. c = ''id'' \<or> c = ''code'') (qr_columns right) of Some i \<Rightarrow> i | None \<Rightarrow> 0);
          m = right_map key_col (qr_rows right)
      in rows_result (join_cols (qr_columns left) (qr_columns right))
           (List.map_filter (join_values ty (length (qr_columns right)) m) (qr_rows left))
           (\<lambda>n. dec_string n @ '' rows (join)''))"

subsection \<open>Aggregates\<close>

definition numbers :: "nat option \<Rightarrow> row list \<Rightarrow> int list" where
  "numbers col rows = List.map_filter (\<lambda>r. case col of
       None \<Rightarrow> None
     | Some i \<Rightarrow> if i < length (row_values r)
         then (case row_values r ! i of VBigInt n \<Rightarrow> Some n | VInt n \<Rightarrow> Some (sint n) | _ \<Rightarrow> None) else None) rows"

definition compute_aggregate :: "agg_fn \<Rightarrow> nat option \<Rightarrow> row list \<Rightarrow> sql_value" where
  "compute_aggregate func col rows = (let nums = numbers col rows in case func of
       AggCount \<Rightarrow> VBigInt (int (length rows))
     | AggSum \<Rightarrow> VBigInt (sum_list nums)
     | AggMin \<Rightarrow> VBigInt (if nums = [] then 0 else Min (set nums))
     | AggMax \<Rightarrow> VBigInt (if nums = [] then 0 else Max (set nums))
     | AggAvg \<Rightarrow> if nums = [] then VNull else VBigInt (sum_list nums sdiv int (length nums)))"

definition column_text :: "string list \<Rightarrow> row \<Rightarrow> string \<Rightarrow> string" where
  "column_text cols r c = (case position (\<lambda>x. x = c) cols of
       Some i \<Rightarrow> if i < length (row_values r) then value_string (row_values r ! i) else []
     | None \<Rightarrow> [])"

definition group_key :: "string list \<Rightarrow> string list \<Rightarrow> row \<Rightarrow> string list" where
  "group_key cols group_by r = (if group_by = [] then [''__all__''] else map (column_text cols r) group_by)"

definition exec_aggregate :: "string list \<Rightarrow> agg_expr list \<Rightarrow> query_result \<Rightarrow> sql_result" where
  "exec_aggregate group_by aggregates input =
     (let key = group_key (qr_columns input) group_by
      in rows_result (group_by @ map ax_alias aggregates)
           (map (\<lambda>k. (if group_by = [] then [] else map VText k) @
              map (\<lambda>a. compute_aggregate (ax_func a) (position (\<lambda>c. c = ax_column a) (qr_columns input))
                (filter (\<lambda>r. key r = k) (qr_rows input))) aggregates)
             (sort (remdups (map key (qr_rows input)))))
           (\<lambda>n. dec_string n @ '' groups''))"

subsection \<open>Window functions\<close>

record partition_state =
  ws_running_sum :: int
  ws_running_count :: nat
  ws_row_number :: nat

definition window_number :: "nat option \<Rightarrow> row \<Rightarrow> int" where
  "window_number col r = (case numbers col [r] of [] \<Rightarrow> 0 | n # _ \<Rightarrow> n)"

definition window_value :: "window_fn \<Rightarrow> partition_state \<Rightarrow> int \<Rightarrow> sql_value" where
  "window_value f st n = VBigInt (case f of
       RowNumber \<Rightarrow> int (ws_row_number st)
     | Rank \<Rightarrow> int (ws_row_number st)
     | DenseRank \<Rightarrow> int (ws_row_number st)
     | RunningSum \<Rightarrow> ws_running_sum st
     | RunningAvg \<Rightarrow> ws_running_sum st sdiv int (max (ws_running_count st) 1)
     | Lag \<Rightarrow> ws_running_sum st - n
     | Lead \<Rightarrow> n)"

definition window_step :: "window_fn \<Rightarrow> string \<Rightarrow> nat option \<Rightarrow> nat list \<Rightarrow>
    (string list \<times> partition_state) list \<Rightarrow> row \<Rightarrow> (string list \<times> partition_state) list \<times> row" where
  "window_step f alias col parts m r =
     (let k = map (\<lambda>i. if i < length (row_values r) then value_string (row_values r ! i) else []) parts;
          st = (case map_of m k of Some st \<Rightarrow> st | None \<Rightarrow> \<lparr> ws_running_sum = 0, ws_running_count = 0, ws_row_number = 0 \<rparr>);
          n = window_number col r;
          st1 = \<lparr> ws_running_sum = ws_running_sum st + n, ws_running_count = ws_running_count st + 1,
                  ws_row_number = ws_row_number st + 1 \<rparr>
      in (AList.update k st1 m, r\<lparr>row_columns := row_columns r @ [alias], row_values := row_values r @ [window_value f st1 n]\<rparr>))"

fun window_rows :: "window_fn \<Rightarrow> string \<Rightarrow> nat option \<Rightarrow> nat list \<Rightarrow> (string list \<times> partition_state) list \<Rightarrow> row list \<Rightarrow> row list" where
  "window_rows f alias col parts m [] = []"
| "window_rows f alias col parts m (r # rs) =
     (let (m1, r1) = window_step f alias col parts m r in r1 # window_rows f alias col parts m1 rs)"

definition exec_window :: "window_fn \<Rightarrow> string \<Rightarrow> string \<Rightarrow> string list \<Rightarrow> query_result \<Rightarrow> sql_result" where
  "exec_window f column alias partition_by input =
     (let idx = (\<lambda>name. position (\<lambda>c. c = name) (qr_columns input));
          rows = window_rows f alias (idx column) (List.map_filter idx partition_by) [] (qr_rows input)
      in Some (Inr (result_rows (qr_columns input @ [alias]) rows (dec_string (length rows) @ '' rows (window)''))))"

subsection \<open>The executors\<close>

definition projected :: "string list \<Rightarrow> sql_result \<Rightarrow> sql_result" where
  "projected ps r = and_result r (\<lambda>x. map_option Inr (result_project ps x))"

fun read_execute :: "sql_env \<Rightarrow> bool \<Rightarrow> logical_plan \<Rightarrow> ledger_store \<Rightarrow> sql_result" where
  "read_execute Q proofs (ScanEntries f ps) s = projected ps (exec_scan_entries Q proofs f s)"
| "read_execute Q proofs (ScanLedgerLines f ps) s = projected ps (exec_scan_ledger_lines Q f s)"
| "read_execute Q proofs (ScanAccounts f ps) s = projected ps (exec_scan_accounts f s)"
| "read_execute Q proofs (GetBalance r) s = exec_get_balance Q r s"
| "read_execute Q proofs (VerifyChain a b) s = exec_verify_chain Q a b s"
| "read_execute Q proofs (VerifyEntry sq) s = exec_verify_entry Q sq s"
| "read_execute Q proofs (MerkleRoot a b) s = exec_merkle_root Q a b s"
| "read_execute Q proofs (Constant c v) s = exec_constant c v"
| "read_execute Q proofs (Join l r ty cond ps) s =
     and_result (read_execute Q proofs l s) (\<lambda>left. and_result (read_execute Q proofs r s) (\<lambda>right. exec_join ty left right))"
| "read_execute Q proofs (Aggregate i g a) s = and_result (read_execute Q proofs i s) (exec_aggregate g a)"
| "read_execute Q proofs (Window i f c a pb ob) s = and_result (read_execute Q proofs i s) (exec_window f c a pb)"
| "read_execute Q proofs (PostEntry sp) s = Some (Inl (SqlUnsupported ''write plans must be executed with Executor (requires &mut LedgerStore)''))"
| "read_execute Q proofs (CreateAccount sp) s = Some (Inl (SqlUnsupported ''write plans must be executed with Executor (requires &mut LedgerStore)''))"

definition spec_entry :: "(nat \<Rightarrow> uuid) \<Rightarrow> (nat \<Rightarrow> timestamp) \<Rightarrow> entry_spec \<Rightarrow> account_id \<Rightarrow> account_id \<Rightarrow> amount \<Rightarrow> journal_entry" where
  "spec_entry uid now sp debit_id credit_id amount =
     (let b = builder_credit (uid 1) credit_id amount (es_currency sp)
                (builder_debit (uid 0) debit_id amount (es_currency sp) (builder_new (now 0) (es_description sp) (es_domain sp)));
          b1 = (case es_external_ref sp of None \<Rightarrow> b | Some r \<Rightarrow> builder_external_ref r b);
          b2 = (case es_idempotency_key sp of None \<Rightarrow> b1 | Some k \<Rightarrow> builder_idempotency_key k b1)
      in build (uid 2) (now 1) b2)"

text \<open>Sums of \<^verbatim>\<open>i64\<close> wrap around.\<close>

definition debit_sum :: "journal_entry \<Rightarrow> i64" where
  "debit_sum e = sum_list (map (\<lambda>l. amount_raw (jl_amount l)) (filter (\<lambda>l. jl_dr_cr l = Debit) (je_lines e)))"

definition posted_result :: "entry_spec \<Rightarrow> u64 \<Rightarrow> ledger_store \<Rightarrow> sql_result" where
  "posted_result sp sq s =
     (let (i, domain, amount) = (case get_entry_by_sequence s sq of
          Some e \<Rightarrow> (je_id e, je_domain e, debit_sum e) | None \<Rightarrow> (0, es_domain sp, es_amount sp))
      in and_result (rows_result [''sequence'', ''id'', ''status''] [[bigint_u64 sq, VUuid (uuid_string i), VText ''Posted'']]
           (\<lambda>_. ''1 entry posted (sequence='' @ dec_string (unat sq) @ '')'')) (\<lambda>r.
         Some (Inr (r\<lparr>qr_entry_id := Some i, qr_entry_sequence := Some sq, qr_domain := Some domain, qr_amount_sum := Some amount\<rparr>))))"

definition exec_post_entry :: "sql_env \<Rightarrow> (nat \<Rightarrow> uuid) \<Rightarrow> (nat \<Rightarrow> timestamp) \<Rightarrow> entry_spec \<Rightarrow> ledger_store \<Rightarrow> ledger_store \<times> sql_result" where
  "exec_post_entry Q uid now sp s =
     (case resolve_account Q s (es_debit_account sp) of Inl e \<Rightarrow> (s, Some (Inl e)) | Inr debit_id \<Rightarrow>
      case resolve_account Q s (es_credit_account sp) of Inl e \<Rightarrow> (s, Some (Inl e)) | Inr credit_id \<Rightarrow>
      case amount_new (es_amount sp) of
        None \<Rightarrow> (s, Some (Inl (InvalidValue ''amount'' ''must be non-zero'')))
      | Some amount \<Rightarrow>
          case post_entry (qe_env Q) (\<lambda>i. now (i + 2)) (spec_entry uid now sp debit_id credit_id amount) s of
            (s1, Inl e) \<Rightarrow> (s1, Some (Inl (SqlLedger e)))
          | (s1, Inr sq) \<Rightarrow> (s1, posted_result sp sq s1))"

definition parse_account_type :: "string \<Rightarrow> sql_error + account_type" where
  "parse_account_type t =
     (let l = to_lowercase t
      in if l = ''asset'' then Inr Asset else if l = ''liability'' then Inr Liability else if l = ''equity'' then Inr Equity
         else if l = ''income'' then Inr Income else if l = ''expense'' then Inr Expense else if l = ''contra'' then Inr Contra
         else if l = ''suspense'' then Inr Suspense else Inl (InvalidValue ''account_type'' (''unknown type '' @ quoted l)))"

definition exec_create_account :: "sql_env \<Rightarrow> (nat \<Rightarrow> uuid) \<Rightarrow> (nat \<Rightarrow> timestamp) \<Rightarrow> account_spec \<Rightarrow> ledger_store \<Rightarrow> ledger_store \<times> sql_result" where
  "exec_create_account Q uid now sp s = (case parse_account_type (as_account_type sp) of
       Inl e \<Rightarrow> (s, Some (Inl e))
     | Inr ty \<Rightarrow>
         (case create_account (qe_env Q) (now 1) (account_new (uid 0) (now 0) (as_code sp) (as_name sp) ty (as_currency sp) (as_domain sp)) s of
            (s1, Inl e) \<Rightarrow> (s1, Some (Inl (SqlLedger e)))
          | (s1, Inr i) \<Rightarrow> (s1, rows_result [''id'', ''code'', ''status''] [[VUuid (uuid_string i), VText (as_code sp), VText ''Created'']]
              (\<lambda>_. ''Account '' @ quoted (as_code sp) @ '' created''))))"

definition sql_execute :: "sql_env \<Rightarrow> bool \<Rightarrow> (nat \<Rightarrow> uuid) \<Rightarrow> (nat \<Rightarrow> timestamp) \<Rightarrow> logical_plan \<Rightarrow> ledger_store \<Rightarrow> ledger_store \<times> sql_result" where
  "sql_execute Q proofs uid now p s = (case p of
       PostEntry sp \<Rightarrow> exec_post_entry Q uid now sp s
     | CreateAccount sp \<Rightarrow> exec_create_account Q uid now sp s
     | _ \<Rightarrow> (s, read_execute Q proofs p s))"

end
