(* ===== verification/Sql_Props.thy ===== *)
theory Sql_Props
  imports Sql_Exec Ledger_Post
begin

text \<open>
  Properties of the SQL executor: results are well formed and no plan without a join panics, while joining the line view with the accounts
  panics once an entry was posted; writes are steps of the ledger; debits and credits of the line view balance; attached proofs verify.
\<close>

subsection \<open>Rows\<close>

definition rows_of :: "string list \<Rightarrow> sql_value list list \<Rightarrow> row list" where
  "rows_of cols vss = map (\<lambda>vs. \<lparr> row_columns = cols, row_values = vs \<rparr>) vss"

lemma rows_result_ok:
  assumes "list_all (\<lambda>vs. length vs = length cols) vss"
  shows "rows_result cols vss msg = Some (Inr (result_rows cols (rows_of cols vss) (msg (length vss))))"
proof -
  have "those (map (\<lambda>vs. row_new cols (id vs)) vss) = Some (rows_of cols vss)"
    using those_rows [of vss id cols] assms by (simp add: list_all_iff rows_of_def)
  then show ?thesis by (simp add: rows_result_def build_rows_def rows_of_def)
qed

lemma rows_of_wf [simp]: "list_all (\<lambda>vs. length vs = length cols) vss \<Longrightarrow> result_wf (result_rows cols (rows_of cols vss) msg)"
  by (auto simp: result_wf_def result_rows_def rows_of_def row_wf_def list_all_iff)

text \<open>A query that does not panic and whose result is well formed.\<close>

definition safe_result :: "sql_result \<Rightarrow> bool" where
  "safe_result r = (case r of None \<Rightarrow> False | Some (Inl _) \<Rightarrow> True | Some (Inr x) \<Rightarrow> result_wf x)"

lemma safe_rows: "list_all (\<lambda>vs. length vs = length cols) vss \<Longrightarrow> safe_result (rows_result cols vss msg)"
  by (simp add: rows_result_ok safe_result_def)

lemma safe_result_simps [simp]: "\<not> safe_result None" "safe_result (Some (Inl e))" "safe_result (Some (Inr x)) = result_wf x"
  by (simp_all add: safe_result_def)

lemma wf_empty [simp]: "result_wf (result_empty m)"
  by (simp add: result_empty_def result_rows_def result_wf_def)

lemma safe_and_result:
  assumes "safe_result r" "\<And>x. result_wf x \<Longrightarrow> safe_result (f x)"
  shows "safe_result (and_result r f)"
proof (cases r)
  case (Some y)
  with assms show ?thesis by (cases y) (simp_all add: and_result_def)
qed (use assms(1) in simp)

lemma safe_projected:
  assumes "safe_result r"
  shows "safe_result (projected ps r)"
  unfolding projected_def
proof (rule safe_and_result [OF assms])
  fix x assume "result_wf x"
  from project_total [OF this, of ps] show "safe_result (map_option Inr (result_project ps x))"
    by (auto simp: safe_result_def)
qed

lemma window_rows_wf:
  assumes "list_all (row_wf cols) rs"
  shows "list_all (row_wf (cols @ [alias])) (window_rows f alias col parts m rs)"
  using assms by (induction rs arbitrary: m) (simp_all add: window_step_def Let_def row_wf_def)

lemma safe_scans:
  "safe_result (exec_scan_entries Q proofs f s)" "safe_result (exec_scan_ledger_lines Q f s)" "safe_result (exec_scan_accounts g s)"
proof -
  have "safe_result (rows_result ENTRY_COLS (map (entry_values Q) es) msg)" for es msg
    by (rule safe_rows) (simp add: list_all_iff ENTRY_COLS_def entry_values_def)
  then show "safe_result (exec_scan_entries Q proofs f s)"
    unfolding exec_scan_entries_def build_scan_entries_result_def Let_def
    by (rule safe_and_result) (simp add: safe_result_def result_wf_def)
  show "safe_result (exec_scan_ledger_lines Q f s)"
    unfolding exec_scan_ledger_lines_def build_scan_ledger_lines_result_def Let_def
    by (rule safe_rows) (auto simp: list_all_iff LINE_COLS_def line_values_def)
  show "safe_result (exec_scan_accounts g s)"
    unfolding exec_scan_accounts_def by (rule safe_rows) (simp add: list_all_iff ACCOUNT_COLS_def account_values_def)
qed

primrec join_free :: "logical_plan \<Rightarrow> bool" where
  "join_free (ScanEntries f ps) = True"
| "join_free (ScanLedgerLines f ps) = True"
| "join_free (ScanAccounts f ps) = True"
| "join_free (GetBalance r) = True"
| "join_free (VerifyChain a b) = True"
| "join_free (VerifyEntry sq) = True"
| "join_free (MerkleRoot a b) = True"
| "join_free (Constant c v) = True"
| "join_free (PostEntry sp) = True"
| "join_free (CreateAccount sp) = True"
| "join_free (Join l r ty cond ps) = False"
| "join_free (Aggregate i g a) = join_free i"
| "join_free (Window i f c a pb ob) = join_free i"

lemma read_execute_safe:
  assumes "join_free p"
  shows "safe_result (read_execute Q proofs p s)"
  using assms
proof (induction p)
  case (GetBalance r)
  have "safe_result (rows_result [''account'', ''balance''] [[VText r, VBigInt b]] msg)" for b msg by (rule safe_rows) simp
  then show ?case by (auto simp: exec_get_balance_def and_result_def split: sum.split)
next
  case (VerifyChain a b)
  have "safe_result (rows_result VERIFY_COLS [[x, y, z]] msg)" for x y z msg by (rule safe_rows) (simp add: VERIFY_COLS_def)
  then show ?case by (auto simp: exec_verify_chain_def integrity_failure_def split: sum.split)
next
  case (VerifyEntry sq)
  show ?case by (auto simp: exec_verify_entry_def Let_def intro!: safe_rows split: option.split)
next
  case (MerkleRoot a b)
  show ?case by (auto simp: exec_merkle_root_def Let_def intro!: safe_rows)
next
  case (Constant c v)
  show ?case by (auto simp: exec_constant_def intro!: safe_rows)
next
  case (Aggregate i g a)
  then show ?case
    by (auto intro!: safe_and_result safe_rows simp: exec_aggregate_def Let_def list_all_iff group_key_def)
next
  case (Window i f c a pb ob)
  have "safe_result (exec_window f c a pb x)" if "result_wf x" for x
    using that window_rows_wf [of "qr_columns x" "qr_rows x"]
    by (simp add: exec_window_def Let_def safe_result_def result_wf_def result_rows_def list_all_iff)
  with Window show ?case by (auto intro!: safe_and_result)
qed (simp_all add: safe_projected safe_scans)

subsection \<open>The executors\<close>

lemma exec_writes_safe: "safe_result (snd (exec_post_entry Q uid now sp s))" "safe_result (snd (exec_create_account Q uid now ap s))"
proof -
  have r: "safe_result (rows_result [a, b, c] [[x, y, z]] msg)" for a b c x y z msg by (rule safe_rows) simp
  have "safe_result (posted_result sp sq t)" for sq t
    unfolding posted_result_def Let_def case_prod_beta by (rule safe_and_result [OF r]) (simp add: result_wf_def)
  then show "safe_result (snd (exec_post_entry Q uid now sp s))"
    by (simp add: exec_post_entry_def split: sum.split option.split prod.split)
  show "safe_result (snd (exec_create_account Q uid now ap s))"
    using r by (simp add: exec_create_account_def split: sum.split prod.split)
qed


subsection \<open>The line view\<close>

definition line_rows :: "sql_env \<Rightarrow> entry_filter option \<Rightarrow> journal_entry list \<Rightarrow> row list" where
  "line_rows Q f es = rows_of LINE_COLS (concat (map (\<lambda>e. map (line_values Q e) (filter (line_wanted f) (je_lines e))) es))"

lemma read_execute_lines:
  obtains m where "read_execute Q proofs (ScanLedgerLines f []) s = Some (Inr (result_rows LINE_COLS (line_rows Q f (select_entries Q f s)) m))"
proof -
  have "list_all (\<lambda>vs. length vs = length LINE_COLS)
      (concat (map (\<lambda>e. map (line_values Q e) (filter (line_wanted f) (je_lines e))) es))" for es
    by (auto simp: list_all_iff LINE_COLS_def line_values_def)
  then show thesis
    by (intro that)
      (simp add: exec_scan_ledger_lines_def build_scan_ledger_lines_result_def Let_def rows_result_ok projected_def and_result_def
        result_project_def line_rows_def)
qed

lemma sum_numbers_lines:
  "sum_list (numbers (Some 7) (line_rows Q f es)) =
     (\<Sum>e\<leftarrow>es. \<Sum>l\<leftarrow>filter (line_wanted f) (je_lines e). amount_as_i128 (jl_amount l))"
proof -
  have one: "sum_list (numbers (Some 7) (rows_of LINE_COLS (map (line_values Q e) ls))) = (\<Sum>l\<leftarrow>ls. amount_as_i128 (jl_amount l))" for e ls
  proof (induction ls)
    case (Cons l ls)
    have "numbers (Some 7) (rows_of LINE_COLS (map (line_values Q e) (l # ls))) =
        amount_as_i128 (jl_amount l) # numbers (Some 7) (rows_of LINE_COLS (map (line_values Q e) ls))"
      by (simp add: numbers_def rows_of_def line_values_def amount_as_i64_def amount_as_i128_def)
    with Cons show ?case by simp
  qed (simp add: numbers_def rows_of_def)
  have app: "numbers c (rows_of cols (xs @ ys)) = numbers c (rows_of cols xs) @ numbers c (rows_of cols ys)" for c cols xs ys
    by (simp add: numbers_def rows_of_def map_filter_def)
  have nil: "numbers c (rows_of cols []) = []" for c cols by (simp add: numbers_def rows_of_def)
  show ?thesis unfolding line_rows_def by (induction es) (simp_all add: app one nil)
qed

lemma reach_selects_valid:
  assumes "ledger_reach E s" "e \<in> set (entries_scan s n)"
  shows "validate e = Inr ()" "lines_known (ls_accounts s) e"
proof -
  have "e \<in> set (db_stream (ls_db s))"
    using assms(2) by (auto simp: entries_scan_def scan_def sql_limit_def split: if_splits dest: in_set_takeD)
  then have "e \<in> set (db_entries (ls_db s))" by (simp add: entries_stream [OF reach_facts(1) [OF assms(1)]])
  with reach_facts(2) [OF assms(1)] show "validate e = Inr ()" "lines_known (ls_accounts s) e" by (simp_all add: accounts_inv_def)
qed

lemma side_names:
  "to_lowercase ''Debit'' = ''debit''" "to_lowercase ''Credit'' = ''credit''"
  "to_lowercase ''debit'' = ''debit''" "to_lowercase ''credit'' = ''credit''"
  by code_simp+

text \<open>
  C21: the line view is balanced.  In every state the ledger reaches, the sum of the column \<open>amount\<close> over
  \<^verbatim>\<open>SELECT * FROM ledger_lines WHERE dr_cr = 'debit'\<close> is the sum over the credits, also when the
  scan is cut off at its default limit.
\<close>

theorem sql_lines_balance:
  assumes "ledger_reach (qe_env Q) s"
  shows "\<exists>rd rc. read_execute Q proofs (ScanLedgerLines (Some (ByDrCr ''debit'')) []) s = Some (Inr rd) \<and>
     read_execute Q proofs (ScanLedgerLines (Some (ByDrCr ''credit'')) []) s = Some (Inr rc) \<and>
     compute_aggregate AggSum (position (\<lambda>c. c = ''amount'') (qr_columns rd)) (qr_rows rd) =
     compute_aggregate AggSum (position (\<lambda>c. c = ''amount'') (qr_columns rc)) (qr_rows rc)"
proof -
  have p: "position (\<lambda>c. c = ''amount'') LINE_COLS = Some 7" by (simp add: LINE_COLS_def)
  have w: "line_wanted (Some (ByDrCr ''debit'')) l \<longleftrightarrow> jl_dr_cr l = Debit" "line_wanted (Some (ByDrCr ''credit'')) l \<longleftrightarrow> jl_dr_cr l = Credit" for l
    by (cases "jl_dr_cr l"; simp add: line_wanted_def side_names)+
  have f: "(\<Sum>l\<leftarrow>filter P ls. g l) = (\<Sum>l\<leftarrow>ls. if P l then g l else 0)" for P ls and g :: "journal_line \<Rightarrow> int"
    by (induction ls) simp_all
  have "(\<Sum>l\<leftarrow>filter (\<lambda>l. jl_dr_cr l = Debit) (je_lines e). amount_as_i128 (jl_amount l)) =
      (\<Sum>l\<leftarrow>filter (\<lambda>l. jl_dr_cr l = Credit) (je_lines e). amount_as_i128 (jl_amount l))"
    if "e \<in> set (entries_scan s DEFAULT_SCAN_LIMIT)" for e
    using reach_selects_valid(1) [OF assms that] unfolding validate_balanced signed_sum f by simp
  then have "(\<Sum>e\<leftarrow>entries_scan s DEFAULT_SCAN_LIMIT. \<Sum>l\<leftarrow>filter (\<lambda>l. jl_dr_cr l = Debit) (je_lines e). amount_as_i128 (jl_amount l)) =
      (\<Sum>e\<leftarrow>entries_scan s DEFAULT_SCAN_LIMIT. \<Sum>l\<leftarrow>filter (\<lambda>l. jl_dr_cr l = Credit) (je_lines e). amount_as_i128 (jl_amount l))"
    by (simp cong: map_cong)
  then have "sum_list (numbers (Some 7) (line_rows Q (Some (ByDrCr ''debit'')) (entries_scan s DEFAULT_SCAN_LIMIT))) =
      sum_list (numbers (Some 7) (line_rows Q (Some (ByDrCr ''credit'')) (entries_scan s DEFAULT_SCAN_LIMIT)))"
    unfolding sum_numbers_lines w .
  moreover have "select_entries Q (Some (ByDrCr x)) s = entries_scan s DEFAULT_SCAN_LIMIT" for x
    by (simp add: select_entries_def limit_of_def explicit_limit_def)
  moreover obtain m1 m2 where
    "read_execute Q proofs (ScanLedgerLines (Some (ByDrCr ''debit'')) []) s =
       Some (Inr (result_rows LINE_COLS (line_rows Q (Some (ByDrCr ''debit'')) (select_entries Q (Some (ByDrCr ''debit'')) s)) m1))"
    "read_execute Q proofs (ScanLedgerLines (Some (ByDrCr ''credit'')) []) s =
       Some (Inr (result_rows LINE_COLS (line_rows Q (Some (ByDrCr ''credit'')) (select_entries Q (Some (ByDrCr ''credit'')) s)) m2))"
    using read_execute_lines by metis
  ultimately show ?thesis
    by (simp del: read_execute.simps add: result_rows_def p compute_aggregate_def)
qed

subsection \<open>Joins\<close>

lemma read_execute_accounts:
  "read_execute Q proofs (ScanAccounts None []) s = Some (Inr (result_rows ACCOUNT_COLS
     (rows_of ACCOUNT_COLS (map (account_values s) (all_accounts s))) (dec_string (length (all_accounts s)) @ '' accounts'')))"
proof -
  have "list_all (\<lambda>vs. length vs = length ACCOUNT_COLS) (map (account_values s) as)" for as
    by (simp add: list_all_iff ACCOUNT_COLS_def account_values_def)
  then show ?thesis
    by (simp add: exec_scan_accounts_def rows_result_ok projected_def and_result_def result_project_def account_matches_def)
qed

lemma right_map_find:
  assumes "x \<in> set rows" "k < length (row_values x)" "list_all P rows"
  shows "\<exists>y. map_of (right_map k rows) (value_string (row_values x ! k)) = Some y \<and> P y"
proof -
  let ?f = "\<lambda>m r. if k < length (row_values r) then AList.update (value_string (row_values r ! k)) r m else m"
  have "list_all P rows \<Longrightarrow> (\<forall>y \<in> ran (map_of m). P y) \<Longrightarrow> x \<in> set rows \<or> map_of m (value_string (row_values x ! k)) \<noteq> None \<Longrightarrow>
      \<exists>y. map_of (foldl ?f m rows) (value_string (row_values x ! k)) = Some y \<and> P y" for m
  proof (induction rows arbitrary: m)
    case Nil
    then show ?case by (auto intro: ranI)
  next
    case (Cons r rows)
    have "\<forall>y \<in> ran (map_of (?f m r)). P y"
      using Cons.prems by (auto simp: update_conv' ran_def split: if_splits)
    moreover have "x \<in> set rows \<or> map_of (?f m r) (value_string (row_values x ! k)) \<noteq> None"
      using Cons.prems(3) assms(2) by (auto simp: update_conv')
    ultimately show ?case using Cons by simp
  qed
  from this [of "[]"] assms show ?thesis by (simp add: right_map_def)
qed

lemma row_new_panics: "x \<in> set vss \<Longrightarrow> length x \<noteq> length cols \<Longrightarrow> rows_result cols vss msg = None"
proof -
  assume "x \<in> set vss" "length x \<noteq> length cols"
  then have "None \<in> set (map (row_new cols) vss)" by (force simp: row_new_def)
  then have "those (map (row_new cols) vss) = None"
    by (cases "those (map (row_new cols) vss)") (simp, metis those_Some ex_map_conv option.distinct(1))
  then show ?thesis by (simp add: rows_result_def build_rows_def)
qed

text \<open>
  C25: joining the line view with the accounts panics.  The joined row has the values of both sides, but a column that
  occurs on both sides is listed once, so the assertion of \<^verbatim>\<open>Row::new\<close> fails as soon as
  one line finds its account; in every state the ledger reaches, that is as soon as one entry was posted.
\<close>

theorem sql_join_panics:
  assumes "ledger_reach (qe_env Q) s" "entry_count s > 0"
  shows "read_execute Q proofs (Join (ScanLedgerLines None []) (ScanAccounts None []) ty cond ps) s = None"
proof -
  note f = reach_facts [OF assms(1)]
  from assms(2) obtain e es where es: "db_entries (ls_db s) = e # es"
    by (cases "db_entries (ls_db s)") (simp_all add: entry_count_def db_count_def)
  have sel: "e \<in> set (entries_scan s DEFAULT_SCAN_LIMIT)"
    using entries_inv_key(2) [OF f(1), of e] es
    by (simp add: entries_scan_def scan_def sql_limit_def entries_stream [OF f(1)] DEFAULT_SCAN_LIMIT_def as_i64_small)
  from reach_selects_valid [OF assms(1) sel] obtain l where l: "l \<in> set (je_lines e)" "map_of (ls_accounts s) (jl_account_id l) \<noteq> None"
    by (cases "je_lines e") (auto simp: validate_balanced lines_known_def)
  then obtain a where "map_of (ls_accounts s) (jl_account_id l) = Some a" by blast
  with f(2) have a: "a \<in> set (all_accounts s)" "acc_id a = jl_account_id l"
    by (force simp: all_accounts_def accounts_inv_def dest: map_of_SomeD)+
  define right where "right = rows_of ACCOUNT_COLS (map (account_values s) (all_accounts s))"
  define x where "x = \<lparr> row_columns = LINE_COLS, row_values = line_values Q e l \<rparr>"
  have r: "\<lparr> row_columns = ACCOUNT_COLS, row_values = account_values s a \<rparr> \<in> set right"
    using a(1) by (auto simp: right_def rows_of_def)
  have "list_all (\<lambda>y. length (row_values y) = 8) right" by (simp add: right_def rows_of_def list_all_iff account_values_def)
  from right_map_find [OF r, of 0, OF _ this] obtain y where
    "map_of (right_map 0 right) (uuid_string (jl_account_id l)) = Some y" "length (row_values y) = 8"
    by (auto simp: account_values_def a(2))
  moreover have "join_key x = uuid_string (jl_account_id l)"
    by (simp add: join_key_def row_get_def x_def LINE_COLS_def line_values_def)
  ultimately have v: "join_values ty n (right_map 0 right) x = Some (line_values Q e l @ row_values y)" for n
    by (simp add: join_values_def x_def)
  define left where "left = line_rows Q None (entries_scan s DEFAULT_SCAN_LIMIT)"
  have "x \<in> set left" using sel l(1) by (auto simp: left_def line_rows_def rows_of_def x_def line_wanted_def)
  then have "line_values Q e l @ row_values y \<in> set (List.map_filter (join_values ty 8 (right_map 0 right)) left)"
    using v by (force simp: List.map_filter_def)
  moreover have "length (line_values Q e l @ row_values y) = 19" by (simp add: line_values_def \<open>length (row_values y) = 8\<close>)
  moreover have "length (join_cols LINE_COLS ACCOUNT_COLS) = 16" by (simp add: join_cols_def LINE_COLS_def ACCOUNT_COLS_def)
  ultimately have p: "rows_result (join_cols LINE_COLS ACCOUNT_COLS) (List.map_filter (join_values ty 8 (right_map 0 right)) left) msg = None" for msg
    by (intro row_new_panics [of "line_values Q e l @ row_values y"]) simp_all
  have "position (\<lambda>c. c = ''id'' \<or> c = ''code'') ACCOUNT_COLS = Some 0" "length ACCOUNT_COLS = 8" by (simp_all add: ACCOUNT_COLS_def)
  moreover have "select_entries Q None s = entries_scan s DEFAULT_SCAN_LIMIT"
    by (simp add: select_entries_def limit_of_def explicit_limit_def)
  ultimately have "exec_join ty (result_rows LINE_COLS left m1) (result_rows ACCOUNT_COLS right m2) = None" for m1 m2
    using p by (simp add: exec_join_def result_rows_def Let_def)
  moreover obtain m where "read_execute Q proofs (ScanLedgerLines None []) s = Some (Inr (result_rows LINE_COLS left m))"
    using read_execute_lines [of Q proofs None s] \<open>select_entries Q None s = _\<close> unfolding left_def by metis
  ultimately show ?thesis
    by (simp only: read_execute.simps(9) read_execute_accounts and_result_def option.case sum.case
        right_def [symmetric])
qed

subsection \<open>Verifiable queries\<close>

lemma leaf_proofs_all:
  "qp_leaf_proofs (build_merkle_proof b3 leaves [0..<length leaves] sign_root) =
     map (\<lambda>i. let p = the (merkle_proof b3 leaves i) in \<lparr> lp_leaf_index = mp_leaf_index p, lp_leaf_hash = mp_leaf_hash p, lp_path = mp_path p \<rparr>)
       [0..<length leaves]"
proof -
  have m: "List.map_filter g xs = map h xs" if "\<And>x. x \<in> set xs \<Longrightarrow> g x = Some (h x)" for g h and xs :: "nat list"
    using that by (induction xs) simp_all
  have "merkle_proof b3 leaves i = Some (the (merkle_proof b3 leaves i))" if "i < length leaves" for i
    using that by (auto simp: merkle_proof_def Let_def)
  then show ?thesis
    unfolding build_merkle_proof_def Let_def query_proof.simps
    by (intro m) (metis (no_types, lifting) atLeastLessThan_iff not_le option.simps(9) set_upt)
qed

lemma read_execute_entries:
  obtains m where "read_execute Q proofs (ScanEntries f []) s = Some (Inr
     (if proofs \<and> select_entries Q f s \<noteq> []
      then (result_rows ENTRY_COLS (rows_of ENTRY_COLS (map (entry_values Q) (select_entries Q f s))) m)\<lparr>qr_proof :=
         Some (build_merkle_proof (blake3 (eX (qe_env Q))) (map (\<lambda>e. hash_raw (je_content_hash e)) (select_entries Q f s))
           [0..<length (select_entries Q f s)] (sign_bytes (eX (qe_env Q)) (ls_tm s)))\<rparr>
      else result_rows ENTRY_COLS (rows_of ENTRY_COLS (map (entry_values Q) (select_entries Q f s))) m))"
proof -
  have "list_all (\<lambda>vs. length vs = length ENTRY_COLS) (map (entry_values Q) es)" for es
    by (simp add: list_all_iff ENTRY_COLS_def entry_values_def)
  note r = rows_result_ok [OF this]
  show thesis
    by (rule that) (simp only: read_execute.simps(1) exec_scan_entries_def build_scan_entries_result_def Let_def r projected_def and_result_def
        result_project_def option.case sum.case option.map if_True length_map map_is_Nil_conv simp_thms)
qed

text \<open>
  C23: query proofs verify.  When proofs are attached, every row of a non-empty scan of the ledger comes with a Merkle path
  that leads from the leaf hash of the \<open>content_hash\<close> shown in that row to the root in the result.
\<close>

theorem sql_proofs_verify:
  assumes "read_execute Q True (ScanEntries f []) s = Some (Inr r)" "i < length (qr_rows r)"
  shows "\<exists>p h. qr_proof r = Some p \<and> length (qp_leaf_proofs p) = length (qr_rows r) \<and>
     row_get (qr_rows r ! i) ''content_hash'' = Some (VHash (hex_encode h)) \<and>
     lp_leaf_hash (qp_leaf_proofs p ! i) = hash_leaf (blake3 (eX (qe_env Q))) h \<and>
     proof_fold (blake3 (eX (qe_env Q))) (lp_leaf_hash (qp_leaf_proofs p ! i)) (lp_path (qp_leaf_proofs p ! i)) = qp_root p"
proof -
  let ?b3 = "blake3 (eX (qe_env Q))"
  define es where "es = select_entries Q f s"
  define leaves where "leaves = map (\<lambda>e. hash_raw (je_content_hash e)) es"
  define p where "p = build_merkle_proof ?b3 leaves [0..<length leaves] (sign_bytes (eX (qe_env Q)) (ls_tm s))"
  obtain m where m: "read_execute Q True (ScanEntries f []) s = Some (Inr (if True \<and> es \<noteq> []
      then (result_rows ENTRY_COLS (rows_of ENTRY_COLS (map (entry_values Q) es)) m)\<lparr>qr_proof := Some p\<rparr>
      else result_rows ENTRY_COLS (rows_of ENTRY_COLS (map (entry_values Q) es)) m))"
    unfolding es_def p_def leaves_def length_map by (rule read_execute_entries)
  have r: "r = (if es \<noteq> [] then (result_rows ENTRY_COLS (rows_of ENTRY_COLS (map (entry_values Q) es)) m)\<lparr>qr_proof := Some p\<rparr>
      else result_rows ENTRY_COLS (rows_of ENTRY_COLS (map (entry_values Q) es)) m)"
    using assms(1) unfolding m by (simp only: option.inject sum.inject simp_thms)
  have len: "length (qr_rows r) = length es" by (simp add: r result_rows_def rows_of_def)
  with assms(2) have i: "i < length es" "es \<noteq> []" "i < length leaves" by (auto simp: leaves_def)
  then obtain q where q: "merkle_proof ?b3 leaves i = Some q" by (cases leaves) (auto simp: merkle_proof_def Let_def)
  have lp: "qp_leaf_proofs p ! i = \<lparr> lp_leaf_index = mp_leaf_index q, lp_leaf_hash = mp_leaf_hash q, lp_path = mp_path q \<rparr>"
    "length (qp_leaf_proofs p) = length es" "qp_root p = merkle_root ?b3 leaves"
    using i(3) q leaf_proofs_all [of ?b3 leaves] by (simp_all add: p_def leaves_def build_merkle_proof_def Let_def)
  have "row_get (qr_rows r ! i) ''content_hash'' = Some (VHash (hex_encode (leaves ! i)))"
    using i by (simp add: r result_rows_def rows_of_def row_get_def ENTRY_COLS_def entry_values_def leaves_def)
  moreover have "qr_proof r = Some p" using i(2) by (simp add: r)
  ultimately show ?thesis using merkle_proof_SomeD [OF q] lp len by auto
qed

subsection \<open>Writes\<close>

lemma spec_entry_fields:
  "je_lines (spec_entry uid now sp d c amt) =
     [\<lparr> jl_id = uid 0, jl_account_id = d, jl_currency_code = to_uppercase (es_currency sp), jl_amount = amt, jl_dr_cr = Debit, jl_memo = None \<rparr>,
      \<lparr> jl_id = uid 1, jl_account_id = c, jl_currency_code = to_uppercase (es_currency sp), jl_amount = amt, jl_dr_cr = Credit, jl_memo = None \<rparr>]"
  "je_status (spec_entry uid now sp d c amt) = Posted" "je_content_hash (spec_entry uid now sp d c amt) = ZERO_HASH"
  "je_idempotency_key (spec_entry uid now sp d c amt) = es_idempotency_key sp"
  by (simp_all add: spec_entry_def Let_def build_def builder_credit_def builder_debit_def builder_line_def builder_new_def
      builder_external_ref_def builder_idempotency_key_def split: option.split)

lemma resolve_known:
  assumes "ledger_reach E s" "resolve_account Q s r = Inr i"
  shows "map_of (ls_accounts s) i \<noteq> None"
proof -
  have "map_of (ls_accounts s) (acc_id a) \<noteq> None" if "find (\<lambda>a. acc_code a = r) (all_accounts s) = Some a" for a
  proof -
    from that have "a \<in> set (all_accounts s)" by (auto simp: find_Some_iff)
    then obtain k where "(k, a) \<in> set (ls_accounts s)" by (auto simp: all_accounts_def)
    with reach_facts(2) [OF assms(1)] have "map_of (ls_accounts s) k = Some a" "acc_id a = k"
      by (auto simp: accounts_inv_def)
    then show ?thesis by simp
  qed
  with assms(2) show ?thesis
    by (auto simp: resolve_account_def Let_def get_account_def split: option.splits if_splits)
qed

text \<open>
  C22: \<^verbatim>\<open>INSERT INTO ledger\<close>.  An insert without an idempotency key that returns a result has resolved both accounts and moves the amount: it
  is added on the debit side of the one account and on the credit side of the other, every other balance stays
  as it is, and the result carries the sequence number of the new entry.
\<close>

theorem sql_insert_moves:
  assumes "ledger_reach (qe_env Q) s" "es_idempotency_key sp = None" "sql_execute Q proofs uid now (PostEntry sp) s = (s', Some (Inr r))"
  shows "\<exists>d c A B. resolve_account Q s (es_debit_account sp) = Inr d \<and> resolve_account Q s (es_credit_account sp) = Inr c \<and>
     get_account s d = Some A \<and> get_account s c = Some B \<and> qr_entry_sequence r = Some (ls_next_sequence s) \<and>
     (\<forall>a. balance s' a = balance s a + (if a = d then normal_delta (debit_normal (acc_type A)) Debit (sint (es_amount sp)) else 0) +
        (if a = c then normal_delta (debit_normal (acc_type B)) Credit (sint (es_amount sp)) else 0))"
proof -
  have x: "exec_post_entry Q uid now sp s = (s', Some (Inr r))" using assms(3) by (simp add: sql_execute_def)
  then obtain d c amt where r: "resolve_account Q s (es_debit_account sp) = Inr d" "resolve_account Q s (es_credit_account sp) = Inr c"
    "amount_new (es_amount sp) = Some amt"
    by (auto simp: exec_post_entry_def split: sum.splits option.splits)
  let ?e = "spec_entry uid now sp d c amt"
  from x r obtain sq where p: "post_entry (qe_env Q) (\<lambda>i. now (i + 2)) ?e s = (s', Inr sq)" "posted_result sp sq s' = Some (Inr r)"
    by (auto simp: exec_post_entry_def split: prod.splits sum.splits)
  have dup: "duplicate_sequence s ?e = None" by (simp add: duplicate_sequence_def spec_entry_fields assms(2))
  from resolve_known [OF assms(1)] r obtain A B where ab: "get_account s d = Some A" "get_account s c = Some B"
    unfolding get_account_def by blast
  have amt: "amount_as_i128 amt = sint (es_amount sp)" using r(3) by (auto simp: amount_new_def amount_as_i128_def split: if_splits)
  have s: "sq = ls_next_sequence s" "balance s' a = balance s a + entry_effect (ls_accounts s) a ?e" for a
    using p(1) dup posted_balance(1) by (cases rule: post_entry_cases; force)+
  have q: "qr_entry_sequence r = Some sq"
    using p(2) by (auto simp: posted_result_def Let_def case_prod_beta and_result_def split: option.splits sum.splits)
  have "entry_effect (ls_accounts s) a ?e = (if a = d then normal_delta (debit_normal (acc_type A)) Debit (sint (es_amount sp)) else 0) +
      (if a = c then normal_delta (debit_normal (acc_type B)) Credit (sint (es_amount sp)) else 0)" for a
    using ab by (auto simp: entry_effect_def spec_entry_fields affects_balance_def line_effect_def get_account_def amt)
  then show ?thesis using r ab q s by (intro exI [of _ d] exI [of _ c] exI [of _ A] exI [of _ B]) simp
qed

end
