(* ===== verification/Sql_Sample.thy ===== *)
theory Sql_Sample
  imports Sql_Props Ledger_Sample
begin

text \<open>
  Witnesses of the properties of the SQL layer, on the sample ledger: its two accounts are named in SQL
  by their codes, and one sale is posted by an \<^verbatim>\<open>INSERT\<close>.
\<close>

definition sample_sql_env :: sql_env where
  "sample_sql_env = \<lparr> qe_env = sample_env, qe_rfc3339 = (\<lambda>t. []), qe_date = (\<lambda>t. []), qe_parse_uuid = (\<lambda>r. None),
     qe_search_metadata = (\<lambda>db q n. []), qe_error_text = (\<lambda>e. []) \<rparr>"

lemma sample_sql_env_fields [simp]: "qe_env sample_sql_env = sample_env" "qe_parse_uuid sample_sql_env r = None"
  by (simp_all add: sample_sql_env_def)

definition sample_spec :: entry_spec where
  "sample_spec = \<lparr> es_description = ''Sale'', es_debit_account = ''1000'', es_credit_account = ''4000'', es_amount = 100,
     es_currency = ''USD'', es_external_ref = None, es_idempotency_key = None, es_domain = ''test'' \<rparr>"

abbreviation sample_insert :: "ledger_store \<Rightarrow> ledger_store \<times> sql_result" where
  "sample_insert \<equiv> sql_execute sample_sql_env True (\<lambda>_. 1) (\<lambda>_. 0) (PostEntry sample_spec)"

lemma sample_spec_lines:
  "je_lines (spec_entry (\<lambda>_. 1) (\<lambda>_. 0) sample_spec 1 2 (Amount 100)) = [sample_line Debit 1, sample_line Credit 2]"
  by (simp add: spec_entry_fields sample_line_def sample_spec_def to_uppercase_def)

lemma sample_insert_posts:
  "\<exists>s s' r. ledger_reach sample_env s \<and> books s = sample_books \<and> sample_insert s = (s', Some (Inr r)) \<and> qr_rows r \<noteq> []"
proof -
  let ?e = "spec_entry (\<lambda>_. 1) (\<lambda>_. 0) sample_spec 1 2 (Amount 100)"
  from sample_accounts obtain s where s: "ledger_reach sample_env s" "ready sample_env s" "books s = sample_books" by blast
  have acc: "ls_accounts s = [(1, cash), (2, sales)]"
    using books_fields(2) [of s, unfolded s(3), symmetric] by (simp add: sample_books_def)
  have res: "resolve_account sample_sql_env s ''1000'' = Inr 1" "resolve_account sample_sql_env s ''4000'' = Inr 2"
    by (simp_all add: resolve_account_def all_accounts_def acc cash_def sales_def account_new_def)
  have v: "validate ?e = Inr ()" using sale_valid by (simp add: validate_def sample_spec_lines)
  have d: "duplicate_sequence s ?e = None"
    by (simp add: duplicate_sequence_def spec_entry_fields sample_spec_def)
  have a: "je_approved_by ?e = je_approved_by sale"
    by (simp add: spec_entry_def sample_spec_def sale_def sample_entry_def build_def builder_new_def builder_debit_def
        builder_credit_def builder_line_def Let_def)
  have "check_line s ?e = check_line s sale" unfolding fun_eq_iff check_line_def a by simp
  then have c: "check_entry s ?e = Inr ()"
    using sale_checked(1) [OF s(3)] by (simp only: check_entry_def sample_spec_lines sale_fields(4))
  have n: "length (enc_entry (eC sample_env) (number_entry sample_env 0 ?e s)) \<le> 8122"
    by (simp add: sample_ledger_codec_def ser_lengths number_entry_def finalize_chain_hash_def spec_entry_def sample_spec_def
        sample_line_def build_def builder_new_def builder_debit_def builder_credit_def builder_line_def Let_def to_uppercase_def)
  from post_entry_clean [OF sample_env_ok s(2) v d c, of "\<lambda>_. 0"] n obtain s' where
    p: "post_entry sample_env (\<lambda>_. 0) ?e s = (s', Inr (ls_next_sequence s))" by auto
  obtain r where r: "posted_result sample_spec (ls_next_sequence s) s' = Some (Inr r)" "qr_rows r \<noteq> []"
    by (cases "get_entry_by_sequence s' (ls_next_sequence s)")
      (auto simp: posted_result_def rows_result_ok rows_of_def result_rows_def and_result_def)
  have "amount_new 100 = Some (Amount 100)" by (simp add: amount_new_def)
  with p r(1) res have "sample_insert s = (s', Some (Inr r))"
    by (simp add: sql_execute_def exec_post_entry_def sample_spec_def)
  with s r(2) show ?thesis by blast
qed


theorem sql_insert_moves_witness:
  "\<exists>s s' r. sample_insert s = (s', Some (Inr r)) \<and> qr_entry_sequence r = Some (ls_next_sequence s)"
proof -
  from sample_insert_posts obtain s s' r where s: "ledger_reach sample_env s" "sample_insert s = (s', Some (Inr r))" by blast
  have "ledger_reach (qe_env sample_sql_env) s" "es_idempotency_key sample_spec = None"
    using s by (simp_all add: sample_spec_def)
  from sql_insert_moves [OF this s(2)] s(2) show ?thesis by blast
qed

theorem sql_lines_balance_witness:
  "\<exists>s rd rc. ls_next_sequence s = 2 \<and>
     read_execute sample_sql_env False (ScanLedgerLines (Some (ByDrCr ''debit'')) []) s = Some (Inr rd) \<and>
     read_execute sample_sql_env False (ScanLedgerLines (Some (ByDrCr ''credit'')) []) s = Some (Inr rc)"
proof -
  from sold obtain s where s: "ledger_reach (qe_env sample_sql_env) s" "ls_next_sequence s = 2" by auto
  from sql_lines_balance [OF s(1), of False] s(2) show ?thesis by blast
qed

theorem sql_join_panics_witness:
  "\<exists>s. ls_next_sequence s = 2 \<and>
     read_execute sample_sql_env False (Join (ScanLedgerLines None []) (ScanAccounts None []) InnerJoin ''l.account_id = a.id'' []) s = None"
proof -
  from sold obtain s where s: "ledger_reach (qe_env sample_sql_env) s" "ls_next_sequence s = 2" "length (db_entries (ls_db s)) = 1"
    by auto
  from s(3) have "entry_count s > 0" by (simp add: entry_count_def db_count_def)
  from sql_join_panics [OF s(1) this] s(2) show ?thesis by blast
qed

theorem sql_proofs_verify_witness:
  "\<exists>s r p h. read_execute sample_sql_env True (ScanEntries None []) s = Some (Inr r) \<and> length (qr_rows r) = 1 \<and>
     qr_proof r = Some p \<and> lp_leaf_hash (qp_leaf_proofs p ! 0) = hash_leaf (blake3 sample_ext) h"
proof -
  from sold obtain s1 where s: "ledger_reach sample_env s1" "length (db_entries (ls_db s1)) = 1" by blast
  note f = reach_facts [OF s(1)]
  from s(2) obtain e where e: "db_entries (ls_db s1) = [e]" by (auto simp: length_Suc_conv)
  have "limit_of None = DEFAULT_SCAN_LIMIT" by (simp add: limit_of_def explicit_limit_def)
  then have "select_entries sample_sql_env None s1 = [e]"
    using entries_inv_key(2) [OF f(1), of e] e
    by (simp add: select_entries_def entries_scan_def scan_def sql_limit_def entries_stream [OF f(1)] DEFAULT_SCAN_LIMIT_def as_i64_small)
  then obtain r where r: "read_execute sample_sql_env True (ScanEntries None []) s1 = Some (Inr r)" "length (qr_rows r) = 1"
    by (rule_tac read_execute_entries [of sample_sql_env True None s1]) (auto simp: result_rows_def rows_of_def)
  then have "0 < length (qr_rows r)" by simp
  from sql_proofs_verify [OF r(1) this] r show ?thesis by auto
qed

end
