(* ===== verification/Spec2Isabelle.thy ===== *)
theory Spec2Isabelle
  imports Ledger_Sample Four_Eyes_Props Sql_Sample
begin

text \<open>
  VectorLedger: a double-entry ledger database.

  The program keeps accounts and journal entries.  An entry is validated (its lines balance), numbered, linked to the entry
  before it by a hash, written as a row to a page file and, inside a transaction, to a write-ahead log; then it is added to an in-memory cache of
  balances and to a SQLite index for queries.  After a crash the store is rebuilt by replaying the committed transactions of the log.
  On top of the ledger are an SQL interface, an approval queue in which a second person releases an entry, and an audit log.

  \<^bold>\<open>Conventions.\<close>  A struct is a record with prefixed fields, an enum a datatype, an operation a function of the source's name.
  A \<^verbatim>\<open>Result\<close> is a sum whose left side is the error; an operation on \<^verbatim>\<open>&mut self\<close> returns the new state and the result, also
  when it fails, so that the state after an error is part of the model.  Unsigned and signed machine integers are words and wrap as the code does; \<^verbatim>\<open>i128\<close> sums are integers.
  A \<^verbatim>\<open>HashMap\<close> is an association list.  Clocks and random numbers are arguments.
  Files carry a list of the outcomes of the I/O calls to come, so that every call can fail and a failing write can leave part of its bytes.
  A panic is the value \<open>None\<close> in the SQL executor.  No definition uses fuel: loops are structural recursions or have a termination proof, but for
  the scanner of SQL text, whose index loops are partial functions that are proved to return.

  \<^bold>\<open>External code.\<close>  BLAKE3, CRC-32, AES-GCM, HKDF, Ed25519 and the bincode encodings of the log are the fields of a record \<open>ext\<close>, the page header codec is \<open>page_codec\<close>, the codecs of the
  ledger rows are \<open>ledger_codec\<close> (all three together are \<open>env\<close>), JSON is in \<open>audit_codec\<close> and \<open>fe_codec\<close>, and date formats, UUID parsing, full-text search and
  error texts are in \<open>sql_env\<close>; the SQL parser is an argument.  What the code relies on are named predicates: \<open>ext_ok\<close>, \<open>page_codec_ok\<close>, \<open>ledger_codec_ok\<close>, \<open>audit_codec_ok\<close> and \<open>json_ok\<close> say that
  decoding inverts encoding and that fixed-size encodings have their size; \<open>ext_small\<close> bounds the overhead of the encodings.  Collision freedom is never assumed of all
  inputs: the theorems name the messages on which BLAKE3 must not collide.  The sample theories give concrete functions that satisfy the predicates.

  \<^bold>\<open>Theories, by crate.\<close>
  \<^item> \<open>Prelude\<close>: words and little-endian bytes, results, association lists, shared list lemmas.
  \<^item> \<open>Hash_Chain\<close>: the locale \<open>hash_chain\<close>, records linked by hashes; two chains with one end are equal record by record.  It is interpreted for the generic chain
    (\<open>Crypto\<close>), the journal (\<open>Journal_Entry\<close>) and the audit log (\<open>Audit_Props\<close>).
  \<^item> \<open>Crypto\<close> (\<^verbatim>\<open>vledger-crypto\<close>: \<^verbatim>\<open>hash.rs\<close>, \<^verbatim>\<open>merkle.rs\<close>, \<^verbatim>\<open>encrypt.rs\<close>): chain entries, Merkle roots and membership proofs, the nonce framing.
    Lemmas: proofs exist exactly for the positions in range and verify, a proof binds its item, a root does not determine the number of items.
  \<^item> \<open>Append_Log\<close>: the locale \<open>append_log\<close>, an append-only log that may fail and crash, and what a batch of appends leaves; interpreted for the write-ahead log in \<open>Wal_Props\<close>.
  \<^item> \<open>Wal_Record\<close>, \<open>Wal_Disk\<close>, \<open>Wal_Reader\<close>, \<open>Wal_Writer\<close> (\<^verbatim>\<open>vledger-wal\<close>: \<^verbatim>\<open>record.rs\<close>, \<^verbatim>\<open>segment.rs\<close>, \<^verbatim>\<open>encrypt.rs\<close>, \<^verbatim>\<open>reader.rs\<close>, \<^verbatim>\<open>writer.rs\<close>): record format, segment files, the reader and the writer with
    segment rolling, encryption and the three sync modes.  \<open>Wal_Log\<close> has the invariant that relates the files to the records appended and to how many of them are durable; \<open>Wal_Props\<close> the round trip
    and crash safety, and what happens when a log with an incomplete record is appended to.
  \<^item> \<open>Wal_Recovery\<close>, \<open>Wal_Recovery_Props\<close> (\<^verbatim>\<open>recovery.rs\<close>): both recovery passes and commit verification; the passes agree, recovery returns the committed transactions of the records read, what a commit record binds and what not.
  \<^item> \<open>Transaction\<close>, \<open>Transaction_Props\<close> (\<^verbatim>\<open>vledger-transaction\<close>): transactions, visibility of row versions and the transaction manager; the list of committed transactions as its specification, which
    recovery after a crash refines, and atomicity of a commit that an error interrupts.
  \<^item> \<open>Pages\<close>, \<open>Page_Store\<close> (\<^verbatim>\<open>vledger-pages\<close>): slotted pages, sealing and checking, the page files.
  \<^item> \<open>Ledger_Types\<close>, \<open>Journal_Entry\<close>, \<open>Entry_Db\<close>, \<open>Ledger_Store\<close>, \<open>Ledger_Open\<close> (\<^verbatim>\<open>vledger-ledger\<close>: \<^verbatim>\<open>amount.rs\<close>, \<^verbatim>\<open>currency.rs\<close>, \<^verbatim>\<open>account.rs\<close>, \<^verbatim>\<open>entry.rs\<close>, \<^verbatim>\<open>entry_db.rs\<close>, \<^verbatim>\<open>store.rs\<close>, \<^verbatim>\<open>wal_checkpoint.rs\<close>): values,
    entries with validation and canonical bytes, the tables of the index, every operation of \<^verbatim>\<open>LedgerStore\<close>, opening and replay.
  \<^item> \<open>Ledger_Inv\<close>: the abstract books of a store, what each operation does to them, the step relation \<open>ledger_step\<close> and the invariant of the reachable states.
    \<open>Ledger_Props\<close>: double entry, agreement of the balance computations, the hash chain, snapshots, reconciliation.  \<open>Ledger_Post\<close>: posting and reversal on every branch, limits, idempotency, legal holds.
    \<open>Ledger_Durable\<close>: replay after a crash.  \<open>Ledger_Live\<close>: when posting succeeds.
  \<^item> \<open>Json_Lines\<close>, \<open>Audit_Log\<close>, \<open>Audit_Props\<close> (\<^verbatim>\<open>vledger-audit\<close>): the audit log with interleaved appends, verification and export.
  \<^item> \<open>Four_Eyes\<close>, \<open>Four_Eyes_Props\<close> (\<^verbatim>\<open>vledger-foureyes\<close>): the approval queue, once as calls that do not overlap and once as the steps of overlapping calls, with lemmas that the steps of a call that runs alone compute the call.
  \<^item> \<open>Sql_Guard\<close>, \<open>Sql_Plan\<close>, \<open>Sql_Exec\<close>, \<open>Sql_Props\<close> (\<^verbatim>\<open>vledger-sql\<close>): the checks before the parser, results and plans, the executors on the ledger.
  \<^item> \<open>Serial\<close>, \<open>Wal_Sample\<close>, \<open>Row_Sample\<close>, \<open>Audit_Sample\<close>, \<open>Ledger_Sample\<close>, \<open>Sql_Sample\<close>: concrete codecs and a small ledger, for the witnesses.

  \<^bold>\<open>Scope of the properties.\<close>
  \<^item> \<open>ledger_reach\<close>: states of a store that started empty, after any operations, successful or not.  Opening a directory again is not a step.  Replay is the subject of \<open>Ledger_Durable\<close>: of the whole log into
    an empty index, after a run of operations that succeeded.  An index that survived but lags behind the log gives wrong balances (lemma \<open>lagging_index_loses_balances\<close>).
  \<^item> \<open>tm_reach\<close>: a transaction manager opened on an empty directory, after operations that succeeded, with records that the reader's size limit admits; the property on \<^verbatim>\<open>commit\<close> adds one operation that may fail at any I/O call.
    Appending behind an incomplete record is excluded, because its records are never read (lemmas \<open>torn_append_hides\<close> and \<open>reopened_torn_log\<close>).
  \<^item> \<open>crash\<close>: of every file a prefix remains that contains the synced bytes.  File names are never lost, although \<^verbatim>\<open>Segment::create\<close> does not sync the directory.
  \<^item> \<open>audit_run\<close>: a log created on a missing file, appends that succeed, in any interleaving.  \<open>fe_run\<close>: an approval queue that starts empty, without I/O errors, calls one after the other, restarts in between.
  \<^item> Fewer than \<open>2 ^ 63 - 1\<close> sequence numbers are used, as the index stores them in signed columns; tamper evidence is about strings below \<open>2 ^ 32 - 1\<close> bytes and instants with a 64-bit nanosecond
    count, because other instants are hashed as 0 (lemma \<open>far_instants_alias\<close>).

  \<^bold>\<open>Not modelled.\<close>  The network servers (\<^verbatim>\<open>vledger-server\<close>, \<^verbatim>\<open>vledger-pgwire\<close>, \<^verbatim>\<open>vledger-replication\<close>, \<^verbatim>\<open>vledger-mcp\<close>), which are asynchronous I/O around the store; wrappers of
  cryptographic libraries, secret stores and hardware modules; compliance reports, licenses, command line, backup and key rotation; the translation of the syntax trees of the
  \<^verbatim>\<open>sqlparser\<close> crate into plans; schema migrations and the full-text index of SQLite; file permissions, locks on files and logging.
\<close>

end
